(* ===== verification/Prelude.thy ===== *)
theory Prelude
  imports Main "HOL-Library.Word" "HOL-Library.AList"
begin

text \<open>
  Shared vocabulary of the development: the machine integers of the Rust sources, the model of
  \<^verbatim>\<open>std::collections::HashMap\<close>, checked and saturating arithmetic, stateful computations with early
  return, and the generic lemmas every component uses.

  A hash map is an association list with distinct keys. The order of the list stands for the
  iteration order of the map, which Rust leaves unspecified; every statement about a component
  is for an arbitrary list, so it holds for every iteration order of the maps it is given.

  A fallible method that mutates its receiver is a function \<open>'s \<Rightarrow> ('e + 'a) \<times> 's\<close>: the
  state of an early return (the \<^verbatim>\<open>?\<close> operator) is kept, because Rust does not undo the writes
  made before the error.
\<close>

named_theorems bridge_simps \<open>rewrite rules of the model's record operations\<close>
named_theorems hm_simps \<open>rewrite rules of the hash-map model\<close>

section \<open>Machine integers\<close>

type_synonym u8 = "8 word"
type_synonym u16 = "16 word"
type_synonym u32 = "32 word"
type_synonym u64 = "64 word"
type_synonym usize = "64 word"

text \<open>Floating-point values are carried as their IEEE 754 bit patterns.\<close>

type_synonym f32 = "32 word"
type_synonym f64 = "64 word"

text \<open>Rust's \<^verbatim>\<open>checked_add\<close>, \<^verbatim>\<open>saturating_add\<close> and \<^verbatim>\<open>saturating_sub\<close>.\<close>

definition checked_add :: "'a::len word \<Rightarrow> 'a word \<Rightarrow> 'a word option" where
  "checked_add a b = (if unat a + unat b < 2 ^ LENGTH('a) then Some (a + b) else None)"

definition saturating_add :: "'a::len word \<Rightarrow> 'a word \<Rightarrow> 'a word" where
  "saturating_add a b = (if unat a + unat b < 2 ^ LENGTH('a) then a + b else - 1)"

definition saturating_sub :: "'a::len word \<Rightarrow> 'a word \<Rightarrow> 'a word" where
  "saturating_sub a b = (if a < b then 0 else a - b)"

lemma checked_add_SomeD:
  assumes "checked_add a b = Some c"
  shows "unat c = unat a + unat b"
  using assms by (auto simp: checked_add_def unat_word_ariths split: if_splits)

lemma checked_add_NoneD:
  fixes a :: "'a::len word"
  assumes "checked_add a b = None"
  shows "2 ^ LENGTH('a) \<le> unat a + unat b"
  using assms by (auto simp: checked_add_def split: if_splits)

lemma unat_saturating_add:
  fixes a :: "'a::len word"
  shows "unat (saturating_add a b) = min (unat a + unat b) (2 ^ LENGTH('a) - 1)"
  by (auto simp: saturating_add_def unat_word_ariths unsigned_minus_1_eq_mask mask_eq_exp_minus_1)

lemma unat_saturating_sub: "unat (saturating_sub a b) = unat a - unat b"
  by (auto simp: saturating_sub_def unat_sub word_less_nat_alt word_le_nat_alt not_less)

section \<open>Hash maps\<close>

type_synonym ('k, 'v) hmap = "('k \<times> 'v) list"

definition hm_ok :: "('k, 'v) hmap \<Rightarrow> bool" where
  "hm_ok m \<longleftrightarrow> distinct (map fst m)"

definition hm_get :: "('k, 'v) hmap \<Rightarrow> 'k \<Rightarrow> 'v option" where
  "hm_get m k = map_of m k"

definition hm_insert :: "'k \<Rightarrow> 'v \<Rightarrow> ('k, 'v) hmap \<Rightarrow> ('k, 'v) hmap" where
  "hm_insert k v m = AList.update k v m"

definition hm_remove :: "'k \<Rightarrow> ('k, 'v) hmap \<Rightarrow> ('k, 'v) hmap" where
  "hm_remove k m = AList.delete k m"

definition hm_keys :: "('k, 'v) hmap \<Rightarrow> 'k list" where
  "hm_keys m = map fst m"

definition hm_retain :: "('k \<Rightarrow> 'v \<Rightarrow> bool) \<Rightarrow> ('k, 'v) hmap \<Rightarrow> ('k, 'v) hmap" where
  "hm_retain p m = filter (\<lambda>(k, v). p k v) m"

lemma hm_get_Nil [simp, hm_simps]: "hm_get [] k = None"
  by (simp add: hm_get_def)

lemma hm_get_Cons [simp, hm_simps]:
  "hm_get ((k, v) # m) k' = (if k' = k then Some v else hm_get m k')"
  by (simp add: hm_get_def)

lemma hm_get_insert [simp, hm_simps]:
  "hm_get (hm_insert k v m) k' = (if k' = k then Some v else hm_get m k')"
  by (simp add: hm_get_def hm_insert_def update_conv)

lemma hm_get_remove [simp, hm_simps]:
  "hm_get (hm_remove k m) k' = (if k' = k then None else hm_get m k')"
  by (simp add: hm_get_def hm_remove_def delete_conv)

lemma hm_ok_Nil [simp, intro]: "hm_ok []"
  by (simp add: hm_ok_def)

lemma hm_ok_insert [simp, intro]: "hm_ok m \<Longrightarrow> hm_ok (hm_insert k v m)"
  by (simp add: hm_ok_def hm_insert_def distinct_update)

lemma hm_ok_remove [simp, intro]: "hm_ok m \<Longrightarrow> hm_ok (hm_remove k m)"
  by (simp add: hm_ok_def hm_remove_def distinct_delete)

lemma hm_ok_retain [simp, intro]: "hm_ok m \<Longrightarrow> hm_ok (hm_retain p m)"
  by (simp add: hm_ok_def hm_retain_def distinct_map_filter)

lemma hm_get_Some_in: "hm_get m k = Some v \<Longrightarrow> (k, v) \<in> set m"
  by (simp add: hm_get_def map_of_SomeD)

lemma hm_in_get: "hm_ok m \<Longrightarrow> (k, v) \<in> set m \<Longrightarrow> hm_get m k = Some v"
  by (simp add: hm_get_def hm_ok_def)

lemma hm_get_iff: "hm_ok m \<Longrightarrow> hm_get m k = Some v \<longleftrightarrow> (k, v) \<in> set m"
  by (blast dest: hm_get_Some_in hm_in_get)

lemma hm_get_None_iff: "hm_get m k = None \<longleftrightarrow> k \<notin> set (hm_keys m)"
  by (simp add: hm_get_def hm_keys_def map_of_eq_None_iff)

lemma hm_keys_get: "k \<in> set (hm_keys m) \<longleftrightarrow> (\<exists>v. hm_get m k = Some v)"
  using hm_get_None_iff [of m k] by (cases "hm_get m k") auto

lemma hm_get_retain:
  "hm_ok m \<Longrightarrow> hm_get (hm_retain p m) k =
     (case hm_get m k of None \<Rightarrow> None | Some v \<Rightarrow> if p k v then Some v else None)"
  by (induction m) (auto simp: hm_get_def hm_retain_def hm_ok_def map_of_eq_None_iff image_iff
      split: option.splits dest!: map_of_SomeD)

lemma length_hm_insert_new: "hm_get m k = None \<Longrightarrow> length (hm_insert k v m) = Suc (length m)"
  by (induction m) (auto simp: hm_get_def hm_insert_def split: if_splits)

lemma length_hm_insert_old: "hm_get m k \<noteq> None \<Longrightarrow> length (hm_insert k v m) = length m"
  by (induction m) (auto simp: hm_get_def hm_insert_def split: if_splits)

lemma hm_insert_new: "k \<notin> fst ` set m \<Longrightarrow> hm_insert k v m = m @ [(k, v)]"
  by (induction m) (auto simp: hm_insert_def)

lemma set_hm_remove: "set (hm_remove k m) = {kv \<in> set m. fst kv \<noteq> k}"
  by (auto simp: hm_remove_def AList.delete_eq)

lemma set_hm_keys_insert [simp]: "set (hm_keys (hm_insert k v m)) = insert k (set (hm_keys m))"
  by (auto simp: hm_keys_get split: if_splits)

lemma set_hm_keys_remove [simp]: "set (hm_keys (hm_remove k m)) = set (hm_keys m) - {k}"
  by (auto simp: hm_keys_get split: if_splits)

lemmas hm_defs = hm_get_def hm_insert_def hm_remove_def hm_keys_def hm_retain_def hm_ok_def

section \<open>Slices\<close>

text \<open>\<^verbatim>\<open>slice::chunks\<close>; it panics for chunks of size 0, which its callers exclude.\<close>

function chunks :: "nat \<Rightarrow> 'a list \<Rightarrow> 'a list list" where
  "chunks n xs = (if xs = [] \<or> n = 0 then [] else take n xs # chunks n (drop n xs))"
  by pat_completeness auto
termination
  by (relation "measure (\<lambda>(n, xs). length xs)") (auto simp: length_greater_0_conv)

declare chunks.simps [simp del]

lemma chunks_simps:
  "chunks n [] = []"
  "0 < n \<Longrightarrow> xs \<noteq> [] \<Longrightarrow> chunks n xs = take n xs # chunks n (drop n xs)"
  by (subst chunks.simps, simp)+

lemma concat_chunks: "0 < n \<Longrightarrow> concat (chunks n xs) = xs"
  by (induction n xs rule: chunks.induct) (subst chunks.simps, auto)

lemma length_chunks: "0 < n \<Longrightarrow> length (chunks n xs) = (length xs + n - 1) div n"
proof (induction n xs rule: chunks.induct)
  case (1 n xs)
  show ?case
  proof (cases "xs = []")
    case True
    with 1(2) show ?thesis by (simp add: chunks_simps)
  next
    case False
    with 1 have "length (chunks n xs) = Suc ((length xs - n + n - 1) div n)" by (simp add: chunks_simps)
    also have "\<dots> = (length xs + n - 1) div n"
    proof (cases "n \<le> length xs")
      case True
      then have eq: "length xs + n - 1 = (length xs - n + n - 1) + n" using 1(2) by simp
      show ?thesis by (subst eq, subst div_add_self2) (use 1(2) in simp_all)
    next
      case small: False
      have eq: "length xs + n - 1 = n + (length xs - 1)" using False by (cases xs) auto
      show ?thesis by (subst eq, subst div_add_self1) (use small 1(2) in \<open>simp_all add: div_less\<close>)
    qed
    finally show ?thesis .
  qed
qed

lemma chunk_sizes: "0 < n \<Longrightarrow> c \<in> set (chunks n xs) \<Longrightarrow> 0 < length c \<and> length c \<le> n"
proof (induction n xs rule: chunks.induct)
  case (1 n xs)
  then show ?case by (cases "xs = []") (auto simp: chunks_simps)
qed

section \<open>Bytes\<close>

type_synonym bytes = "u8 list"

text \<open>\<^verbatim>\<open>to_le_bytes\<close> and \<^verbatim>\<open>from_le_bytes\<close> for a value of \<open>n\<close> bytes; the big-endian form is the reverse.\<close>

definition le_bytes :: "nat \<Rightarrow> 'a::len word \<Rightarrow> bytes" where
  "le_bytes n w = map (\<lambda>i. ucast (drop_bit (8 * i) w)) [0..<n]"

fun of_le_bytes :: "bytes \<Rightarrow> 'a::len word" where
  "of_le_bytes [] = 0"
| "of_le_bytes (b # bs) = or (ucast b) (push_bit 8 (of_le_bytes bs))"

lemma length_le_bytes [simp]: "length (le_bytes n w) = n"
  by (simp add: le_bytes_def)

lemma le_bytes_Suc: "le_bytes (Suc n) w = ucast w # le_bytes n (drop_bit 8 w)"
  by (simp add: le_bytes_def upt_conv_Cons map_Suc_upt [symmetric] drop_bit_drop_bit add.commute del: upt_Suc)

lemma of_le_bytes_take: "of_le_bytes (le_bytes n w) = take_bit (8 * n) w"
proof (induction n arbitrary: w)
  case 0
  show ?case by (simp add: le_bytes_def)
next
  case (Suc n)
  show ?case
    by (rule bit_word_eqI)
      (auto simp: le_bytes_Suc Suc.IH bit_simps not_less)
qed

lemma of_le_bytes_id: "LENGTH('a) \<le> 8 * n \<Longrightarrow> of_le_bytes (le_bytes n w) = (w :: 'a::len word)"
  by (simp add: of_le_bytes_take take_bit_word_eq_self)

text \<open>A model string is the sequence of the UTF-8 bytes of a Rust string.\<close>

definition as_bytes :: "string \<Rightarrow> bytes" where
  "as_bytes s = map (\<lambda>c. of_nat (of_char c)) s"

definition of_bytes :: "bytes \<Rightarrow> string" where
  "of_bytes bs = map (\<lambda>b. char_of (unat b)) bs"

lemma of_bytes_as_bytes [simp]: "of_bytes (as_bytes s) = s"
proof -
  have "char_of (unat (of_nat (of_char c) :: u8)) = c" for c
  proof -
    have "(of_char c :: nat) = of_char c mod 256" by (metis char_of_char of_char_of)
    also have "\<dots> < 256" by simp
    finally have "(of_char c :: nat) < 2 ^ 8" by simp
    then have "unat (of_nat (of_char c) :: u8) = of_char c" by (simp add: unat_of_nat take_bit_eq_mod)
    then show ?thesis by simp
  qed
  then show ?thesis by (simp add: of_bytes_def as_bytes_def comp_def)
qed

lemma as_bytes_of_bytes [simp]: "as_bytes (of_bytes bs) = bs"
proof -
  have "of_nat (of_char (char_of (unat b))) = b" for b :: u8
  proof -
    have "unat b < 256" using unsigned_less [of b] by simp
    then show ?thesis by simp
  qed
  then show ?thesis by (simp add: of_bytes_def as_bytes_def comp_def)
qed

lemma length_as_bytes [simp]: "length (as_bytes s) = length s"
  by (simp add: as_bytes_def)

section \<open>UTF-8\<close>

text \<open>The length of the well-formed sequence at the front of a byte string, 0 when there is none; the ranges
  are those of the Unicode standard, which \<^verbatim>\<open>str::from_utf8\<close> implements.\<close>

definition cont :: "u8 \<Rightarrow> bool" where
  "cont b \<longleftrightarrow> 0x80 \<le> b \<and> b \<le> 0xBF"

fun utf8_step :: "bytes \<Rightarrow> nat" where
  "utf8_step (a # b # c # d # bs) =
     (if a < 0x80 then 1
      else if 0xC2 \<le> a \<and> a \<le> 0xDF then (if cont b then 2 else 0)
      else if 0xE0 \<le> a \<and> a \<le> 0xEF
        then (if cont b \<and> cont c \<and> (a = 0xE0 \<longrightarrow> 0xA0 \<le> b) \<and> (a = 0xED \<longrightarrow> b \<le> 0x9F) then 3 else 0)
      else if 0xF0 \<le> a \<and> a \<le> 0xF4
        then (if cont b \<and> cont c \<and> cont d \<and> (a = 0xF0 \<longrightarrow> 0x90 \<le> b) \<and> (a = 0xF4 \<longrightarrow> b \<le> 0x8F) then 4 else 0)
      else 0)"
| "utf8_step [a, b, c] =
     (if a < 0x80 then 1
      else if 0xC2 \<le> a \<and> a \<le> 0xDF then (if cont b then 2 else 0)
      else if 0xE0 \<le> a \<and> a \<le> 0xEF
        then (if cont b \<and> cont c \<and> (a = 0xE0 \<longrightarrow> 0xA0 \<le> b) \<and> (a = 0xED \<longrightarrow> b \<le> 0x9F) then 3 else 0)
      else 0)"
| "utf8_step [a, b] =
     (if a < 0x80 then 1 else if 0xC2 \<le> a \<and> a \<le> 0xDF then (if cont b then 2 else 0) else 0)"
| "utf8_step [a] = (if a < 0x80 then 1 else 0)"
| "utf8_step [] = 0"

function valid_up_to :: "bytes \<Rightarrow> nat" where
  "valid_up_to bs = (let n = utf8_step bs in if n = 0 then 0 else n + valid_up_to (drop n bs))"
  by pat_completeness auto
termination
proof (relation "measure length", goal_cases)
  case (2 bs n)
  then have "bs \<noteq> []" by auto
  with 2 show ?case by simp
qed simp

declare valid_up_to.simps [simp del]

definition utf8 :: "bytes \<Rightarrow> bool" where
  "utf8 bs \<longleftrightarrow> valid_up_to bs = length bs"

definition from_utf8 :: "bytes \<Rightarrow> nat + string" where
  "from_utf8 bs = (if utf8 bs then Inr (of_bytes bs) else Inl (valid_up_to bs))"

end
