(* ===== verification/Errors.thy ===== *)
theory Errors
  imports Prelude
begin

text \<open>
  The vocabulary every component shares: the error enum of \<^verbatim>\<open>src/error.rs\<close> with the stable numeric
  codes of \<^verbatim>\<open>src/wasm/mod.rs\<close>, the configuration enums of \<^verbatim>\<open>src/config.rs\<close> and the constants of
  \<^verbatim>\<open>src/constants.rs\<close>.

  A message built by \<^verbatim>\<open>format!\<close> is the template and its arguments, so that two errors are equal
  exactly when the same site was reached with the same arguments. An argument rendered by the
  \<^verbatim>\<open>Debug\<close> or \<^verbatim>\<open>Display\<close> instance of a type whose rendering is not modelled is \<open>A_Dbg\<close>. The
  errors of the downstream crates (\<^verbatim>\<open>loro::LoroError\<close>, \<^verbatim>\<open>grafeo::Error\<close>,
  \<^verbatim>\<open>lorosurgeon::error::HydrateError\<close>) are carried as their displayed text.
\<close>

section \<open>Identifiers\<close>

type_synonym node_id = u64
type_synonym edge_id = u64
type_synonym epoch_id = u64
type_synonym peer_id = u64

section \<open>Errors\<close>

datatype fmt_arg = A_Str string | A_Num nat | A_Dbg

datatype err_msg = Msg string "fmt_arg list"

datatype io_error_kind = NotFound | InvalidData | OtherKind string

datatype io_error = Io_Error (io_kind: io_error_kind) (io_msg: err_msg)

datatype grafeo_loro_error =
    Loro string
  | Grafeo string
  | StorageIo io_error
  | Compression err_msg
  | ChannelClosed err_msg
  | Config err_msg
  | UnsupportedLoroType err_msg
  | Bridge err_msg
  | Hydrate string
  | TreeMoveCreatesCycle node_id node_id
  | NotYetImplemented err_msg
  | InvalidEnvelope err_msg

type_synonym 'a result = "grafeo_loro_error + 'a"

primrec error_code :: "grafeo_loro_error \<Rightarrow> u32" where
  "error_code (Loro e) = 1001"
| "error_code (Grafeo e) = 1002"
| "error_code (StorageIo e) = 1003"
| "error_code (Compression m) = 1004"
| "error_code (ChannelClosed m) = 1005"
| "error_code (Config m) = 1006"
| "error_code (UnsupportedLoroType m) = 1007"
| "error_code (Bridge m) = 1008"
| "error_code (Hydrate e) = 1009"
| "error_code (TreeMoveCreatesCycle n p) = 1010"
| "error_code (NotYetImplemented m) = 1011"
| "error_code (InvalidEnvelope m) = 1012"

text \<open>The variant of an error, as its position in the enum.\<close>

primrec error_variant :: "grafeo_loro_error \<Rightarrow> nat" where
  "error_variant (Loro e) = 0"
| "error_variant (Grafeo e) = 1"
| "error_variant (StorageIo e) = 2"
| "error_variant (Compression m) = 3"
| "error_variant (ChannelClosed m) = 4"
| "error_variant (Config m) = 5"
| "error_variant (UnsupportedLoroType m) = 6"
| "error_variant (Bridge m) = 7"
| "error_variant (Hydrate e) = 8"
| "error_variant (TreeMoveCreatesCycle n p) = 9"
| "error_variant (NotYetImplemented m) = 10"
| "error_variant (InvalidEnvelope m) = 11"

lemma unat_error_code: "unat (error_code e) = 1001 + error_variant e"
  by (cases e) simp_all

lemma error_variant_less: "error_variant e < 12"
  by (cases e) simp_all

section \<open>Configuration and constants\<close>

datatype ssot_mode = SsotLoro | SsotGrafeo

datatype compression_type = CT_None | CT_Lz4 | CT_Zstd

definition ORIGIN_GRAFEO_BRIDGE :: string where
  "ORIGIN_GRAFEO_BRIDGE = ''grafeo-bridge''"

definition ORIGIN_LORO_BRIDGE :: string where
  "ORIGIN_LORO_BRIDGE = ''loro-bridge''"

definition ROOT_VERTICES :: string where "ROOT_VERTICES = ''V''"

definition ROOT_EDGES :: string where "ROOT_EDGES = ''E''"

definition TREE_EDGE_LABEL :: string where "TREE_EDGE_LABEL = ''CHILD''"

definition DEFAULT_BATCH_MS :: u64 where "DEFAULT_BATCH_MS = 100"

definition DEFAULT_BATCH_SIZE :: usize where "DEFAULT_BATCH_SIZE = 256"

definition DEFAULT_CHUNK_SIZE :: usize where "DEFAULT_CHUNK_SIZE = 256"

definition DEFAULT_STALENESS_MS :: u64 where "DEFAULT_STALENESS_MS = 5000"

definition DEFAULT_BROTLI_QUALITY :: u32 where "DEFAULT_BROTLI_QUALITY = 5"

definition DEFAULT_DEFLATE_LEVEL :: u32 where "DEFAULT_DEFLATE_LEVEL = 6"

definition DEFAULT_EMBEDDING_DIM :: nat where "DEFAULT_EMBEDDING_DIM = 384"

definition EMBEDDING_PROPERTY :: string where "EMBEDDING_PROPERTY = ''embedding''"

definition OUTBOUND_POLL_MS :: u64 where "OUTBOUND_POLL_MS = 50"

definition EPOCH_RETENTION :: u64 where "EPOCH_RETENTION = 10000"

definition STORAGE_KEY_BASE_LORO :: string where "STORAGE_KEY_BASE_LORO = ''base.loro''"

definition STORAGE_KEY_DELTA_PREFIX :: string where "STORAGE_KEY_DELTA_PREFIX = ''delta-''"

definition STORAGE_KEY_DELTA_SUFFIX :: string where "STORAGE_KEY_DELTA_SUFFIX = ''.loro''"

definition STORAGE_KEY_GRAFEO_TAR_ZST :: string where
  "STORAGE_KEY_GRAFEO_TAR_ZST = ''snapshot.tar.zst''"

lemmas constant_defs = ORIGIN_GRAFEO_BRIDGE_def ORIGIN_LORO_BRIDGE_def ROOT_VERTICES_def
  ROOT_EDGES_def TREE_EDGE_LABEL_def DEFAULT_BATCH_MS_def DEFAULT_BATCH_SIZE_def
  DEFAULT_CHUNK_SIZE_def DEFAULT_STALENESS_MS_def EPOCH_RETENTION_def

end
