(* ===== verification/Ids.thy ===== *)
theory Ids
  imports Errors
begin

text \<open>
  Two-way tables: a forward map and an inverse map that are meant to agree. The interface is a
  locale; it is interpreted here on \<^verbatim>\<open>NodeIdTable\<close> (\<^verbatim>\<open>src/types/ids.rs\<close>), and in the theory of the
  bridge maps on the node tables and on the edge tables of \<^verbatim>\<open>BridgeMaps\<close>.
\<close>

section \<open>The interface\<close>

text \<open>\<open>bind\<close> writes both directions and overwrites what was there.\<close>

locale two_way_bind =
  fixes fwd :: "'s \<Rightarrow> 'k \<Rightarrow> 'i option"
    and inv :: "'s \<Rightarrow> 'i \<Rightarrow> 'k option"
    and bind :: "'k \<Rightarrow> 'i \<Rightarrow> 's \<Rightarrow> 's"
  assumes fwd_bind: "fwd (bind k i s) k' = (if k' = k then Some i else fwd s k')"
    and inv_bind: "inv (bind k i s) i' = (if i' = i then Some k else inv s i')"
begin

definition agree :: "'s \<Rightarrow> bool" where
  "agree s \<longleftrightarrow> (\<forall>k i. fwd s k = Some i \<longleftrightarrow> inv s i = Some k)"

lemma agree_fwd: "agree s \<Longrightarrow> fwd s k = Some i \<Longrightarrow> inv s i = Some k"
  by (simp add: agree_def)

lemma agree_inv: "agree s \<Longrightarrow> inv s i = Some k \<Longrightarrow> fwd s k = Some i"
  by (simp add: agree_def)

lemma fwd_inj: "agree s \<Longrightarrow> fwd s k = Some i \<Longrightarrow> fwd s k' = Some i \<Longrightarrow> k = k'"
  by (metis agree_def option.inject)

text \<open>A binding of a new key to an unused id keeps the tables in agreement.\<close>

lemma agree_bind:
  assumes "agree s" and "fwd s k = None" and "inv s i = None"
  shows "agree (bind k i s)"
  unfolding agree_def
proof (intro allI)
  fix k' i'
  have "fwd s k' \<noteq> Some i" for k'
    using assms(1,3) by (metis agree_def option.distinct(1))
  moreover have "inv s i' \<noteq> Some k" for i'
    using assms(1,2) by (metis agree_def option.distinct(1))
  ultimately show "fwd (bind k i s) k' = Some i' \<longleftrightarrow> inv (bind k i s) i' = Some k'"
    using assms(1) by (auto simp: fwd_bind inv_bind agree_def)
qed

text \<open>A binding of a new key to an id another key holds breaks the agreement: both keys then lead to
  the id, and the id leads to the new key only.\<close>

lemma bind_used_id_breaks:
  assumes "agree s" and "k \<noteq> k'" and "fwd s k' = Some i"
  shows "\<not> agree (bind k i s)"
  using assms by (metis agree_def fwd_bind inv_bind option.inject)

end

text \<open>\<open>unbind\<close> removes the binding of a key from both directions.\<close>

locale two_way_table = two_way_bind fwd inv bind
  for fwd :: "'s \<Rightarrow> 'k \<Rightarrow> 'i option" and inv :: "'s \<Rightarrow> 'i \<Rightarrow> 'k option"
    and bind :: "'k \<Rightarrow> 'i \<Rightarrow> 's \<Rightarrow> 's" +
  fixes unbind :: "'k \<Rightarrow> 's \<Rightarrow> 'i option \<times> 's"
  assumes unbind_fst: "fst (unbind k s) = fwd s k"
    and fwd_unbind: "fwd (snd (unbind k s)) k' = (if k' = k then None else fwd s k')"
    and inv_unbind: "inv (snd (unbind k s)) i' =
      (if fwd s k = Some i' then None else inv s i')"
begin

lemma agree_unbind:
  assumes "agree s"
  shows "agree (snd (unbind k s))"
  using assms unfolding agree_def
  by (metis fwd_unbind inv_unbind option.distinct(1) option.inject)

lemma unbind_unbind_fst: "fst (unbind k (snd (unbind k s))) = None"
  by (simp add: unbind_fst fwd_unbind)

end

section \<open>\<^verbatim>\<open>NodeIdTable\<close>\<close>

record node_id_table =
  str_to_id :: "(string, u64) hmap"
  id_to_str :: "(u64, string) hmap"
  nit_next_id :: u64

definition nit_new :: node_id_table where
  "nit_new = \<lparr>str_to_id = [], id_to_str = [], nit_next_id = 0\<rparr>"

definition nit_bind :: "string \<Rightarrow> u64 \<Rightarrow> node_id_table \<Rightarrow> node_id_table" where
  "nit_bind key nid t = t\<lparr>str_to_id := hm_insert key nid (str_to_id t),
                        id_to_str := hm_insert nid key (id_to_str t)\<rparr>"

definition nit_intern :: "string \<Rightarrow> node_id_table \<Rightarrow> u64 \<times> node_id_table" where
  "nit_intern key t = (case hm_get (str_to_id t) key of
     Some nid \<Rightarrow> (nid, t)
   | None \<Rightarrow> (let nid = nit_next_id t; t = t\<lparr>nit_next_id := nit_next_id t + 1\<rparr>
             in (nid, nit_bind key nid t)))"

definition nit_lookup :: "node_id_table \<Rightarrow> u64 \<Rightarrow> string option" where
  "nit_lookup t nid = hm_get (id_to_str t) nid"

definition nit_lookup_by_str :: "node_id_table \<Rightarrow> string \<Rightarrow> u64 option" where
  "nit_lookup_by_str t key = hm_get (str_to_id t) key"

definition nit_len :: "node_id_table \<Rightarrow> nat" where
  "nit_len t = length (str_to_id t)"

definition nit_is_empty :: "node_id_table \<Rightarrow> bool" where
  "nit_is_empty t \<longleftrightarrow> str_to_id t = []"

interpretation nit: two_way_bind nit_lookup_by_str nit_lookup nit_bind
  by unfold_locales (simp_all add: nit_lookup_by_str_def nit_lookup_def nit_bind_def)

text \<open>The ids handed out are exactly those below the counter, which is the number of keys. The bound
  keeps the counter from wrapping.\<close>

definition nit_ok :: "node_id_table \<Rightarrow> bool" where
  "nit_ok t \<longleftrightarrow> nit.agree t \<and> unat (nit_next_id t) = nit_len t \<and>
     (\<forall>nid. nit_lookup t nid \<noteq> None \<longleftrightarrow> unat nid < nit_len t)"

lemma nit_ok_new: "nit_ok nit_new"
  by (simp add: nit_ok_def nit_new_def nit.agree_def nit_lookup_by_str_def nit_lookup_def nit_len_def)

lemma nit_intern_known:
  "nit_lookup_by_str t key = Some nid \<Longrightarrow> nit_intern key t = (nid, t)"
  by (simp add: nit_intern_def nit_lookup_by_str_def)

lemma nit_intern_new:
  assumes "nit_ok t" and "nit_lookup_by_str t key = None" and "Suc (nit_len t) < 2 ^ 64"
  obtains t' where "nit_intern key t = (nit_next_id t, t')" "nit_ok t'"
    "nit_len t' = Suc (nit_len t)"
    "nit_lookup t' = (nit_lookup t)(nit_next_id t \<mapsto> key)"
    "nit_lookup_by_str t' = (nit_lookup_by_str t)(key \<mapsto> nit_next_id t)"
proof
  let ?t = "nit_bind key (nit_next_id t) (t\<lparr>nit_next_id := nit_next_id t + 1\<rparr>)"
  show "nit_intern key t = (nit_next_id t, ?t)"
    using assms(2) by (simp add: nit_intern_def nit_lookup_by_str_def Let_def)
  show len: "nit_len ?t = Suc (nit_len t)"
    using assms(2)
    by (simp add: nit_len_def nit_bind_def nit_lookup_by_str_def length_hm_insert_new)
  show lk: "nit_lookup ?t = (nit_lookup t)(nit_next_id t \<mapsto> key)"
    by (rule ext) (simp add: nit_lookup_def nit_bind_def)
  show fw: "nit_lookup_by_str ?t = (nit_lookup_by_str t)(key \<mapsto> nit_next_id t)"
    by (rule ext) (simp add: nit_lookup_by_str_def nit_bind_def)
  have free: "nit_lookup t (nit_next_id t) = None"
    using assms(1) unfolding nit_ok_def by (metis less_irrefl)
  have "nit.agree (t\<lparr>nit_next_id := n\<rparr>) = nit.agree t" for n
    by (simp add: nit.agree_def nit_lookup_by_str_def nit_lookup_def)
  with assms(1,2) free have "nit.agree ?t"
    by (intro nit.agree_bind) (simp_all add: nit_ok_def nit_lookup_by_str_def nit_lookup_def)
  moreover have next_id: "unat (nit_next_id t + 1) = Suc (nit_len t)"
    using assms(1,3) by (simp add: nit_ok_def unat_word_ariths)
  moreover have "nit_lookup ?t nid \<noteq> None \<longleftrightarrow> unat nid < Suc (nit_len t)" for nid
    using assms(1) unfolding lk by (auto simp: nit_ok_def less_Suc_eq word_unat_eq_iff)
  ultimately show "nit_ok ?t"
    by (simp add: nit_ok_def len) (simp add: nit_bind_def)
qed

text \<open>Interning is collision-free and stable: in a consistent
  table with room left, \<open>intern\<close> leaves a consistent table in which key and id lead to each other,
  no earlier binding changed, the counter is the number of keys, and interning the key again
  returns the same id and changes nothing.\<close>

theorem node_id_table_intern:
  assumes "nit_ok t" and "Suc (nit_len t) < 2 ^ 64" and "nit_intern key t = (nid, t')"
  shows "nit_ok t' \<and> nit_lookup t' nid = Some key \<and> nit_lookup_by_str t' key = Some nid \<and>
    nit_lookup t \<subseteq>\<^sub>m nit_lookup t' \<and> nit_lookup_by_str t \<subseteq>\<^sub>m nit_lookup_by_str t' \<and>
    unat (nit_next_id t') = nit_len t' \<and> nit_intern key t' = (nid, t')"
proof (cases "nit_lookup_by_str t key")
  case None
  have free: "nit_lookup t (nit_next_id t) = None"
    using assms(1) unfolding nit_ok_def by (metis less_irrefl)
  obtain u where u: "nit_intern key t = (nit_next_id t, u)" "nit_ok u"
    "nit_lookup u = (nit_lookup t)(nit_next_id t \<mapsto> key)"
    "nit_lookup_by_str u = (nit_lookup_by_str t)(key \<mapsto> nit_next_id t)"
    by (rule nit_intern_new [OF assms(1) None assms(2)])
  then have "unat (nit_next_id u) = nit_len u"
    by (simp add: nit_ok_def)
  moreover have "t' = u" "nid = nit_next_id t"
    using assms(3) u(1) by simp_all
  ultimately show ?thesis
    using u None free by (simp add: nit_intern_known map_le_def dom_def)
next
  case (Some i)
  with assms have "t' = t" "nid = i"
    by (simp_all add: nit_intern_known)
  moreover have "nit_lookup t i = Some key"
    using assms(1) Some by (simp add: nit_ok_def nit.agree_fwd)
  moreover have "unat (nit_next_id t) = nit_len t"
    using assms(1) by (simp add: nit_ok_def)
  ultimately show ?thesis
    using Some assms(1) by (simp add: nit_intern_known)
qed

theorem node_id_table_intern_witness:
  "let t' = \<lparr>str_to_id = [(''a'', 0)], id_to_str = [(0, ''a'')], nit_next_id = 1\<rparr> in
   nit_intern ''a'' nit_new = (0, t') \<and> nit_ok t' \<and> nit_intern ''a'' t' = (0, t')"
proof -
  have i: "nit_intern ''a'' nit_new =
    (0, \<lparr>str_to_id = [(''a'', 0)], id_to_str = [(0, ''a'')], nit_next_id = 1\<rparr>)"
    by (simp add: nit_intern_def nit_new_def nit_bind_def hm_defs)
  have l: "Suc (nit_len nit_new) < 2 ^ 64"
    by (simp add: nit_new_def nit_len_def)
  show ?thesis
    unfolding Let_def using i node_id_table_intern [OF nit_ok_new l i] by blast
qed

end
