(* ===== verification/Values.thy ===== *)
theory Values
  imports Errors
begin

text \<open>
  The value types of \<^verbatim>\<open>src/types/values.rs\<close> and the operation type of \<^verbatim>\<open>src/types/events.rs\<close>, with
  the three conversions of the bridge: \<open>lval_to_gval\<close> (Loro to the bridge), \<open>gval_to_grafeo_value\<close>
  (inbound) and \<open>grafeo_value_to_lval\<close> (outbound).

  \<^verbatim>\<open>loro::LoroValue\<close> and \<^verbatim>\<open>grafeo::Value\<close> are the variants the sources match on; a grafeo value
  outside the eight variants the sources name is \<open>GR_Exotic\<close> with its \<^verbatim>\<open>Debug\<close> text. Floats are bit
  patterns, and the widening \<^verbatim>\<open>f64::from(f32)\<close> is the parameter \<open>f64_from\<close>. \<^verbatim>\<open>HashMap\<close> and
  \<^verbatim>\<open>BTreeMap\<close> payloads are association lists, filled by the insertion loops of the sources.
\<close>

section \<open>Value types\<close>

datatype loro_property =
    LP_Null
  | LP_Bool bool
  | LP_Integer "64 word"
  | LP_Float f64
  | LP_String string

datatype graph_value =
    GV_Null
  | GV_Bool bool
  | GV_Integer "64 word"
  | GV_Float f64
  | GV_String string
  | GV_Vector "f32 list"
  | GV_Map "(string \<times> graph_value) list"
  | GV_List "graph_value list"

datatype loro_value =
    LV_Null
  | LV_Bool bool
  | LV_I64 "64 word"
  | LV_Double f64
  | LV_String string
  | LV_List "loro_value list"
  | LV_Map "(string \<times> loro_value) list"
  | LV_Binary "u8 list"
  | LV_Container string

datatype grafeo_value =
    GR_Null
  | GR_Bool bool
  | GR_Int64 "64 word"
  | GR_Float64 f64
  | GR_String string
  | GR_List "grafeo_value list"
  | GR_Map "(string \<times> grafeo_value) list"
  | GR_Vector "f32 list"
  | GR_Exotic string

text \<open>\<^verbatim>\<open>LoroProperty\<close>'s manual \<^verbatim>\<open>Hydrate\<close> and \<^verbatim>\<open>Reconcile\<close> instances: the bare scalar
  a property is read from and written as. \<open>None\<close> is a value no dispatcher accepts.\<close>

fun hydrate_property :: "loro_value \<Rightarrow> loro_property option" where
  "hydrate_property LV_Null = Some LP_Null"
| "hydrate_property (LV_Bool b) = Some (LP_Bool b)"
| "hydrate_property (LV_I64 i) = Some (LP_Integer i)"
| "hydrate_property (LV_Double f) = Some (LP_Float f)"
| "hydrate_property (LV_String s) = Some (LP_String s)"
| "hydrate_property _ = None"

fun reconcile_property :: "loro_property \<Rightarrow> loro_value" where
  "reconcile_property LP_Null = LV_Null"
| "reconcile_property (LP_Bool b) = LV_Bool b"
| "reconcile_property (LP_Integer i) = LV_I64 i"
| "reconcile_property (LP_Float f) = LV_Double f"
| "reconcile_property (LP_String s) = LV_String s"

text \<open>The \<^verbatim>\<open>From\<close> instances for the scalars.\<close>

definition gval_from_bool :: "bool \<Rightarrow> graph_value" where
  "gval_from_bool b = GV_Bool b"

definition gval_from_i64 :: "64 word \<Rightarrow> graph_value" where
  "gval_from_i64 i = GV_Integer i"

definition gval_from_f64 :: "f64 \<Rightarrow> graph_value" where
  "gval_from_f64 f = GV_Float f"

definition gval_from_string :: "string \<Rightarrow> graph_value" where
  "gval_from_string s = GV_String s"

fun gval_from_property :: "loro_property \<Rightarrow> graph_value" where
  "gval_from_property LP_Null = GV_Null"
| "gval_from_property (LP_Bool b) = GV_Bool b"
| "gval_from_property (LP_Integer i) = GV_Integer i"
| "gval_from_property (LP_Float f) = GV_Float f"
| "gval_from_property (LP_String s) = GV_String s"

definition graph_only_msg :: err_msg where
  "graph_only_msg = Msg ''{v:?} has no LoroProperty representation (Vector/Map/List are graph-only)'' [A_Dbg]"

fun property_try_from :: "graph_value \<Rightarrow> loro_property result" where
  "property_try_from GV_Null = Inr LP_Null"
| "property_try_from (GV_Bool b) = Inr (LP_Bool b)"
| "property_try_from (GV_Integer i) = Inr (LP_Integer i)"
| "property_try_from (GV_Float f) = Inr (LP_Float f)"
| "property_try_from (GV_String s) = Inr (LP_String s)"
| "property_try_from (GV_Vector v) = Inl (UnsupportedLoroType graph_only_msg)"
| "property_try_from (GV_Map m) = Inl (UnsupportedLoroType graph_only_msg)"
| "property_try_from (GV_List l) = Inl (UnsupportedLoroType graph_only_msg)"

section \<open>Conversions\<close>

text \<open>\<open>lvals_to_gvals\<close> is \<^verbatim>\<open>collect\<close> into a \<^verbatim>\<open>Result<Vec<_>>\<close> (the first error ends it), and
  \<open>lmap_to_gmap\<close> the insertion loop over the map's entries with its early return.\<close>

fun lval_to_gval :: "loro_value \<Rightarrow> graph_value result"
and lvals_to_gvals :: "loro_value list \<Rightarrow> graph_value list result"
and lmap_to_gmap ::
  "(string \<times> loro_value) list \<Rightarrow> (string, graph_value) hmap \<Rightarrow> (string, graph_value) hmap result"
where
  "lval_to_gval LV_Null = Inr GV_Null"
| "lval_to_gval (LV_Bool b) = Inr (GV_Bool b)"
| "lval_to_gval (LV_I64 i) = Inr (GV_Integer i)"
| "lval_to_gval (LV_Double f) = Inr (GV_Float f)"
| "lval_to_gval (LV_String s) = Inr (GV_String s)"
| "lval_to_gval (LV_List items) = (case lvals_to_gvals items of Inl e \<Rightarrow> Inl e | Inr v \<Rightarrow> Inr (GV_List v))"
| "lval_to_gval (LV_Map m) = (case lmap_to_gmap m [] of Inl e \<Rightarrow> Inl e | Inr out \<Rightarrow> Inr (GV_Map out))"
| "lval_to_gval (LV_Binary b) = Inl (UnsupportedLoroType (Msg ''Binary'' []))"
| "lval_to_gval (LV_Container c) = Inl (UnsupportedLoroType (Msg ''Container'' []))"
| "lvals_to_gvals [] = Inr []"
| "lvals_to_gvals (x # xs) = (case lval_to_gval x of Inl e \<Rightarrow> Inl e
     | Inr v \<Rightarrow> (case lvals_to_gvals xs of Inl e \<Rightarrow> Inl e | Inr vs \<Rightarrow> Inr (v # vs)))"
| "lmap_to_gmap [] out = Inr out"
| "lmap_to_gmap ((k, x) # m) out = (case lval_to_gval x of Inl e \<Rightarrow> Inl e
     | Inr v \<Rightarrow> lmap_to_gmap m (hm_insert k v out))"

fun gval_to_grafeo_value :: "graph_value \<Rightarrow> grafeo_value"
and gvals_to_grafeo :: "graph_value list \<Rightarrow> grafeo_value list"
and gmap_to_grafeo ::
  "(string \<times> graph_value) list \<Rightarrow> (string, grafeo_value) hmap \<Rightarrow> (string, grafeo_value) hmap"
where
  "gval_to_grafeo_value GV_Null = GR_Null"
| "gval_to_grafeo_value (GV_Bool b) = GR_Bool b"
| "gval_to_grafeo_value (GV_Integer i) = GR_Int64 i"
| "gval_to_grafeo_value (GV_Float f) = GR_Float64 f"
| "gval_to_grafeo_value (GV_String s) = GR_String s"
| "gval_to_grafeo_value (GV_Vector v) = GR_Vector v"
| "gval_to_grafeo_value (GV_List items) = GR_List (gvals_to_grafeo items)"
| "gval_to_grafeo_value (GV_Map m) = GR_Map (gmap_to_grafeo m [])"
| "gvals_to_grafeo [] = []"
| "gvals_to_grafeo (x # xs) = gval_to_grafeo_value x # gvals_to_grafeo xs"
| "gmap_to_grafeo [] bt = bt"
| "gmap_to_grafeo ((k, x) # m) bt = gmap_to_grafeo m (hm_insert k (gval_to_grafeo_value x) bt)"

fun grafeo_value_to_lval :: "(f32 \<Rightarrow> f64) \<Rightarrow> grafeo_value \<Rightarrow> loro_value"
and grafeo_values_to_lvals :: "(f32 \<Rightarrow> f64) \<Rightarrow> grafeo_value list \<Rightarrow> loro_value list"
and grafeo_map_to_lmap :: "(f32 \<Rightarrow> f64) \<Rightarrow> (string \<times> grafeo_value) list \<Rightarrow>
  (string, loro_value) hmap \<Rightarrow> (string, loro_value) hmap"
where
  "grafeo_value_to_lval f64_from GR_Null = LV_Null"
| "grafeo_value_to_lval f64_from (GR_Bool b) = LV_Bool b"
| "grafeo_value_to_lval f64_from (GR_Int64 i) = LV_I64 i"
| "grafeo_value_to_lval f64_from (GR_Float64 f) = LV_Double f"
| "grafeo_value_to_lval f64_from (GR_String s) = LV_String s"
| "grafeo_value_to_lval f64_from (GR_List items) = LV_List (grafeo_values_to_lvals f64_from items)"
| "grafeo_value_to_lval f64_from (GR_Map m) = LV_Map (grafeo_map_to_lmap f64_from m [])"
| "grafeo_value_to_lval f64_from (GR_Vector v) = LV_List (map (\<lambda>f. LV_Double (f64_from f)) v)"
| "grafeo_value_to_lval f64_from (GR_Exotic e) = LV_Null"
| "grafeo_values_to_lvals f64_from [] = []"
| "grafeo_values_to_lvals f64_from (x # xs) =
     grafeo_value_to_lval f64_from x # grafeo_values_to_lvals f64_from xs"
| "grafeo_map_to_lmap f64_from [] out = out"
| "grafeo_map_to_lmap f64_from ((k, x) # m) out =
     grafeo_map_to_lmap f64_from m (hm_insert k (grafeo_value_to_lval f64_from x) out)"

section \<open>Operations\<close>

datatype loro_op =
    UpsertNode string "string list" "(string, graph_value) hmap"
  | UpsertEdge string string string "(string, graph_value) hmap"
  | DeleteNode string
  | DeleteEdge string string string
  | TreeMove string string string

datatype conflict_resolution = OursWins | TheirsWins | Merged | ManualRequired

record conflict_detected =
  cd_node_key :: string
  cd_field :: string
  cd_base :: string
  cd_ours :: string
  cd_theirs :: string
  cd_resolution :: conflict_resolution

section \<open>The shared subset of the value types\<close>

text \<open>A Loro value is \<open>plain\<close> when it holds no binary blob and no container reference, and
  well-formed when the keys of every map in it are distinct.\<close>

fun lv_plain :: "loro_value \<Rightarrow> bool" where
  "lv_plain (LV_List xs) \<longleftrightarrow> (\<forall>x \<in> set xs. lv_plain x)"
| "lv_plain (LV_Map m) \<longleftrightarrow> (\<forall>kv \<in> set m. lv_plain (snd kv))"
| "lv_plain (LV_Binary b) \<longleftrightarrow> False"
| "lv_plain (LV_Container c) \<longleftrightarrow> False"
| "lv_plain _ \<longleftrightarrow> True"

fun lv_wf :: "loro_value \<Rightarrow> bool" where
  "lv_wf (LV_List xs) \<longleftrightarrow> (\<forall>x \<in> set xs. lv_wf x)"
| "lv_wf (LV_Map m) \<longleftrightarrow> hm_ok m \<and> (\<forall>kv \<in> set m. lv_wf (snd kv))"
| "lv_wf _ \<longleftrightarrow> True"

section \<open>Properties\<close>

text \<open>The insertion loops on distinct keys are maps over the entries.\<close>

lemma gvals_to_grafeo_map: "gvals_to_grafeo xs = map gval_to_grafeo_value xs"
  by (induction xs) simp_all

lemma grafeo_values_to_lvals_map: "grafeo_values_to_lvals c xs = map (grafeo_value_to_lval c) xs"
  by (induction xs) simp_all

lemma gmap_to_grafeo_distinct:
  "distinct (map fst (bt @ map (apsnd gval_to_grafeo_value) m)) \<Longrightarrow>
   gmap_to_grafeo m bt = bt @ map (apsnd gval_to_grafeo_value) m"
  by (induction m arbitrary: bt) (auto simp: hm_insert_new comp_def)

lemma grafeo_map_to_lmap_distinct:
  "distinct (map fst (out @ map (apsnd (grafeo_value_to_lval c)) m)) \<Longrightarrow>
   grafeo_map_to_lmap c m out = out @ map (apsnd (grafeo_value_to_lval c)) m"
  by (induction m arbitrary: out) (auto simp: hm_insert_new comp_def)

text \<open>The bridge value \<open>g\<close> goes back to \<open>l\<close> through grafeo.\<close>

definition back_to :: "(f32 \<Rightarrow> f64) \<Rightarrow> loro_value \<Rightarrow> graph_value \<Rightarrow> bool" where
  "back_to c l g \<longleftrightarrow> grafeo_value_to_lval c (gval_to_grafeo_value g) = l"

lemma back_to_list:
  assumes "list_all2 (back_to c) xs vs"
  shows "back_to c (LV_List xs) (GV_List vs)"
  using assms
  by (induction rule: list_all2_induct)
    (auto simp: back_to_def gvals_to_grafeo_map grafeo_values_to_lvals_map)

lemma back_to_map:
  assumes "list_all2 (\<lambda>(k, l) (k', g). k = k' \<and> back_to c l g) m gm" and "hm_ok m"
  shows "back_to c (LV_Map m) (GV_Map gm)"
proof -
  have keys: "map fst m = map fst gm"
    using assms(1) by (induction rule: list_all2_induct) auto
  moreover have "map (apsnd (grafeo_value_to_lval c \<circ> gval_to_grafeo_value)) gm = m"
    using assms(1) by (induction rule: list_all2_induct) (auto simp: back_to_def)
  ultimately show ?thesis
    using assms(2)
    by (simp add: back_to_def gmap_to_grafeo_distinct grafeo_map_to_lmap_distinct hm_ok_def
        comp_def apsnd_compose)
qed

lemma lval_to_gval_back:
  shows "lv_wf l \<Longrightarrow> lv_plain l \<Longrightarrow> \<exists>g. lval_to_gval l = Inr g \<and> back_to c l g"
    and "\<forall>x \<in> set xs. lv_wf x \<and> lv_plain x \<Longrightarrow>
      \<exists>vs. lvals_to_gvals xs = Inr vs \<and> list_all2 (back_to c) xs vs"
    and "\<forall>kv \<in> set m. lv_wf (snd kv) \<and> lv_plain (snd kv) \<Longrightarrow>
      distinct (map fst out @ map fst m) \<Longrightarrow>
      \<exists>gm. lmap_to_gmap m out = Inr (out @ gm) \<and>
        list_all2 (\<lambda>(k, l) (k', g). k = k' \<and> back_to c l g) m gm"
proof (induction l and xs and m out rule: lval_to_gval_lvals_to_gvals_lmap_to_gmap.induct)
  case (6 items)
  then obtain vs where "lvals_to_gvals items = Inr vs" "list_all2 (back_to c) items vs"
    by fastforce
  then show ?case by (simp add: back_to_list)
next
  case (7 m)
  then obtain gm where "lmap_to_gmap m [] = Inr gm"
    "list_all2 (\<lambda>(k, l) (k', g). k = k' \<and> back_to c l g) m gm"
    by (fastforce simp: hm_ok_def)
  with 7(2) show ?case by (simp add: back_to_map)
next
  case (11 x xs)
  obtain v where v: "lval_to_gval x = Inr v" "back_to c x v"
    using 11(1,3) by force
  obtain vs where "lvals_to_gvals xs = Inr vs" "list_all2 (back_to c) xs vs"
    using 11(2) [OF v(1)] 11(3) by force
  with v show ?case by simp
next
  case (13 k x m out)
  obtain v where v: "lval_to_gval x = Inr v" "back_to c x v"
    using 13(1,3) by force
  have ins: "hm_insert k v out = out @ [(k, v)]"
    using 13(4) by (intro hm_insert_new) simp
  have "distinct (map fst (out @ [(k, v)]) @ map fst m)"
    using 13(4) by simp
  then obtain gm where "lmap_to_gmap m (out @ [(k, v)]) = Inr ((out @ [(k, v)]) @ gm)"
    "list_all2 (\<lambda>(k, l) (k', g). k = k' \<and> back_to c l g) m gm"
    using 13(2) [OF v(1)] 13(3) unfolding ins by force
  with v ins show ?case
    by (intro exI [of _ "(k, v) # gm"]) simp
qed (simp_all add: back_to_def)

lemma lval_to_gval_error:
  shows "lval_to_gval l = Inl e \<Longrightarrow> \<not> lv_plain l \<and> (\<exists>w. e = UnsupportedLoroType w)"
    and "lvals_to_gvals xs = Inl e \<Longrightarrow>
      (\<exists>x \<in> set xs. \<not> lv_plain x) \<and> (\<exists>w. e = UnsupportedLoroType w)"
    and "lmap_to_gmap m out = Inl e \<Longrightarrow>
      (\<exists>kv \<in> set m. \<not> lv_plain (snd kv)) \<and> (\<exists>w. e = UnsupportedLoroType w)"
  by (induction l and xs and m out rule: lval_to_gval_lvals_to_gvals_lmap_to_gmap.induct)
    (auto split: sum.splits)

lemma lval_to_gval_plain:
  shows "lval_to_gval l = Inr g \<Longrightarrow> lv_plain l"
    and "lvals_to_gvals xs = Inr gs \<Longrightarrow> \<forall>x \<in> set xs. lv_plain x"
    and "lmap_to_gmap m out = Inr gm \<Longrightarrow> \<forall>kv \<in> set m. lv_plain (snd kv)"
  by (induction l and xs and m out arbitrary: g and gs and gm
      rule: lval_to_gval_lvals_to_gvals_lmap_to_gmap.induct)
    (auto split: sum.splits)

text \<open>Property C19 (lval_to_gval_grafeo_round_trip). A Loro value is accepted by \<open>lval_to_gval\<close>
  exactly when no binary blob and no container reference occurs in it at any depth; the only error is
  \<open>UnsupportedLoroType\<close>; and an accepted value whose maps have distinct keys comes back unchanged
  when it is sent to grafeo (\<open>gval_to_grafeo_value\<close>) and read back (\<open>grafeo_value_to_lval\<close>),
  whatever the widening of floats is.\<close>

theorem lval_to_gval_grafeo_round_trip:
  "case lval_to_gval l of
     Inl e \<Rightarrow> \<not> lv_plain l \<and> (\<exists>w. e = UnsupportedLoroType w)
   | Inr g \<Rightarrow> lv_plain l \<and>
       (lv_wf l \<longrightarrow> grafeo_value_to_lval c (gval_to_grafeo_value g) = l)"
proof (cases "lval_to_gval l")
  case (Inl e)
  then show ?thesis
    using lval_to_gval_error(1) [OF Inl] by simp
next
  case (Inr g)
  then show ?thesis
    using lval_to_gval_plain(1) [OF Inr] lval_to_gval_back(1) [of l c] by (auto simp: back_to_def)
qed

theorem lval_to_gval_grafeo_round_trip_witness:
  "lval_to_gval (LV_Map [(''a'', LV_I64 1), (''b'', LV_List [LV_Bool True, LV_Null])]) =
     Inr (GV_Map [(''a'', GV_Integer 1), (''b'', GV_List [GV_Bool True, GV_Null])]) \<and>
   grafeo_value_to_lval (\<lambda>f. ucast f)
     (gval_to_grafeo_value (GV_Map [(''a'', GV_Integer 1), (''b'', GV_List [GV_Bool True, GV_Null])])) =
     LV_Map [(''a'', LV_I64 1), (''b'', LV_List [LV_Bool True, LV_Null])]"
  using lval_to_gval_grafeo_round_trip
    [of "LV_Map [(''a'', LV_I64 1), (''b'', LV_List [LV_Bool True, LV_Null])]" "\<lambda>f. ucast f"]
  by (simp add: hm_defs)

section \<open>Values that come back from Loro\<close>

text \<open>What grafeo receives when a value it sent to Loro is sent back: a vector returns as a list of its components and
  a value outside the named variants as \<open>GR_Null\<close>, at any depth; the others return unchanged.\<close>

fun echo_value :: "(f32 \<Rightarrow> f64) \<Rightarrow> grafeo_value \<Rightarrow> grafeo_value" where
  "echo_value c (GR_List vs) = GR_List (map (echo_value c) vs)"
| "echo_value c (GR_Map m) = GR_Map (map (\<lambda>kv. (fst kv, echo_value c (snd kv))) m)"
| "echo_value c (GR_Vector fs) = GR_List (map (\<lambda>f. GR_Float64 (c f)) fs)"
| "echo_value c (GR_Exotic e) = GR_Null"
| "echo_value c v = v"

fun gr_wf :: "grafeo_value \<Rightarrow> bool" where
  "gr_wf (GR_List vs) \<longleftrightarrow> (\<forall>v \<in> set vs. gr_wf v)"
| "gr_wf (GR_Map m) \<longleftrightarrow> hm_ok m \<and> (\<forall>kv \<in> set m. gr_wf (snd kv))"
| "gr_wf _ \<longleftrightarrow> True"

fun gr_plain :: "grafeo_value \<Rightarrow> bool" where
  "gr_plain (GR_List vs) \<longleftrightarrow> (\<forall>v \<in> set vs. gr_plain v)"
| "gr_plain (GR_Map m) \<longleftrightarrow> (\<forall>kv \<in> set m. gr_plain (snd kv))"
| "gr_plain (GR_Vector fs) \<longleftrightarrow> False"
| "gr_plain (GR_Exotic e) \<longleftrightarrow> False"
| "gr_plain _ \<longleftrightarrow> True"

lemma echo_value_fixed: "echo_value c v = v \<longleftrightarrow> gr_plain v"
proof (induction v)
  case (GR_List vs)
  then show ?case by (induction vs) auto
next
  case (GR_Map m)
  have "echo_value c (snd kv) = snd kv \<longleftrightarrow> gr_plain (snd kv)" if "kv \<in> set m" for kv
    using GR_Map [of kv "snd kv"] that by (cases kv) auto
  then show ?case
    using map_eq_conv [of "\<lambda>kv. (fst kv, echo_value c (snd kv))" m "\<lambda>kv. kv"] by (auto simp: prod_eq_iff)
qed simp_all

text \<open>What grafeo sends is plain, with distinct keys in every map.\<close>

lemma hm_insert_all: "\<forall>kv \<in> set m. P (snd kv) \<Longrightarrow> P v \<Longrightarrow> \<forall>kv \<in> set (hm_insert k v m). P (snd kv)"
  unfolding hm_insert_def by (induction m) auto

lemma sent_plain:
  shows "lv_plain (grafeo_value_to_lval c v) \<and> lv_wf (grafeo_value_to_lval c v)"
    and "\<forall>l \<in> set (grafeo_values_to_lvals c vs). lv_plain l \<and> lv_wf l"
    and "hm_ok out \<Longrightarrow> \<forall>kv \<in> set out. lv_plain (snd kv) \<and> lv_wf (snd kv) \<Longrightarrow>
      hm_ok (grafeo_map_to_lmap c m out) \<and>
      (\<forall>kv \<in> set (grafeo_map_to_lmap c m out). lv_plain (snd kv) \<and> lv_wf (snd kv))"
proof (induction c v and c vs and c m out rule:
    grafeo_value_to_lval_grafeo_values_to_lvals_grafeo_map_to_lmap.induct)
  case (13 c k x m out)
  then show ?case
    using hm_insert_all [of out "\<lambda>l. lv_plain l \<and> lv_wf l" "grafeo_value_to_lval c x" k] by simp
qed auto

lemma lmap_to_gmap_each:
  "distinct (map fst out @ map fst m) \<Longrightarrow> \<forall>kv \<in> set m. \<exists>g. lval_to_gval (snd kv) = Inr g \<Longrightarrow>
    \<exists>gm. lmap_to_gmap m out = Inr (out @ gm) \<and> list_all2 (\<lambda>(k, l) (k', g). k = k' \<and> lval_to_gval l = Inr g) m gm"
proof (induction m arbitrary: out)
  case (Cons kv m)
  obtain k l g where kv: "kv = (k, l)" and g: "lval_to_gval l = Inr g" using Cons.prems(2) by (cases kv) auto
  have ins: "hm_insert k g out = out @ [(k, g)]"
    using Cons.prems(1) kv by (intro hm_insert_new) simp
  obtain gm where "lmap_to_gmap m (out @ [(k, g)]) = Inr ((out @ [(k, g)]) @ gm)"
    "list_all2 (\<lambda>(k, l) (k', g). k = k' \<and> lval_to_gval l = Inr g) m gm"
    using Cons.IH [of "out @ [(k, g)]"] Cons.prems kv by auto
  with kv g ins show ?case by (intro exI [of _ "(k, g) # gm"]) simp
qed simp

lemma lvals_to_gvals_each:
  "\<forall>l \<in> set ls. \<exists>g. lval_to_gval l = Inr g \<Longrightarrow> \<exists>gs. lvals_to_gvals ls = Inr gs \<and> list_all2 (\<lambda>l g. lval_to_gval l = Inr g) ls gs"
proof (induction ls)
  case (Cons l ls)
  then obtain g gs where "lval_to_gval l = Inr g" "lvals_to_gvals ls = Inr gs" "list_all2 (\<lambda>l g. lval_to_gval l = Inr g) ls gs"
    by auto
  then show ?case by (intro exI [of _ "g # gs"]) simp
qed simp

lemma echo_value_back:
  assumes "gr_wf v"
  shows "\<exists>g. lval_to_gval (grafeo_value_to_lval c v) = Inr g \<and> gval_to_grafeo_value g = echo_value c v"
  using assms
proof (induction v)
  case (GR_List vs)
  let ?ls = "map (grafeo_value_to_lval c) vs"
  obtain gs where gs: "lvals_to_gvals ?ls = Inr gs" "list_all2 (\<lambda>l g. lval_to_gval l = Inr g) ?ls gs"
    using lvals_to_gvals_each [of ?ls] GR_List by fastforce
  have "list_all2 (\<lambda>v g. gval_to_grafeo_value g = echo_value c v) vs gs"
    using gs(2) GR_List unfolding list_all2_map1 by (intro list.rel_mono_strong [OF gs(2) [unfolded list_all2_map1]]) fastforce
  then have "map gval_to_grafeo_value gs = map (echo_value c) vs"
    by (induction rule: list_all2_induct) auto
  with gs(1) show ?case by (simp add: grafeo_values_to_lvals_map gvals_to_grafeo_map)
next
  case (GR_Map m)
  let ?lm = "map (apsnd (grafeo_value_to_lval c)) m"
  have d: "distinct (map fst m)" using GR_Map.prems by (simp add: hm_ok_def)
  have ex: "\<exists>g. lval_to_gval (grafeo_value_to_lval c (snd kv)) = Inr g \<and> gval_to_grafeo_value g = echo_value c (snd kv)"
    if "kv \<in> set m" for kv
    using GR_Map.IH [of kv "snd kv"] GR_Map.prems that by (cases kv) auto
  obtain gm where gm: "lmap_to_gmap ?lm [] = Inr gm"
    "list_all2 (\<lambda>(k, l) (k', g). k = k' \<and> lval_to_gval l = Inr g) ?lm gm"
    using lmap_to_gmap_each [of "[]" ?lm] d ex by (fastforce simp: comp_def)
  have "list_all2 (\<lambda>kv kg. fst kv = fst kg \<and> gval_to_grafeo_value (snd kg) = echo_value c (snd kv)) m gm"
    by (rule list.rel_mono_strong [OF gm(2) [unfolded list_all2_map1]]) (use ex in fastforce)
  then have "map (apsnd gval_to_grafeo_value) gm = map (\<lambda>kv. (fst kv, echo_value c (snd kv))) m \<and> map fst gm = map fst m"
    by (induction rule: list_all2_induct) (auto simp: prod_eq_iff)
  with gm(1) d show ?case
    by (simp add: grafeo_map_to_lmap_distinct gmap_to_grafeo_distinct comp_def)
next
  case (GR_Vector fs)
  have "lvals_to_gvals (map (\<lambda>f. LV_Double (c f)) fs) = Inr (map (\<lambda>f. GV_Float (c f)) fs)"
    by (induction fs) simp_all
  then show ?case by (simp add: gvals_to_grafeo_map)
qed simp_all

text \<open>The scalar properties are the common part of the value types: the three representations of a
  \<open>loro_property\<close> are inverse to each other.\<close>

lemma property_try_from_gval [simp]: "property_try_from (gval_from_property p) = Inr p"
  by (cases p) simp_all

lemma hydrate_reconcile_property [simp]: "hydrate_property (reconcile_property p) = Some p"
  by (cases p) simp_all

lemma lval_to_gval_reconcile [simp]:
  "lval_to_gval (reconcile_property p) = Inr (gval_from_property p)"
  by (cases p) simp_all

text \<open>\<open>LoroProperty::try_from\<close> is the exact partial inverse
  of the embedding into \<open>GraphValue\<close> (it succeeds on precisely the embedded scalars), and reading a
  property from the value it is reconciled to gives the property back, also when that value is first
  converted with \<open>lval_to_gval\<close>.\<close>

theorem property_conversions_agree:
  "(property_try_from g = Inr p) = (g = gval_from_property p) \<and>
   (hydrate_property l = Some p) = (l = reconcile_property p) \<and>
   lval_to_gval (reconcile_property p) = Inr (gval_from_property p)"
  by (cases g; cases l; cases p; simp; blast)

end
