(* ===== verification/Bridge_Maps.thy ===== *)
theory Bridge_Maps
  imports Ids Values
begin

text \<open>
  The id-mapping state of the bridge (\<^verbatim>\<open>BridgeMaps\<close> of \<^verbatim>\<open>src/bridge/grafeo_tx.rs\<close>): four hash maps
  between Loro keys and grafeo ids, the operations that write them, and the runtime check
  \<^verbatim>\<open>validate_text_bijection\<close> of invariant I11. The node tables and the edge tables are two
  interpretations of the two-way table interface, whose \<open>agree\<close> is the bijection the bridge relies on.
\<close>

section \<open>State and operations\<close>

type_synonym edge_key = "string \<times> string \<times> string"

record bridge_maps =
  node_id_map :: "(string, node_id) hmap"
  node_key_map :: "(node_id, string) hmap"
  edge_id_map :: "(edge_key, edge_id) hmap"
  edge_key_map :: "(edge_id, edge_key) hmap"

definition maps_new :: bridge_maps where
  "maps_new = \<lparr>node_id_map = [], node_key_map = [], edge_id_map = [], edge_key_map = []\<rparr>"

definition insert_node :: "string \<Rightarrow> node_id \<Rightarrow> bridge_maps \<Rightarrow> bridge_maps" where
  "insert_node loro_key nid maps =
     (let maps = maps\<lparr>node_id_map := hm_insert loro_key nid (node_id_map maps)\<rparr>
      in maps\<lparr>node_key_map := hm_insert nid loro_key (node_key_map maps)\<rparr>)"

definition remove_node :: "string \<Rightarrow> bridge_maps \<Rightarrow> node_id option \<times> bridge_maps" where
  "remove_node loro_key maps = (case hm_get (node_id_map maps) loro_key of
     None \<Rightarrow> (None, maps)
   | Some nid \<Rightarrow>
       (let maps = maps\<lparr>node_id_map := hm_remove loro_key (node_id_map maps)\<rparr>
        in (Some nid, maps\<lparr>node_key_map := hm_remove nid (node_key_map maps)\<rparr>)))"

definition insert_edge :: "edge_key \<Rightarrow> edge_id \<Rightarrow> bridge_maps \<Rightarrow> bridge_maps" where
  "insert_edge key eid maps =
     (let maps = maps\<lparr>edge_id_map := hm_insert key eid (edge_id_map maps)\<rparr>
      in maps\<lparr>edge_key_map := hm_insert eid key (edge_key_map maps)\<rparr>)"

definition remove_edge :: "edge_key \<Rightarrow> bridge_maps \<Rightarrow> edge_id option \<times> bridge_maps" where
  "remove_edge key maps = (case hm_get (edge_id_map maps) key of
     None \<Rightarrow> (None, maps)
   | Some eid \<Rightarrow>
       (let maps = maps\<lparr>edge_id_map := hm_remove key (edge_id_map maps)\<rparr>
        in (Some eid, maps\<lparr>edge_key_map := hm_remove eid (edge_key_map maps)\<rparr>)))"

definition remove_edge_by_id :: "edge_id \<Rightarrow> bridge_maps \<Rightarrow> edge_key option \<times> bridge_maps" where
  "remove_edge_by_id eid maps = (case hm_get (edge_key_map maps) eid of
     None \<Rightarrow> (None, maps)
   | Some key \<Rightarrow>
       (let maps = maps\<lparr>edge_key_map := hm_remove eid (edge_key_map maps)\<rparr>
        in (Some key, maps\<lparr>edge_id_map := hm_remove key (edge_id_map maps)\<rparr>)))"

datatype bijection_error =
    MissingInverse string node_id
  | MissingForward string node_id
  | DuplicateId node_id string string
  | DuplicateKey string node_id node_id

text \<open>The two loops of \<^verbatim>\<open>validate_text_bijection\<close>, over the entries of the forward and of the
  inverse map.\<close>

fun check_forward ::
  "(string \<times> node_id) list \<Rightarrow> (node_id, string) hmap \<Rightarrow> bijection_error option" where
  "check_forward [] inverse_map = None"
| "check_forward ((loro_key, nid) # rest) inverse_map = (case hm_get inverse_map nid of
     Some inv_key \<Rightarrow> (if inv_key = loro_key then check_forward rest inverse_map
                     else Some (DuplicateId nid loro_key inv_key))
   | None \<Rightarrow> Some (MissingInverse loro_key nid))"

fun check_inverse ::
  "(node_id \<times> string) list \<Rightarrow> (string, node_id) hmap \<Rightarrow> bijection_error option" where
  "check_inverse [] forward_map = None"
| "check_inverse ((nid, loro_key) # rest) forward_map = (case hm_get forward_map loro_key of
     Some fwd_id \<Rightarrow> (if fwd_id = nid then check_inverse rest forward_map
                    else Some (DuplicateKey loro_key nid fwd_id))
   | None \<Rightarrow> Some (MissingForward loro_key nid))"

definition validate_text_bijection :: "bridge_maps \<Rightarrow> bijection_error + unit" where
  "validate_text_bijection maps =
     (case check_forward (node_id_map maps) (node_key_map maps) of
        Some e \<Rightarrow> Inl e
      | None \<Rightarrow> (case check_inverse (node_key_map maps) (node_id_map maps) of
          Some e \<Rightarrow> Inl e
        | None \<Rightarrow> Inr ()))"

section \<open>The two-way tables\<close>

definition node_fwd :: "bridge_maps \<Rightarrow> string \<Rightarrow> node_id option" where
  "node_fwd maps k = hm_get (node_id_map maps) k"

definition node_inv :: "bridge_maps \<Rightarrow> node_id \<Rightarrow> string option" where
  "node_inv maps i = hm_get (node_key_map maps) i"

definition edge_fwd :: "bridge_maps \<Rightarrow> edge_key \<Rightarrow> edge_id option" where
  "edge_fwd maps k = hm_get (edge_id_map maps) k"

definition edge_inv :: "bridge_maps \<Rightarrow> edge_id \<Rightarrow> edge_key option" where
  "edge_inv maps i = hm_get (edge_key_map maps) i"

lemmas table_defs = node_fwd_def node_inv_def edge_fwd_def edge_inv_def
lemmas maps_op_defs = insert_node_def remove_node_def insert_edge_def remove_edge_def
  remove_edge_by_id_def Let_def

interpretation nodes: two_way_table node_fwd node_inv insert_node remove_node
  by unfold_locales (auto simp: table_defs maps_op_defs split: option.splits)

interpretation edges: two_way_table edge_fwd edge_inv insert_edge remove_edge
  by unfold_locales (auto simp: table_defs maps_op_defs split: option.splits)

text \<open>Operations on one pair of tables leave the other pair alone.\<close>

lemma tables_frame [bridge_simps]:
  "edge_fwd (insert_node k i m) = edge_fwd m" "edge_inv (insert_node k i m) = edge_inv m"
  "edge_fwd (snd (remove_node k m)) = edge_fwd m" "edge_inv (snd (remove_node k m)) = edge_inv m"
  "node_fwd (insert_edge e j m) = node_fwd m" "node_inv (insert_edge e j m) = node_inv m"
  "node_fwd (snd (remove_edge e m)) = node_fwd m" "node_inv (snd (remove_edge e m)) = node_inv m"
  "node_fwd (snd (remove_edge_by_id j m)) = node_fwd m"
  "node_inv (snd (remove_edge_by_id j m)) = node_inv m"
  by (auto simp: table_defs maps_op_defs fun_eq_iff split: option.splits)

text \<open>In agreeing edge tables \<^verbatim>\<open>remove_edge_by_id\<close> is \<^verbatim>\<open>remove_edge\<close> of the key the id leads to.\<close>

lemma remove_edge_by_id_eq:
  assumes "edges.agree maps"
  shows "fst (remove_edge_by_id eid maps) = edge_inv maps eid \<and>
    (\<forall>key. edge_inv maps eid = Some key \<longrightarrow>
       snd (remove_edge_by_id eid maps) = snd (remove_edge key maps))"
proof (cases "edge_inv maps eid")
  case (Some key)
  then have "edge_fwd maps key = Some eid"
    using assms edges.agree_inv by blast
  with Some show ?thesis
    by (auto simp: table_defs maps_op_defs)
qed (simp add: table_defs maps_op_defs)

text \<open>The invariant of the bridge maps.\<close>

definition maps_ok :: "bridge_maps \<Rightarrow> bool" where
  "maps_ok maps \<longleftrightarrow>
     hm_ok (node_id_map maps) \<and> hm_ok (node_key_map maps) \<and>
     hm_ok (edge_id_map maps) \<and> hm_ok (edge_key_map maps) \<and>
     nodes.agree maps \<and> edges.agree maps"

lemma agree_frame [bridge_simps]:
  "edges.agree (insert_node k i m) = edges.agree m"
  "edges.agree (snd (remove_node k m)) = edges.agree m"
  "nodes.agree (insert_edge e j m) = nodes.agree m"
  "nodes.agree (snd (remove_edge e m)) = nodes.agree m"
  "nodes.agree (snd (remove_edge_by_id j m)) = nodes.agree m"
  by (simp_all add: nodes.agree_def edges.agree_def tables_frame)

lemma maps_ok_new: "maps_ok maps_new"
  by (simp add: maps_ok_def maps_new_def nodes.agree_def edges.agree_def table_defs)

lemma maps_ok_insert_node:
  assumes "maps_ok m" and "node_fwd m k = None" and "node_inv m i = None"
  shows "maps_ok (insert_node k i m)"
  using assms nodes.agree_bind [of m k i]
  by (simp add: maps_ok_def bridge_simps) (simp add: insert_node_def Let_def)

lemma maps_ok_insert_edge:
  assumes "maps_ok m" and "edge_fwd m k = None" and "edge_inv m i = None"
  shows "maps_ok (insert_edge k i m)"
  using assms edges.agree_bind [of m k i]
  by (simp add: maps_ok_def bridge_simps) (simp add: insert_edge_def Let_def)

lemma maps_ok_remove_node: "maps_ok m \<Longrightarrow> maps_ok (snd (remove_node k m))"
  using nodes.agree_unbind [of m k]
  by (simp add: maps_ok_def bridge_simps) (auto simp: remove_node_def Let_def split: option.splits)

lemma maps_ok_remove_edge: "maps_ok m \<Longrightarrow> maps_ok (snd (remove_edge k m))"
  using edges.agree_unbind [of m k]
  by (simp add: maps_ok_def bridge_simps) (auto simp: remove_edge_def Let_def split: option.splits)

lemma maps_ok_remove_edge_by_id:
  assumes "maps_ok m"
  shows "maps_ok (snd (remove_edge_by_id j m))"
proof (cases "edge_inv m j")
  case None
  with assms show ?thesis by (simp add: remove_edge_by_id_def table_defs)
next
  case (Some key)
  with assms have "snd (remove_edge_by_id j m) = snd (remove_edge key m)"
    by (simp add: remove_edge_by_id_eq maps_ok_def)
  with assms show ?thesis by (simp add: maps_ok_remove_edge)
qed

section \<open>The runtime check\<close>

lemma check_forward_None:
  "check_forward fs inverse_map = None \<longleftrightarrow> (\<forall>(k, i) \<in> set fs. hm_get inverse_map i = Some k)"
  by (induction fs inverse_map rule: check_forward.induct) (auto split: option.splits)

lemma check_inverse_None:
  "check_inverse is forward_map = None \<longleftrightarrow> (\<forall>(i, k) \<in> set is. hm_get forward_map k = Some i)"
  by (induction "is" forward_map rule: check_inverse.induct) (auto split: option.splits)

text \<open>What each error of the check reports about the maps.\<close>

definition bijection_error_ok :: "bridge_maps \<Rightarrow> bijection_error \<Rightarrow> bool" where
  "bijection_error_ok m e = (case e of
     MissingInverse k i \<Rightarrow> node_fwd m k = Some i \<and> node_inv m i = None
   | MissingForward k i \<Rightarrow> node_inv m i = Some k \<and> node_fwd m k = None
   | DuplicateId i a b \<Rightarrow> a \<noteq> b \<and> node_fwd m a = Some i \<and> node_inv m i = Some b
   | DuplicateKey k i j \<Rightarrow> i \<noteq> j \<and> node_inv m i = Some k \<and> node_fwd m k = Some j)"

lemma check_forward_Some:
  assumes "check_forward fs (node_key_map m) = Some e" and "hm_ok (node_id_map m)"
    and "set fs \<subseteq> set (node_id_map m)"
  shows "bijection_error_ok m e"
  using assms
  by (induction fs "node_key_map m" rule: check_forward.induct)
    (auto simp: bijection_error_ok_def table_defs hm_in_get split: option.splits if_splits)

lemma check_inverse_Some:
  assumes "check_inverse is (node_id_map m) = Some e" and "hm_ok (node_key_map m)"
    and "set is \<subseteq> set (node_key_map m)"
  shows "bijection_error_ok m e"
  using assms
  by (induction "is" "node_id_map m" rule: check_inverse.induct)
    (auto simp: bijection_error_ok_def table_defs hm_in_get split: option.splits if_splits)

lemma validate_ok_iff:
  assumes "hm_ok (node_id_map m)" and "hm_ok (node_key_map m)"
  shows "validate_text_bijection m = Inr () \<longleftrightarrow> nodes.agree m"
  using assms check_forward_None [of "node_id_map m" "node_key_map m"]
    check_inverse_None [of "node_key_map m" "node_id_map m"]
  by (force simp: validate_text_bijection_def table_defs hm_get_iff nodes.agree_def
      split: option.splits)

lemma validate_error:
  assumes "hm_ok (node_id_map m)" and "hm_ok (node_key_map m)" and "validate_text_bijection m = Inl e"
  shows "bijection_error_ok m e"
  using assms check_forward_Some [of "node_id_map m" m] check_inverse_Some [of "node_key_map m" m]
  by (auto simp: validate_text_bijection_def split: option.splits)

lemma maps_ok_validates: "maps_ok m \<Longrightarrow> validate_text_bijection m = Inr ()"
  by (simp add: maps_ok_def validate_ok_iff)

text \<open>The check of invariant I11 accepts the maps exactly
  when key and id lead to each other in both maps, and the error it reports otherwise is a true
  statement about the maps: a missing inverse or forward entry, or two keys (ids) that share an id
  (a key).\<close>

theorem validate_text_bijection_correct:
  assumes "hm_ok (node_id_map m)" and "hm_ok (node_key_map m)"
  shows "(validate_text_bijection m = Inr ()) = (\<forall>k i. node_fwd m k = Some i \<longleftrightarrow> node_inv m i = Some k) \<and>
    (\<forall>e. validate_text_bijection m = Inl e \<longrightarrow> bijection_error_ok m e)"
  using validate_ok_iff [OF assms] validate_error [OF assms] by (simp add: nodes.agree_def)

theorem validate_text_bijection_correct_witness:
  "validate_text_bijection (insert_node ''k2'' 1 (insert_node ''k1'' 1 maps_new)) =
     Inl (DuplicateId 1 ''k1'' ''k2'') \<and>
   bijection_error_ok (insert_node ''k2'' 1 (insert_node ''k1'' 1 maps_new)) (DuplicateId 1 ''k1'' ''k2'')"
proof -
  let ?m = "insert_node ''k2'' 1 (insert_node ''k1'' 1 maps_new)"
  have "hm_ok (node_id_map ?m)" "hm_ok (node_key_map ?m)"
    by (simp_all add: maps_op_defs maps_new_def)
  moreover have "validate_text_bijection ?m = Inl (DuplicateId 1 ''k1'' ''k2'')"
    by (simp add: validate_text_bijection_def maps_op_defs maps_new_def hm_defs)
  ultimately show ?thesis
    using validate_text_bijection_correct [of ?m] by blast
qed

end
