(* ===== verification/Grafeo_Tx.thy ===== *)
theory Grafeo_Tx
  imports Bridge_Maps
begin

text \<open>
  The inbound translator of \<^verbatim>\<open>src/bridge/grafeo_tx.rs\<close>: \<^verbatim>\<open>apply_loro_op\<close> and the three functions it
  dispatches to. The grafeo database is not part of the sources: a session is a record of functions
  over an arbitrary database state \<open>'s\<close>, one field per method the sources call, each returning its
  result and the new state. What the bridge relies on is the predicate \<open>session_fresh\<close>.

  A step of the translator acts on a database state and the bridge maps; both are kept on an early
  return, because the maps are shared and no code undoes their writes.
\<close>

section \<open>The grafeo session\<close>

record 's session_api =
  s_set_node_property :: "node_id \<Rightarrow> string \<Rightarrow> grafeo_value \<Rightarrow> 's \<Rightarrow> (string + unit) \<times> 's"
  s_set_edge_property :: "edge_id \<Rightarrow> string \<Rightarrow> grafeo_value \<Rightarrow> 's \<Rightarrow> (string + unit) \<times> 's"
  s_create_node_with_props ::
    "string list \<Rightarrow> (string \<times> grafeo_value) list \<Rightarrow> 's \<Rightarrow> (string + node_id) \<times> 's"
  s_create_edge_with_props ::
    "node_id \<Rightarrow> node_id \<Rightarrow> string \<Rightarrow> (string \<times> grafeo_value) list \<Rightarrow> 's \<Rightarrow> (string + edge_id) \<times> 's"
  s_create_edge :: "node_id \<Rightarrow> node_id \<Rightarrow> string \<Rightarrow> 's \<Rightarrow> edge_id \<times> 's"
  s_delete_node :: "node_id \<Rightarrow> 's \<Rightarrow> 's"
  s_delete_edge :: "edge_id \<Rightarrow> 's \<Rightarrow> 's"

type_synonym 's tx = "'s \<times> bridge_maps"

section \<open>The translator\<close>

text \<open>The loops over the properties; the first failing write ends them.\<close>

fun set_node_properties ::
  "'s session_api \<Rightarrow> node_id \<Rightarrow> (string \<times> graph_value) list \<Rightarrow> 's \<Rightarrow> unit result \<times> 's" where
  "set_node_properties api nid [] s = (Inr (), s)"
| "set_node_properties api nid ((k, v) # ps) s =
     (case s_set_node_property api nid k (gval_to_grafeo_value v) s of
        (Inl e, s) \<Rightarrow> (Inl (Grafeo e), s)
      | (Inr u, s) \<Rightarrow> set_node_properties api nid ps s)"

fun set_edge_properties ::
  "'s session_api \<Rightarrow> edge_id \<Rightarrow> (string \<times> graph_value) list \<Rightarrow> 's \<Rightarrow> unit result \<times> 's" where
  "set_edge_properties api eid [] s = (Inr (), s)"
| "set_edge_properties api eid ((k, v) # ps) s =
     (case s_set_edge_property api eid k (gval_to_grafeo_value v) s of
        (Inl e, s) \<Rightarrow> (Inl (Grafeo e), s)
      | (Inr u, s) \<Rightarrow> set_edge_properties api eid ps s)"

definition props_iter :: "(string \<times> graph_value) list \<Rightarrow> (string \<times> grafeo_value) list" where
  "props_iter properties = map (\<lambda>(k, v). (k, gval_to_grafeo_value v)) properties"

definition apply_upsert_node ::
  "'s session_api \<Rightarrow> string \<Rightarrow> string list \<Rightarrow> (string, graph_value) hmap \<Rightarrow> 's tx \<Rightarrow>
     unit result \<times> 's tx" where
  "apply_upsert_node api loro_key labels properties = (\<lambda>(s, maps).
     case hm_get (node_id_map maps) loro_key of
       Some nid \<Rightarrow> (case set_node_properties api nid properties s of (r, s) \<Rightarrow> (r, (s, maps)))
     | None \<Rightarrow> (case s_create_node_with_props api labels (props_iter properties) s of
           (Inl e, s) \<Rightarrow> (Inl (Grafeo e), (s, maps))
         | (Inr nid, s) \<Rightarrow> (Inr (), (s, insert_node loro_key nid maps))))"

definition unknown_node_keys :: "string \<Rightarrow> string \<Rightarrow> grafeo_loro_error" where
  "unknown_node_keys src_key dst_key =
     Bridge (Msg ''unknown node key(s): src={src_key:?} dst={dst_key:?}'' [A_Str src_key, A_Str dst_key])"

definition apply_upsert_edge ::
  "'s session_api \<Rightarrow> string \<Rightarrow> string \<Rightarrow> string \<Rightarrow> (string, graph_value) hmap \<Rightarrow> 's tx \<Rightarrow>
     unit result \<times> 's tx" where
  "apply_upsert_edge api src_key dst_key label properties = (\<lambda>(s, maps).
     case (hm_get (node_id_map maps) src_key, hm_get (node_id_map maps) dst_key) of
       (Some src_id, Some dst_id) \<Rightarrow>
         (case hm_get (edge_id_map maps) (src_key, dst_key, label) of
            Some eid \<Rightarrow> (case set_edge_properties api eid properties s of (r, s) \<Rightarrow> (r, (s, maps)))
          | None \<Rightarrow> (case s_create_edge_with_props api src_id dst_id label (props_iter properties) s of
                (Inl e, s) \<Rightarrow> (Inl (Grafeo e), (s, maps))
              | (Inr eid, s) \<Rightarrow> (Inr (), (s, insert_edge (src_key, dst_key, label) eid maps))))
     | _ \<Rightarrow> (Inl (unknown_node_keys src_key dst_key), (s, maps)))"

text \<open>\<^verbatim>\<open>maps.remove_edge(&key)\<close> followed by \<^verbatim>\<open>session.delete_edge\<close> when there was a binding.\<close>

definition drop_edge :: "'s session_api \<Rightarrow> edge_key \<Rightarrow> 's tx \<Rightarrow> 's tx" where
  "drop_edge api key = (\<lambda>(s, maps). case remove_edge key maps of
     (Some eid, maps) \<Rightarrow> (s_delete_edge api eid s, maps)
   | (None, maps) \<Rightarrow> (s, maps))"

definition apply_tree_move ::
  "'s session_api \<Rightarrow> string \<Rightarrow> string \<Rightarrow> string \<Rightarrow> 's tx \<Rightarrow> unit result \<times> 's tx" where
  "apply_tree_move api node_key old_parent_key new_parent_key = (\<lambda>(s, maps).
     case hm_get (node_id_map maps) node_key of
       None \<Rightarrow> (Inr (), (s, maps))
     | Some nid \<Rightarrow> (case hm_get (node_id_map maps) new_parent_key of
         None \<Rightarrow> (Inr (), (s, maps))
       | Some new_parent_id \<Rightarrow>
           (case drop_edge api (old_parent_key, node_key, TREE_EDGE_LABEL) (s, maps) of
              (s, maps) \<Rightarrow>
                (let new_key = (new_parent_key, node_key, TREE_EDGE_LABEL) in
                 if hm_get (edge_id_map maps) new_key = None
                 then (case s_create_edge api new_parent_id nid TREE_EDGE_LABEL s of
                         (eid, s) \<Rightarrow> (Inr (), (s, insert_edge new_key eid maps)))
                 else (Inr (), (s, maps))))))"

fun apply_loro_op :: "'s session_api \<Rightarrow> loro_op \<Rightarrow> 's tx \<Rightarrow> unit result \<times> 's tx" where
  "apply_loro_op api (UpsertNode loro_key labels properties) t =
     apply_upsert_node api loro_key labels properties t"
| "apply_loro_op api (UpsertEdge src_key dst_key label properties) t =
     apply_upsert_edge api src_key dst_key label properties t"
| "apply_loro_op api (DeleteNode loro_key) (s, maps) =
     (case remove_node loro_key maps of
        (Some nid, maps) \<Rightarrow> (Inr (), (s_delete_node api nid s, maps))
      | (None, maps) \<Rightarrow> (Inr (), (s, maps)))"
| "apply_loro_op api (DeleteEdge src_key dst_key label) t =
     (Inr (), drop_edge api (src_key, dst_key, label) t)"
| "apply_loro_op api (TreeMove node_key old_parent_key new_parent_key) t =
     apply_tree_move api node_key old_parent_key new_parent_key t"

text \<open>The loop over a batch: the first error ends it.\<close>

fun apply_loro_ops :: "'s session_api \<Rightarrow> loro_op list \<Rightarrow> 's tx \<Rightarrow> unit result \<times> 's tx" where
  "apply_loro_ops api [] t = (Inr (), t)"
| "apply_loro_ops api (op # ops) t = (case apply_loro_op api op t of
     (Inl e, t) \<Rightarrow> (Inl e, t)
   | (Inr u, t) \<Rightarrow> apply_loro_ops api ops t)"

section \<open>What the bridge relies on\<close>

text \<open>The database never hands out an id twice: \<open>used_n\<close> and \<open>used_e\<close> are the node and edge ids it has
  handed out, a created entity gets an id outside them, and no call shrinks them. \<^verbatim>\<open>create_edge\<close> cannot
  fail, so it can only promise a new id while the 64-bit id space is not exhausted.\<close>

definition session_fresh ::
  "'s session_api \<Rightarrow> ('s \<Rightarrow> node_id set) \<Rightarrow> ('s \<Rightarrow> edge_id set) \<Rightarrow> bool" where
  "session_fresh api used_n used_e \<longleftrightarrow>
     (\<forall>nid k v s r s'. s_set_node_property api nid k v s = (r, s') \<longrightarrow>
        used_n s' = used_n s \<and> used_e s' = used_e s) \<and>
     (\<forall>eid k v s r s'. s_set_edge_property api eid k v s = (r, s') \<longrightarrow>
        used_n s' = used_n s \<and> used_e s' = used_e s) \<and>
     (\<forall>ls ps s r s'. s_create_node_with_props api ls ps s = (r, s') \<longrightarrow> used_e s' = used_e s \<and>
        (case r of Inl e \<Rightarrow> used_n s' = used_n s
         | Inr nid \<Rightarrow> nid \<notin> used_n s \<and> used_n s' = insert nid (used_n s))) \<and>
     (\<forall>a b l ps s r s'. s_create_edge_with_props api a b l ps s = (r, s') \<longrightarrow> used_n s' = used_n s \<and>
        (case r of Inl e \<Rightarrow> used_e s' = used_e s
         | Inr eid \<Rightarrow> eid \<notin> used_e s \<and> used_e s' = insert eid (used_e s))) \<and>
     (\<forall>a b l s eid s'. s_create_edge api a b l s = (eid, s') \<longrightarrow> used_n s' = used_n s \<and>
        (used_e s \<noteq> UNIV \<longrightarrow> eid \<notin> used_e s) \<and> used_e s' = insert eid (used_e s)) \<and>
     (\<forall>nid s. used_n (s_delete_node api nid s) = used_n s \<and> used_e (s_delete_node api nid s) = used_e s) \<and>
     (\<forall>eid s. used_n (s_delete_edge api eid s) = used_n s \<and> used_e (s_delete_edge api eid s) = used_e s)"

text \<open>Every id the maps mention was handed out by the database.\<close>

definition tx_ok :: "('s \<Rightarrow> node_id set) \<Rightarrow> ('s \<Rightarrow> edge_id set) \<Rightarrow> 's tx \<Rightarrow> bool" where
  "tx_ok used_n used_e t \<longleftrightarrow> maps_ok (snd t) \<and>
     (\<forall>i. node_inv (snd t) i \<noteq> None \<longrightarrow> i \<in> used_n (fst t)) \<and>
     (\<forall>i. edge_inv (snd t) i \<noteq> None \<longrightarrow> i \<in> used_e (fst t))"

section \<open>The maps stay bijective\<close>

lemma fresh_set_node:
  assumes "session_fresh api un ue"
  shows "un (snd (set_node_properties api nid ps s)) = un s \<and>
    ue (snd (set_node_properties api nid ps s)) = ue s"
proof (induction ps arbitrary: s)
  case (Cons p ps)
  obtain k v where p: "p = (k, v)" by (cases p)
  obtain r s' where c: "s_set_node_property api nid k (gval_to_grafeo_value v) s = (r, s')"
    by (cases "s_set_node_property api nid k (gval_to_grafeo_value v) s")
  then have "un s' = un s \<and> ue s' = ue s"
    using assms by (simp add: session_fresh_def)
  with Cons [of s'] p c show ?case by (cases r) simp_all
qed simp

lemma fresh_set_edge:
  assumes "session_fresh api un ue"
  shows "un (snd (set_edge_properties api eid ps s)) = un s \<and>
    ue (snd (set_edge_properties api eid ps s)) = ue s"
proof (induction ps arbitrary: s)
  case (Cons p ps)
  obtain k v where p: "p = (k, v)" by (cases p)
  obtain r s' where c: "s_set_edge_property api eid k (gval_to_grafeo_value v) s = (r, s')"
    by (cases "s_set_edge_property api eid k (gval_to_grafeo_value v) s")
  then have "un s' = un s \<and> ue s' = ue s"
    using assms by (simp add: session_fresh_def)
  with Cons [of s'] p c show ?case by (cases r) simp_all
qed simp

lemma fresh_create_node:
  assumes "session_fresh api un ue" and "s_create_node_with_props api ls ps s = (r, s')"
  shows "ue s' = ue s \<and> (case r of Inl e \<Rightarrow> un s' = un s
    | Inr nid \<Rightarrow> nid \<notin> un s \<and> un s' = insert nid (un s))"
  using assms by (simp add: session_fresh_def)

lemma fresh_create_edge_props:
  assumes "session_fresh api un ue" and "s_create_edge_with_props api a b l ps s = (r, s')"
  shows "un s' = un s \<and> (case r of Inl e \<Rightarrow> ue s' = ue s
    | Inr eid \<Rightarrow> eid \<notin> ue s \<and> ue s' = insert eid (ue s))"
  using assms by (simp add: session_fresh_def)

lemma fresh_create_edge:
  assumes "session_fresh api un ue" and "s_create_edge api a b l s = (eid, s')"
  shows "un s' = un s \<and> (ue s \<noteq> UNIV \<longrightarrow> eid \<notin> ue s) \<and> ue s' = insert eid (ue s)"
  using assms by (simp add: session_fresh_def)

lemma fresh_delete:
  assumes "session_fresh api un ue"
  shows "un (s_delete_node api nid s) = un s" "ue (s_delete_node api nid s) = ue s"
    "un (s_delete_edge api eid s) = un s" "ue (s_delete_edge api eid s) = ue s"
  using assms by (simp_all add: session_fresh_def)

text \<open>How the invariant moves: to a database that has handed out more ids, and over the four updates
  of the maps.\<close>

lemma tx_ok_same:
  assumes "tx_ok un ue (s, m)" and "un s' = un s" and "ue s' = ue s"
  shows "tx_ok un ue (s', m)"
  using assms by (simp add: tx_ok_def)

lemma tx_ok_insert_node:
  assumes "tx_ok un ue (s, m)" and "node_fwd m k = None" and "nid \<notin> un s"
    and "un s' = insert nid (un s)" and "ue s' = ue s"
  shows "tx_ok un ue (s', insert_node k nid m)"
proof -
  have "node_inv m nid = None"
    using assms(1,3) by (auto simp: tx_ok_def)
  then have "maps_ok (insert_node k nid m)"
    using assms(1,2) by (intro maps_ok_insert_node) (simp_all add: tx_ok_def)
  then show ?thesis
    using assms by (auto simp: tx_ok_def bridge_simps nodes.inv_bind)
qed

lemma tx_ok_insert_edge:
  assumes "tx_ok un ue (s, m)" and "edge_fwd m k = None" and "eid \<notin> ue s"
    and "un s' = un s" and "ue s' = insert eid (ue s)"
  shows "tx_ok un ue (s', insert_edge k eid m)"
proof -
  have "edge_inv m eid = None"
    using assms(1,3) unfolding tx_ok_def fst_conv snd_conv by blast
  then have "maps_ok (insert_edge k eid m)"
    using assms(1,2) by (intro maps_ok_insert_edge) (simp_all add: tx_ok_def)
  then show ?thesis
    using assms by (auto simp: tx_ok_def bridge_simps edges.inv_bind)
qed

lemma tx_ok_remove_node:
  assumes "tx_ok un ue (s, m)" and "un s' = un s" and "ue s' = ue s"
  shows "tx_ok un ue (s', snd (remove_node k m))"
  using assms by (auto simp: tx_ok_def bridge_simps nodes.inv_unbind maps_ok_remove_node)

lemma tx_ok_remove_edge:
  assumes "tx_ok un ue (s, m)" and "un s' = un s" and "ue s' = ue s"
  shows "tx_ok un ue (s', snd (remove_edge k m))"
  using assms by (auto simp: tx_ok_def bridge_simps edges.inv_unbind maps_ok_remove_edge)

lemma drop_edge_conv:
  "drop_edge api key (s, m) =
     (case edge_fwd m key of Some eid \<Rightarrow> s_delete_edge api eid s | None \<Rightarrow> s, snd (remove_edge key m))"
  by (auto simp: drop_edge_def edge_fwd_def remove_edge_def Let_def split: option.splits)

lemma delete_node_conv:
  "apply_loro_op api (DeleteNode k) (s, m) =
     (Inr (), case node_fwd m k of Some nid \<Rightarrow> s_delete_node api nid s | None \<Rightarrow> s, snd (remove_node k m))"
  by (auto simp: node_fwd_def remove_node_def Let_def split: option.splits)

lemma tx_ok_drop_edge:
  assumes "session_fresh api un ue" and "tx_ok un ue t"
  shows "tx_ok un ue (drop_edge api key t)"
  using assms by (cases t) (auto simp: drop_edge_conv fresh_delete split: option.splits
      intro: tx_ok_remove_edge)

lemma tx_ok_upsert_node:
  assumes fresh: "session_fresh api un ue" and ok: "tx_ok un ue (s, m)"
  shows "tx_ok un ue (snd (apply_upsert_node api k ls ps (s, m)))"
proof (cases "node_fwd m k")
  case None
  obtain r s' where c: "s_create_node_with_props api ls (props_iter ps) s = (r, s')"
    by fastforce
  with None ok fresh_create_node [OF fresh c] show ?thesis
    by (cases r) (auto simp: apply_upsert_node_def node_fwd_def intro: tx_ok_same tx_ok_insert_node)
next
  case (Some nid)
  with ok fresh_set_node [OF fresh, of nid ps s] show ?thesis
    by (auto simp: apply_upsert_node_def node_fwd_def intro: tx_ok_same split: prod.splits)
qed

lemma tx_ok_upsert_edge:
  assumes fresh: "session_fresh api un ue" and ok: "tx_ok un ue (s, m)"
  shows "tx_ok un ue (snd (apply_upsert_edge api a b l ps (s, m)))"
proof (cases "node_fwd m a = None \<or> node_fwd m b = None")
  case True
  with ok show ?thesis
    by (auto simp: apply_upsert_edge_def node_fwd_def split: option.splits)
next
  case False
  then obtain i j where ij: "node_fwd m a = Some i" "node_fwd m b = Some j"
    by auto
  show ?thesis
  proof (cases "edge_fwd m (a, b, l)")
    case None
    obtain r s' where c: "s_create_edge_with_props api i j l (props_iter ps) s = (r, s')"
      by fastforce
    with ij None ok fresh_create_edge_props [OF fresh c] show ?thesis
      by (cases r) (auto simp: apply_upsert_edge_def node_fwd_def edge_fwd_def
          intro: tx_ok_same tx_ok_insert_edge)
  next
    case (Some eid)
    with ij ok fresh_set_edge [OF fresh, of eid ps s] show ?thesis
      by (auto simp: apply_upsert_edge_def node_fwd_def edge_fwd_def intro: tx_ok_same
          split: prod.splits)
  qed
qed

lemma used_drop_edge:
  assumes "session_fresh api un ue"
  shows "un (fst (drop_edge api key t)) = un (fst t)" "ue (fst (drop_edge api key t)) = ue (fst t)"
  using assms by (cases t; simp add: drop_edge_conv fresh_delete split: option.splits)+

lemma tx_ok_tree_move:
  assumes fresh: "session_fresh api un ue" and ok: "tx_ok un ue (s, m)" and room: "ue s \<noteq> UNIV"
  shows "tx_ok un ue (snd (apply_tree_move api n old new (s, m)))"
proof -
  obtain s1 m1 where d: "drop_edge api (old, n, TREE_EDGE_LABEL) (s, m) = (s1, m1)"
    by fastforce
  have ok1: "tx_ok un ue (s1, m1)"
    using tx_ok_drop_edge [OF fresh ok, of "(old, n, TREE_EDGE_LABEL)"] d by simp
  have "ue s1 \<noteq> UNIV"
    using used_drop_edge(2) [OF fresh, of "(old, n, TREE_EDGE_LABEL)" "(s, m)"] room d by simp
  then have "tx_ok un ue (s2, insert_edge (new, n, TREE_EDGE_LABEL) eid m1)"
    if "s_create_edge api p nid TREE_EDGE_LABEL s1 = (eid, s2)"
      "edge_fwd m1 (new, n, TREE_EDGE_LABEL) = None" for p nid eid s2
    using fresh_create_edge [OF fresh that(1)] that(2) ok1 by (auto intro: tx_ok_insert_edge)
  with ok ok1 d show ?thesis
    by (auto simp: apply_tree_move_def Let_def edge_fwd_def split: option.splits prod.splits)
qed

lemma tx_ok_apply_loro_op:
  assumes "session_fresh api un ue" and "tx_ok un ue t" and "ue (fst t) \<noteq> UNIV"
  shows "tx_ok un ue (snd (apply_loro_op api op t))"
proof (cases t)
  case (Pair s m)
  with assms show ?thesis
    by (cases op) (auto simp: tx_ok_upsert_node tx_ok_upsert_edge tx_ok_tree_move tx_ok_drop_edge
        delete_node_conv fresh_delete simp del: apply_loro_op.simps(3)
        intro: tx_ok_remove_node split: option.splits)
qed

text \<open>An operation takes at most one edge id.\<close>

lemma used_edges_apply:
  assumes fresh: "session_fresh api un ue"
  shows "\<exists>eid. ue (fst (snd (apply_loro_op api op t))) \<subseteq> insert eid (ue (fst t))"
proof (cases t)
  case (Pair s m)
  show ?thesis
  proof (cases op)
    case (UpsertNode k ls ps)
    obtain r s' where c: "s_create_node_with_props api ls (props_iter ps) s = (r, s')"
      by fastforce
    have set: "ue s'' = ue s" if "set_node_properties api nid ps s = (q, s'')" for nid q s''
      using fresh_set_node [OF fresh, of nid ps s] that by simp
    show ?thesis
      using Pair UpsertNode c fresh_create_node [OF fresh c]
      by (cases r) (auto simp: apply_upsert_node_def set split: option.splits prod.splits)
  next
    case (UpsertEdge a b l ps)
    have set: "ue s'' = ue s" if "set_edge_properties api eid ps s = (q, s'')" for eid q s''
      using fresh_set_edge [OF fresh, of eid ps s] that by simp
    have "\<exists>eid. ue s' \<subseteq> insert eid (ue s)"
      if "s_create_edge_with_props api i j l (props_iter ps) s = (r, s')" for i j r s'
      using fresh_create_edge_props [OF fresh that] by (cases r) auto
    then show ?thesis
      using Pair UpsertEdge
      by (force simp: apply_upsert_edge_def set split: option.splits prod.splits sum.splits)
  next
    case (TreeMove n old new)
    obtain s1 m1 where d: "drop_edge api (old, n, TREE_EDGE_LABEL) (s, m) = (s1, m1)"
      by fastforce
    moreover have "ue s1 = ue s"
      using used_drop_edge(2) [OF fresh, of "(old, n, TREE_EDGE_LABEL)" "(s, m)"] d by simp
    ultimately show ?thesis
      using Pair TreeMove
      by (auto simp: apply_tree_move_def Let_def dest: fresh_create_edge [OF fresh]
          split: option.splits prod.splits)
  qed (use Pair fresh in \<open>auto simp: delete_node_conv used_drop_edge fresh_delete
      simp del: apply_loro_op.simps(3) split: option.splits\<close>)
qed

lemma card_used_edges_apply:
  assumes "session_fresh api un ue"
  shows "card (ue (fst (snd (apply_loro_op api op t)))) \<le> Suc (card (ue (fst t)))"
proof -
  obtain eid where "ue (fst (snd (apply_loro_op api op t))) \<subseteq> insert eid (ue (fst t))"
    using used_edges_apply [OF assms] by blast
  then have "card (ue (fst (snd (apply_loro_op api op t)))) \<le> card (insert eid (ue (fst t)))"
    by (intro card_mono) simp_all
  also have "\<dots> \<le> Suc (card (ue (fst t)))"
    by (simp add: card_insert_if)
  finally show ?thesis .
qed

lemma edge_room: "card (E :: edge_id set) < 2 ^ 64 \<Longrightarrow> E \<noteq> UNIV"
  by (auto simp: card_word)

lemma tx_ok_apply_loro_ops:
  assumes "session_fresh api un ue" and "tx_ok un ue t" and "card (ue (fst t)) + length ops \<le> 2 ^ 64"
  shows "tx_ok un ue (snd (apply_loro_ops api ops t))"
  using assms
proof (induction ops arbitrary: t)
  case (Cons op ops)
  have "ue (fst t) \<noteq> UNIV"
    using Cons.prems(3) by (intro edge_room) simp
  then have "tx_ok un ue (snd (apply_loro_op api op t))"
    using Cons.prems by (simp add: tx_ok_apply_loro_op)
  moreover have "card (ue (fst (snd (apply_loro_op api op t)))) + length ops \<le> 2 ^ 64"
    using card_used_edges_apply [OF assms(1), of op t] Cons.prems(3) by simp
  ultimately show ?case
    using Cons.IH [of "snd (apply_loro_op api op t)"] assms(1)
    by (auto split: prod.splits sum.splits)
qed simp

section \<open>Abstract specification\<close>

text \<open>Seen from the Loro side the translator keeps a set of vertex keys and a set of edge keys.
  \<open>spec_op\<close> is what each operation does to them; \<open>None\<close> is the one refusal of the bridge itself, an
  edge with an unknown endpoint.\<close>

type_synonym key_graph = "string set \<times> edge_key set"

fun spec_op :: "loro_op \<Rightarrow> key_graph \<Rightarrow> key_graph option" where
  "spec_op (UpsertNode k ls ps) (N, E) = Some (insert k N, E)"
| "spec_op (UpsertEdge a b l ps) (N, E) = (if a \<in> N \<and> b \<in> N then Some (N, insert (a, b, l) E) else None)"
| "spec_op (DeleteNode k) (N, E) = Some (N - {k}, E)"
| "spec_op (DeleteEdge a b l) (N, E) = Some (N, E - {(a, b, l)})"
| "spec_op (TreeMove n old new) (N, E) =
     (if n \<in> N \<and> new \<in> N
      then Some (N, insert (new, n, TREE_EDGE_LABEL) (E - {(old, n, TREE_EDGE_LABEL)}))
      else Some (N, E))"

definition key_graph_of :: "bridge_maps \<Rightarrow> key_graph" where
  "key_graph_of m = (dom (node_fwd m), dom (edge_fwd m))"

fun spec_ops :: "loro_op list \<Rightarrow> key_graph \<Rightarrow> key_graph option" where
  "spec_ops [] g = Some g"
| "spec_ops (op # ops) g = (case spec_op op g of None \<Rightarrow> None | Some g \<Rightarrow> spec_ops ops g)"

lemma dom_insert_node: "dom (node_fwd (insert_node k i m)) = insert k (dom (node_fwd m))"
  by (auto simp: nodes.fwd_bind)

lemma dom_insert_edge: "dom (edge_fwd (insert_edge k i m)) = insert k (dom (edge_fwd m))"
  by (auto simp: edges.fwd_bind split: if_splits)

lemma dom_remove_node: "dom (node_fwd (snd (remove_node k m))) = dom (node_fwd m) - {k}"
  by (auto simp: nodes.fwd_unbind split: if_splits)

lemma dom_remove_edge: "dom (edge_fwd (snd (remove_edge k m))) = dom (edge_fwd m) - {k}"
  by (auto simp: edges.fwd_unbind split: if_splits)

lemmas key_graph_simps = key_graph_of_def dom_insert_node dom_insert_edge dom_remove_node
  dom_remove_edge bridge_simps

lemma node_map_dom: "hm_get (node_id_map m) k = None \<longleftrightarrow> k \<notin> dom (node_fwd m)"
  by (auto simp: node_fwd_def)

lemma edge_map_dom: "hm_get (edge_id_map m) k = None \<longleftrightarrow> k \<notin> dom (edge_fwd m)"
  by (auto simp: edge_fwd_def)

lemma upsert_node_refines:
  assumes "apply_upsert_node api k ls ps (s, m) = (Inr (), (s', m'))"
  shows "key_graph_of m' = (insert k (dom (node_fwd m)), dom (edge_fwd m))"
  using assms node_map_dom [of m k]
  by (auto simp: apply_upsert_node_def key_graph_simps nodes.fwd_bind edges.fwd_bind insert_absorb
      split: option.splits prod.splits sum.splits if_splits)

lemma upsert_edge_refines:
  assumes "apply_upsert_edge api a b l ps (s, m) = (Inr (), (s', m'))"
  shows "a \<in> dom (node_fwd m) \<and> b \<in> dom (node_fwd m) \<and>
    key_graph_of m' = (dom (node_fwd m), insert (a, b, l) (dom (edge_fwd m)))"
  using assms node_map_dom [of m a] node_map_dom [of m b] edge_map_dom [of m "(a, b, l)"]
  by (auto simp: apply_upsert_edge_def key_graph_simps nodes.fwd_bind edges.fwd_bind insert_absorb
      split: option.splits prod.splits sum.splits if_splits)

lemma tree_move_refines:
  assumes "apply_tree_move api n old new (s, m) = (r, (s', m'))"
  shows "r = Inr () \<and> key_graph_of m' =
    (if n \<in> dom (node_fwd m) \<and> new \<in> dom (node_fwd m)
     then (dom (node_fwd m), insert (new, n, TREE_EDGE_LABEL)
            (dom (edge_fwd m) - {(old, n, TREE_EDGE_LABEL)}))
     else (dom (node_fwd m), dom (edge_fwd m)))"
proof -
  let ?m = "snd (remove_edge (old, n, TREE_EDGE_LABEL) m)"
  let ?k = "(new, n, TREE_EDGE_LABEL)"
  show ?thesis
  proof (cases "n \<in> dom (node_fwd m) \<and> new \<in> dom (node_fwd m)")
    case True
    then have r: "r = Inr ()" and new: "edge_fwd ?m ?k = None \<Longrightarrow> \<exists>eid. m' = insert_edge ?k eid ?m"
      and old: "edge_fwd ?m ?k \<noteq> None \<Longrightarrow> m' = ?m"
      using assms by (auto simp: apply_tree_move_def drop_edge_conv Let_def node_fwd_def edge_fwd_def
          split: prod.splits if_splits)
    have "key_graph_of m' = (dom (node_fwd m), insert ?k (dom (edge_fwd m) - {(old, n, TREE_EDGE_LABEL)}))"
    proof (cases "edge_fwd ?m ?k = None")
      case True
      with new obtain eid where "m' = insert_edge ?k eid ?m" by blast
      then show ?thesis by (simp only: key_graph_simps)
    next
      case False
      then have "?k \<in> dom (edge_fwd ?m)" by blast
      then have "?k \<in> dom (edge_fwd m) - {(old, n, TREE_EDGE_LABEL)}"
        unfolding dom_remove_edge .
      with old [OF False] show ?thesis
        by (simp only: key_graph_simps insert_absorb)
    qed
    with r True show ?thesis by simp
  next
    case False
    then show ?thesis
      using assms by (auto simp: apply_tree_move_def node_fwd_def key_graph_of_def split: option.splits)
  qed
qed

lemma apply_loro_op_refines:
  assumes "apply_loro_op api op (s, m) = (Inr (), (s', m'))"
  shows "spec_op op (key_graph_of m) = Some (key_graph_of m')"
proof (cases op)
  case (UpsertNode k ls ps)
  with assms upsert_node_refines [of api k ls ps s m] show ?thesis
    by (simp add: key_graph_of_def)
next
  case (UpsertEdge a b l ps)
  with assms upsert_edge_refines [of api a b l ps s m] show ?thesis
    by (simp add: key_graph_of_def)
next
  case (TreeMove n old new)
  with assms tree_move_refines [of api n old new s m] show ?thesis
    by (simp add: key_graph_of_def)
next
  case (DeleteNode k)
  with assms have "m' = snd (remove_node k m)"
    by (simp add: delete_node_conv del: apply_loro_op.simps(3))
  with DeleteNode show ?thesis
    by (simp add: key_graph_simps)
next
  case (DeleteEdge a b l)
  with assms have "m' = snd (remove_edge (a, b, l) m)"
    by (simp add: drop_edge_conv)
  with DeleteEdge show ?thesis
    by (simp add: key_graph_simps)
qed

lemma apply_loro_ops_refines:
  assumes "apply_loro_ops api ops (s, m) = (Inr (), (s', m'))"
  shows "spec_ops ops (key_graph_of m) = Some (key_graph_of m')"
  using assms
proof (induction ops arbitrary: s m)
  case (Cons op ops)
  obtain r s1 m1 where r: "apply_loro_op api op (s, m) = (r, (s1, m1))"
    by (cases "apply_loro_op api op (s, m)") auto
  with Cons.prems have "r = Inr ()" "apply_loro_ops api ops (s1, m1) = (Inr (), (s', m'))"
    by (auto split: sum.splits)
  with r show ?case
    using apply_loro_op_refines [of api op s m s1 m1] Cons.IH by simp
qed simp

lemma apply_loro_op_bridge_error:
  assumes "apply_loro_op api op (s, m) = (Inl (Bridge w), t)"
  shows "\<exists>a b l ps. op = UpsertEdge a b l ps \<and> spec_op op (key_graph_of m) = None \<and> t = (s, m)"
proof -
  have set: "fst (set_node_properties api nid ps s) \<noteq> Inl (Bridge w)"
    "fst (set_edge_properties api nid ps s) \<noteq> Inl (Bridge w)" for nid ps s
    by (induction ps arbitrary: s) (auto split: prod.splits sum.splits)
  show ?thesis
  proof (cases op)
    case (UpsertNode k ls ps)
    have "set_node_properties api nid ps s \<noteq> (Inl (Bridge w), s')" for nid s'
      using set(1) [of nid ps s] by auto
    with assms UpsertNode show ?thesis
      by (auto simp: apply_upsert_node_def split: option.splits prod.splits sum.splits)
  next
    case (UpsertEdge a b l ps)
    have "set_edge_properties api eid ps s \<noteq> (Inl (Bridge w), s')" for eid s'
      using set(2) [of eid ps s] by auto
    with assms UpsertEdge show ?thesis
      by (auto simp: apply_upsert_edge_def key_graph_of_def node_map_dom [symmetric]
          split: option.splits prod.splits sum.splits)
  next
    case (TreeMove n old new)
    then show ?thesis
      using assms tree_move_refines [of api n old new s m] by (cases t) fastforce
  qed (use assms in \<open>auto simp: delete_node_conv simp del: apply_loro_op.simps(3)
      split: option.splits\<close>)
qed

section \<open>A concrete session\<close>

text \<open>Two counters hand out the ids; the other calls do nothing. It satisfies \<open>session_fresh\<close> and is
  the database of the witnesses.\<close>

definition counter_session :: "(nat \<times> nat) session_api" where
  "counter_session = \<lparr>
     s_set_node_property = (\<lambda>nid k v s. (Inr (), s)),
     s_set_edge_property = (\<lambda>eid k v s. (Inr (), s)),
     s_create_node_with_props = (\<lambda>ls ps (n, e).
       if n < 2 ^ 64 then (Inr (of_nat n), (Suc n, e)) else (Inl ''id space exhausted'', (n, e))),
     s_create_edge_with_props = (\<lambda>a b l ps (n, e).
       if e < 2 ^ 64 then (Inr (of_nat e), (n, Suc e)) else (Inl ''id space exhausted'', (n, e))),
     s_create_edge = (\<lambda>a b l (n, e). (of_nat e, (n, Suc e))),
     s_delete_node = (\<lambda>nid s. s),
     s_delete_edge = (\<lambda>eid s. s)\<rparr>"

definition counted :: "nat \<Rightarrow> u64 set" where
  "counted n = of_nat ` {..<n}"

lemma counted_Suc: "counted (Suc n) = insert (of_nat n) (counted n)"
  by (simp add: counted_def lessThan_Suc)

lemma counted_fresh: "n < 2 ^ 64 \<Longrightarrow> of_nat n \<notin> counted n"
  by (auto simp: counted_def word_unat_eq_iff unsigned_of_nat take_bit_nat_eq_self)

lemma counted_full:
  assumes "2 ^ 64 \<le> n"
  shows "counted n = UNIV"
proof -
  have "unat w < n" for w :: u64
  proof -
    have "unat w < 2 ^ LENGTH(64)" by (rule unsigned_less)
    with assms show ?thesis by simp
  qed
  then have "w \<in> counted n" for w :: u64
    by (auto simp: counted_def intro!: image_eqI [of _ _ "unat w"])
  then show ?thesis by blast
qed

lemma counter_session_fresh:
  "session_fresh counter_session (\<lambda>s. counted (fst s)) (\<lambda>s. counted (snd s))"
proof -
  have "of_nat e \<notin> counted e" if "counted e \<noteq> UNIV" for e
    using that counted_full [of e] counted_fresh [of e] by fastforce
  then show ?thesis
    by (auto simp: session_fresh_def counter_session_def counted_Suc counted_fresh split: if_splits)
qed

section \<open>Properties\<close>

text \<open>Property C2 (apply_loro_ops_keep_bijection). Over a database that never hands out an id twice,
  applying any batch of operations keeps the node tables and the edge tables of the bridge
  bijective, whether the batch succeeds or stops at an error; in particular the runtime check of
  invariant I11 passes afterwards.\<close>

theorem apply_loro_ops_keep_bijection:
  assumes "session_fresh api used_n used_e" and "tx_ok used_n used_e t"
    and "card (used_e (fst t)) + length ops \<le> 2 ^ 64"
  shows "tx_ok used_n used_e (snd (apply_loro_ops api ops t)) \<and>
    validate_text_bijection (snd (snd (apply_loro_ops api ops t))) = Inr ()"
  using tx_ok_apply_loro_ops [OF assms] maps_ok_validates by (auto simp: tx_ok_def)

theorem apply_loro_ops_keep_bijection_witness:
  "validate_text_bijection (snd (snd (apply_loro_ops counter_session
     [UpsertNode ''a'' [] [], UpsertNode ''b'' [] [], TreeMove ''a'' ''r'' ''b'', DeleteNode ''b'']
     ((0, 0), maps_new)))) = Inr ()"
proof -
  have "tx_ok (\<lambda>s. counted (fst s)) (\<lambda>s. counted (snd s)) ((0, 0), maps_new)"
    using maps_ok_new by (simp add: tx_ok_def) (simp add: table_defs maps_new_def)
  from apply_loro_ops_keep_bijection [OF counter_session_fresh this, of
      "[UpsertNode ''a'' [] [], UpsertNode ''b'' [] [], TreeMove ''a'' ''r'' ''b'', DeleteNode ''b'']"]
  show ?thesis by (simp add: counted_def)
qed

text \<open>Property C5 (apply_loro_ops_refine_key_graph). The translator implements the abstract key graph: a
  batch that succeeds takes the key sets of the maps to the result of the abstract operations, and
  the bridge's own refusal of an operation is exactly an edge with an unknown endpoint, which leaves
  database and maps unchanged.\<close>

theorem apply_loro_ops_refine_key_graph:
  "(apply_loro_ops api ops (s, m) = (Inr (), (s', m')) \<longrightarrow>
      spec_ops ops (key_graph_of m) = Some (key_graph_of m')) \<and>
   (apply_loro_op api op (s, m) = (Inl (Bridge w), t) \<longrightarrow>
      spec_op op (key_graph_of m) = None \<and> t = (s, m)) \<and>
   (spec_op op (key_graph_of m) = None \<longrightarrow>
      (\<exists>w. apply_loro_op api op (s, m) = (Inl (Bridge w), (s, m))))"
proof (intro conjI impI)
  assume "spec_op op (key_graph_of m) = None"
  then obtain a b l ps where "op = UpsertEdge a b l ps"
    "\<not> (a \<in> dom (node_fwd m) \<and> b \<in> dom (node_fwd m))"
    by (cases op) (auto simp: key_graph_of_def split: if_splits)
  then show "\<exists>w. apply_loro_op api op (s, m) = (Inl (Bridge w), (s, m))"
    using node_map_dom [of m a] node_map_dom [of m b]
    by (auto simp: apply_upsert_edge_def unknown_node_keys_def split: option.splits)
next
  assume "apply_loro_ops api ops (s, m) = (Inr (), (s', m'))"
  then show "spec_ops ops (key_graph_of m) = Some (key_graph_of m')"
    by (rule apply_loro_ops_refines)
next
  assume "apply_loro_op api op (s, m) = (Inl (Bridge w), t)"
  from apply_loro_op_bridge_error [OF this]
  show "spec_op op (key_graph_of m) = None" and "t = (s, m)" by blast+
qed

theorem apply_loro_ops_refine_key_graph_witness:
  "\<exists>s' m'. apply_loro_ops counter_session [UpsertNode ''a'' [] [], UpsertEdge ''a'' ''a'' ''L'' []]
     ((0, 0), maps_new) = (Inr (), (s', m')) \<and>
     spec_ops [UpsertNode ''a'' [] [], UpsertEdge ''a'' ''a'' ''L'' []] (key_graph_of maps_new) =
       Some (key_graph_of m')"
proof -
  obtain s' m' where r: "apply_loro_ops counter_session [UpsertNode ''a'' [] [], UpsertEdge ''a'' ''a'' ''L'' []]
     ((0, 0), maps_new) = (Inr (), (s', m'))"
    by (simp add: counter_session_def apply_upsert_node_def apply_upsert_edge_def maps_new_def
        maps_op_defs)
  from r apply_loro_ops_refine_key_graph [THEN conjunct1, THEN mp, OF r] show ?thesis by blast
qed

text \<open>Delete operations are idempotent: deleting the same vertex or
  edge key a second time succeeds and leaves the database and the maps as they are.\<close>

theorem deletes_are_idempotent:
  "apply_loro_op api (DeleteNode k) (snd (apply_loro_op api (DeleteNode k) t)) =
     (Inr (), snd (apply_loro_op api (DeleteNode k) t)) \<and>
   apply_loro_op api (DeleteEdge a b l) (snd (apply_loro_op api (DeleteEdge a b l) t)) =
     (Inr (), snd (apply_loro_op api (DeleteEdge a b l) t))"
proof -
  obtain s m where t: "t = (s, m)" by (cases t)
  have "remove_node k (snd (remove_node k m)) = (None, snd (remove_node k m))"
    by (auto simp: remove_node_def Let_def split: option.splits)
  moreover have "remove_edge e (snd (remove_edge e m)) = (None, snd (remove_edge e m))" for e
    by (auto simp: remove_edge_def Let_def split: option.splits)
  ultimately show ?thesis
    by (auto simp: t delete_node_conv drop_edge_conv nodes.fwd_unbind edges.fwd_unbind
        simp del: apply_loro_op.simps(3))
qed

text \<open>Deleting a vertex leaves the bindings of its edges in
  the maps. When the vertex is created again and the edge is upserted again, the stale binding is
  found, so no edge is created in the database: the upsert writes properties to the edge id of
  before the delete, and without properties it does not touch the database at all.\<close>

theorem delete_node_leaves_edge_bindings:
  assumes "edge_fwd m (a, b, l) = Some eid" and "a \<noteq> b" and "node_fwd m b = Some j"
    and "apply_loro_op api (DeleteNode a) (s, m) = (r, (s1, m1))"
    and "apply_loro_op api (UpsertNode a ls ps) (s1, m1) = (Inr (), (s2, m2))"
  shows "edge_fwd m1 (a, b, l) = Some eid \<and> edge_fwd m2 (a, b, l) = Some eid \<and>
    apply_loro_op api (UpsertEdge a b l []) (s2, m2) = (Inr (), (s2, m2))"
proof -
  have m1: "m1 = snd (remove_node a m)"
    using assms(4) by (simp add: delete_node_conv del: apply_loro_op.simps(3))
  then have e1: "edge_fwd m1 (a, b, l) = Some eid" and n1: "node_fwd m1 a = None" "node_fwd m1 b = Some j"
    using assms(1-3) by (simp_all add: bridge_simps nodes.fwd_unbind)
  then obtain i where m2: "m2 = insert_node a i m1"
    using assms(5) by (auto simp: apply_upsert_node_def node_fwd_def split: prod.splits sum.splits)
  then have "node_fwd m2 a = Some i" "node_fwd m2 b = Some j" "edge_fwd m2 (a, b, l) = Some eid"
    using e1 n1 assms(2) by (simp_all add: bridge_simps nodes.fwd_bind)
  with e1 show ?thesis
    by (simp add: apply_upsert_edge_def node_fwd_def edge_fwd_def)
qed

theorem delete_node_leaves_edge_bindings_witness:
  "let m = insert_edge (''a'', ''b'', ''L'') 0 (insert_node ''b'' 1 (insert_node ''a'' 0 maps_new));
       t2 = snd (apply_loro_ops counter_session [DeleteNode ''a'', UpsertNode ''a'' [] []] ((2, 5), m))
   in node_fwd (snd t2) ''a'' = Some 2 \<and> edge_fwd (snd t2) (''a'', ''b'', ''L'') = Some 0 \<and>
      apply_loro_op counter_session (UpsertEdge ''a'' ''b'' ''L'' []) t2 = (Inr (), t2)"
proof -
  let ?m = "insert_edge (''a'', ''b'', ''L'') 0 (insert_node ''b'' 1 (insert_node ''a'' 0 maps_new))"
  let ?m1 = "snd (remove_node ''a'' ?m)"
  have 1: "edge_fwd ?m (''a'', ''b'', ''L'') = Some 0" "node_fwd ?m ''b'' = Some 1"
    by (simp_all add: bridge_simps edges.fwd_bind nodes.fwd_bind)
  have 2: "apply_loro_op counter_session (DeleteNode ''a'') ((2, 5), ?m) = (Inr (), ((2, 5), ?m1))"
    by (auto simp: delete_node_conv counter_session_def split: option.splits
        simp del: apply_loro_op.simps(3))
  have "node_fwd ?m1 ''a'' = None"
    by (simp add: nodes.fwd_unbind)
  then have 3: "apply_loro_op counter_session (UpsertNode ''a'' [] []) ((2, 5), ?m1) =
      (Inr (), ((3, 5), insert_node ''a'' 2 ?m1))"
    by (simp add: apply_upsert_node_def node_fwd_def counter_session_def)
  show ?thesis
    using delete_node_leaves_edge_bindings [OF 1(1) _ 1(2) 2 3]
    by (simp add: Let_def 2 3 nodes.fwd_bind del: apply_loro_op.simps)
qed

end
