(* ===== verification/Batcher.thy ===== *)
theory Batcher
  imports Grafeo_Tx
begin

text \<open>
  The inbound mutation batcher of \<^verbatim>\<open>src/bridge/batcher.rs\<close>. The \<^verbatim>\<open>tokio::select!\<close> loop of \<^verbatim>\<open>run\<close> is a
  function over the sequence of events it reacts to (an operation received, a tick, the shutdown
  signal); the scheduler's choice of the next event is the order of that sequence. Each event that
  may flush carries the outcome of the blocking task as the runtime reports it: finished, panicked
  after some operations, or still running when the timeout elapsed. A task that outlives its timeout
  goes on in the background and is kept in \<open>bt_orphans\<close> until \<open>orphan_completes\<close> runs it.

  The grafeo transaction calls are parameters, as the session is: \<open>d_drop_session\<close> is what dropping a
  session with an uncommitted transaction does to the database.
\<close>

section \<open>State\<close>

record 's db_api =
  d_session :: "'s session_api"
  d_begin_transaction :: "'s \<Rightarrow> (string + unit) \<times> 's"
  d_prepare_commit :: "'s \<Rightarrow> (string + unit) \<times> 's"
  d_commit :: "'s \<Rightarrow> (string + epoch_id) \<times> 's"
  d_drop_session :: "'s \<Rightarrow> 's"

record 's batcher =
  bt_db :: 's
  bt_maps :: bridge_maps
  bt_buffer :: "loro_op list"
  bt_batch_size :: nat
  bt_batch_ms :: u64
  bt_epochs :: "epoch_id set"
  bt_metrics :: "nat list option"
  bt_health :: "nat option"
  bt_orphans :: "loro_op list list"

definition batcher_new ::
  "'s \<Rightarrow> bridge_maps \<Rightarrow> nat \<Rightarrow> u64 \<Rightarrow> epoch_id set \<Rightarrow> nat list option \<Rightarrow> nat option \<Rightarrow> 's batcher" where
  "batcher_new db maps batch_size batch_ms epochs metrics health =
     \<lparr>bt_db = db, bt_maps = maps, bt_buffer = [], bt_batch_size = batch_size, bt_batch_ms = batch_ms,
      bt_epochs = epochs, bt_metrics = metrics, bt_health = health, bt_orphans = []\<rparr>"

definition batcher_with_defaults ::
  "'s \<Rightarrow> bridge_maps \<Rightarrow> epoch_id set \<Rightarrow> nat list option \<Rightarrow> nat option \<Rightarrow> 's batcher" where
  "batcher_with_defaults db maps epochs metrics health =
     batcher_new db maps (unat DEFAULT_BATCH_SIZE) DEFAULT_BATCH_MS epochs metrics health"

section \<open>Flushing\<close>

datatype task_outcome = Finished | Panicked nat | TimedOut

text \<open>The body of the blocking task: one transaction over the whole batch. Every early return drops the
  session.\<close>

definition flush_tx ::
  "'s db_api \<Rightarrow> loro_op list \<Rightarrow> 's \<times> bridge_maps \<times> epoch_id set \<Rightarrow>
     unit result \<times> 's \<times> bridge_maps \<times> epoch_id set" where
  "flush_tx api ops = (\<lambda>(s, maps, epochs).
     case d_begin_transaction api s of
       (Inl e, s) \<Rightarrow> (Inl (Grafeo e), d_drop_session api s, maps, epochs)
     | (Inr _, s) \<Rightarrow>
     (case apply_loro_ops (d_session api) ops (s, maps) of
       (Inl e, (s, maps)) \<Rightarrow> (Inl e, d_drop_session api s, maps, epochs)
     | (Inr _, (s, maps)) \<Rightarrow>
     (case d_prepare_commit api s of
       (Inl e, s) \<Rightarrow> (Inl (Grafeo e), d_drop_session api s, maps, epochs)
     | (Inr _, s) \<Rightarrow>
     (case d_commit api s of
       (Inl e, s) \<Rightarrow> (Inl (Grafeo e), d_drop_session api s, maps, epochs)
     | (Inr epoch, s) \<Rightarrow> (Inr (), s, maps, insert epoch epochs)))))"

text \<open>A task that panics after \<open>n\<close> operations: the unwinding drops the session, the writes to the maps
  stay.\<close>

definition flush_tx_panics ::
  "'s db_api \<Rightarrow> nat \<Rightarrow> loro_op list \<Rightarrow> 's \<times> bridge_maps \<times> epoch_id set \<Rightarrow>
     's \<times> bridge_maps \<times> epoch_id set" where
  "flush_tx_panics api n ops = (\<lambda>(s, maps, epochs).
     case d_begin_transaction api s of
       (_, s) \<Rightarrow> (case apply_loro_ops (d_session api) (take n ops) (s, maps) of
         (_, (s, maps)) \<Rightarrow> (d_drop_session api s, maps, epochs)))"

definition bt_shared :: "'s batcher \<Rightarrow> 's \<times> bridge_maps \<times> epoch_id set" where
  "bt_shared b = (bt_db b, bt_maps b, bt_epochs b)"

definition bt_set_shared :: "'s \<times> bridge_maps \<times> epoch_id set \<Rightarrow> 's batcher \<Rightarrow> 's batcher" where
  "bt_set_shared x b = b\<lparr>bt_db := fst x, bt_maps := fst (snd x), bt_epochs := snd (snd x)\<rparr>"

definition record_flush :: "nat \<Rightarrow> 's batcher \<Rightarrow> 's batcher" where
  "record_flush op_count b =
     b\<lparr>bt_metrics := map_option (\<lambda>log. log @ [op_count]) (bt_metrics b),
       bt_health := map_option Suc (bt_health b)\<rparr>"

definition flush_panicked :: grafeo_loro_error where
  "flush_panicked = Bridge (Msg ''inbound flush blocking task panicked: {join_err}'' [A_Dbg])"

definition flush_timeout :: grafeo_loro_error where
  "flush_timeout = Bridge (Msg ''inbound flush timeout after {:?}'' [A_Dbg])"

definition flush_inner ::
  "'s db_api \<Rightarrow> task_outcome \<Rightarrow> loro_op list \<Rightarrow> 's batcher \<Rightarrow> unit result \<times> 's batcher" where
  "flush_inner api outcome ops b = (case outcome of
     Finished \<Rightarrow> (case flush_tx api ops (bt_shared b) of (r, x) \<Rightarrow>
       (case r of
          Inr _ \<Rightarrow> (Inr (), record_flush (length ops) (bt_set_shared x b))
        | Inl e \<Rightarrow> (Inl e, bt_set_shared x b)))
   | Panicked n \<Rightarrow> (Inl flush_panicked, bt_set_shared (flush_tx_panics api n ops (bt_shared b)) b)
   | TimedOut \<Rightarrow> (Inl flush_timeout, b\<lparr>bt_orphans := bt_orphans b @ [ops]\<rparr>))"

text \<open>A background task reaches its end: its effects happen, nobody reads its result.\<close>

definition orphan_completes :: "'s db_api \<Rightarrow> 's batcher \<Rightarrow> 's batcher" where
  "orphan_completes api b = (case bt_orphans b of
     [] \<Rightarrow> b
   | ops # rest \<Rightarrow> bt_set_shared (snd (flush_tx api ops (bt_shared b))) (b\<lparr>bt_orphans := rest\<rparr>))"

definition flush :: "'s db_api \<Rightarrow> task_outcome \<Rightarrow> 's batcher \<Rightarrow> unit result \<times> 's batcher" where
  "flush api outcome b =
     (let drained = bt_buffer b; b = b\<lparr>bt_buffer := []\<rparr>
      in if drained = [] then (Inr (), b) else flush_inner api outcome drained b)"

section \<open>The loop\<close>

datatype batcher_event = Recv loro_op task_outcome | Tick task_outcome | Shutdown task_outcome

text \<open>One iteration: \<open>None\<close> goes round the loop, \<open>Some r\<close> leaves \<^verbatim>\<open>run\<close> with \<open>r\<close>.\<close>

definition continue_or_leave :: "unit result \<times> 's batcher \<Rightarrow> unit result option \<times> 's batcher" where
  "continue_or_leave x = (case x of (Inr _, b) \<Rightarrow> (None, b) | (Inl e, b) \<Rightarrow> (Some (Inl e), b))"

fun batcher_step ::
  "'s db_api \<Rightarrow> batcher_event \<Rightarrow> 's batcher \<Rightarrow> unit result option \<times> 's batcher" where
  "batcher_step api (Shutdown outcome) b =
     (let drained = bt_buffer b; b = b\<lparr>bt_buffer := []\<rparr>
      in if drained \<noteq> []
         then (case flush_inner api outcome drained b of (r, b) \<Rightarrow> (Some r, b))
         else (Some (Inr ()), b))"
| "batcher_step api (Recv op outcome) b =
     (let b = b\<lparr>bt_buffer := bt_buffer b @ [op]\<rparr>
      in if length (bt_buffer b) < bt_batch_size b then (None, b)
         else continue_or_leave (flush api outcome b))"
| "batcher_step api (Tick outcome) b = continue_or_leave (flush api outcome b)"

fun batcher_run ::
  "'s db_api \<Rightarrow> batcher_event list \<Rightarrow> 's batcher \<Rightarrow> unit result option \<times> 's batcher" where
  "batcher_run api [] b = (None, b)"
| "batcher_run api (ev # evs) b = (case batcher_step api ev b of
     (None, b) \<Rightarrow> batcher_run api evs b
   | (Some r, b) \<Rightarrow> (Some r, b))"


section \<open>Lemmas\<close>


lemma set_shared_simps [simp]:
  "bt_buffer (bt_set_shared x b) = bt_buffer b" "bt_batch_size (bt_set_shared x b) = bt_batch_size b"
  "bt_maps (bt_set_shared x b) = fst (snd x)" "bt_epochs (bt_set_shared x b) = snd (snd x)"
  "bt_db (bt_set_shared x b) = fst x" "bt_orphans (bt_set_shared x b) = bt_orphans b"
  by (simp_all add: bt_set_shared_def)

lemma record_flush_simps [simp]:
  "bt_buffer (record_flush n b) = bt_buffer b" "bt_batch_size (record_flush n b) = bt_batch_size b"
  "bt_maps (record_flush n b) = bt_maps b" "bt_epochs (record_flush n b) = bt_epochs b"
  "bt_db (record_flush n b) = bt_db b" "bt_orphans (record_flush n b) = bt_orphans b"
  by (simp_all add: record_flush_def)

text \<open>What applying a batch means: every operation of it is applied, one after the other, in one transaction that is
  prepared and committed, and its epoch is recorded. \<open>batches_tx\<close> is a sequence of such transactions.\<close>

fun each_applied :: "'s session_api \<Rightarrow> loro_op list \<Rightarrow> 's tx \<Rightarrow> 's tx \<Rightarrow> bool" where
  "each_applied api [] t t' \<longleftrightarrow> t' = t"
| "each_applied api (op # ops) t t' \<longleftrightarrow>
     (\<exists>t1. apply_loro_op api op t = (Inr (), t1) \<and> each_applied api ops t1 t')"

definition batch_tx ::
  "'s db_api \<Rightarrow> loro_op list \<Rightarrow> 's \<times> bridge_maps \<times> epoch_id set \<Rightarrow> 's \<times> bridge_maps \<times> epoch_id set \<Rightarrow> bool" where
  "batch_tx api ops = (\<lambda>(s, m, es) (s', m', es'). \<exists>s1 s2 s3 epoch.
     d_begin_transaction api s = (Inr (), s1) \<and> each_applied (d_session api) ops (s1, m) (s2, m') \<and>
     d_prepare_commit api s2 = (Inr (), s3) \<and> d_commit api s3 = (Inr epoch, s') \<and> es' = insert epoch es)"

fun batches_tx ::
  "'s db_api \<Rightarrow> loro_op list list \<Rightarrow> 's \<times> bridge_maps \<times> epoch_id set \<Rightarrow> 's \<times> bridge_maps \<times> epoch_id set \<Rightarrow> bool" where
  "batches_tx api [] x y \<longleftrightarrow> y = x"
| "batches_tx api (ops # rest) x y \<longleftrightarrow> (\<exists>z. batch_tx api ops x z \<and> batches_tx api rest z y)"


lemma each_applied_iff: "each_applied api ops t t' \<longleftrightarrow> apply_loro_ops api ops t = (Inr (), t')"
  by (induction ops arbitrary: t) (auto split: prod.splits sum.splits)





lemma batches_tx_one [simp]: "batches_tx api [ops] x y \<longleftrightarrow> batch_tx api ops x y"
  by (simp del: split_paired_Ex)

declare batches_tx.simps(2) [simp del]


lemma shared_simps [simp]:
  "bt_shared (b\<lparr>bt_buffer := xs\<rparr>) = bt_shared b" "bt_shared (bt_set_shared x b) = x"
  "bt_shared (record_flush n b) = bt_shared b" "fst (snd (bt_shared b)) = bt_maps b" "snd (snd (bt_shared b)) = bt_epochs b"
  by (simp_all add: bt_shared_def bt_set_shared_def record_flush_def)





text \<open>A run of the loop: the operations received so far are those committed, in batches no longer than the
  threshold, followed by those buffered, and the buffer is below the threshold.\<close>

definition batches_fit :: "nat \<Rightarrow> loro_op list list \<Rightarrow> bool" where
  "batches_fit n batches \<longleftrightarrow> list_all (\<lambda>ops. ops \<noteq> [] \<and> length ops \<le> max 1 n) batches"

lemma batches_fit_simps [simp]:
  "batches_fit n []" "batches_fit n (b # bs) \<longleftrightarrow> b \<noteq> [] \<and> length b \<le> max 1 n \<and> batches_fit n bs"
  "batches_fit n (as @ bs) \<longleftrightarrow> batches_fit n as \<and> batches_fit n bs"
  by (auto simp: batches_fit_def)












section \<open>Properties\<close>

text \<open>A database over the counter session whose transactions always commit, at the epoch given by its
  edge counter. The id counters survive a rollback.\<close>

definition counter_db :: "(nat \<times> nat) db_api" where
  "counter_db = \<lparr>d_session = counter_session, d_begin_transaction = (\<lambda>s. (Inr (), s)),
     d_prepare_commit = (\<lambda>s. (Inr (), s)), d_commit = (\<lambda>s. (Inr (of_nat (snd s)), s)),
     d_drop_session = (\<lambda>s. s)\<rparr>"



text \<open>A flush that exceeds its timeout ends the inbound loop: \<^verbatim>\<open>run\<close>
  returns the error whatever events would follow, so no later operation is ever received; the batch
  has left the buffer and lives on only in the background task.\<close>

theorem flush_timeout_ends_run:
  assumes "bt_buffer b \<noteq> []"
  shows "batcher_run api (Tick TimedOut # later) b =
    (Some (Inl flush_timeout), b\<lparr>bt_buffer := [], bt_orphans := bt_orphans b @ [bt_buffer b]\<rparr>)"
  using assms by (simp add: flush_def flush_inner_def continue_or_leave_def Let_def)

theorem flush_timeout_ends_run_witness:
  "fst (batcher_run counter_db [Recv (DeleteNode ''x'') Finished, Tick TimedOut, Recv (DeleteNode ''a'') Finished,
      Shutdown Finished] (batcher_new (0, 0) maps_new 2 100 {} None None)) = Some (Inl flush_timeout)"
  using flush_timeout_ends_run [of "(batcher_new (0, 0) maps_new 2 100 {} None None)
      \<lparr>bt_buffer := [DeleteNode ''x'']\<rparr>" counter_db "[Recv (DeleteNode ''a'') Finished, Shutdown Finished]"]
  by (simp add: batcher_new_def)

text \<open>An operation that fails has not touched the maps.\<close>

lemma failed_op_keeps_maps:
  assumes "apply_loro_op api op (s, m) = (Inl e, (s', m'))"
  shows "m' = m"
proof (cases op)
  case (TreeMove n old new)
  with assms tree_move_refines [of api n old new s m] show ?thesis by auto
qed (use assms in \<open>auto simp: apply_upsert_node_def apply_upsert_edge_def split: option.splits prod.splits sum.splits\<close>)

lemma apply_loro_ops_fail:
  "each_applied api pre t t1 \<Longrightarrow> apply_loro_op api op t1 = (Inl e, t2) \<Longrightarrow>
     apply_loro_ops api (pre @ op # post) t = (Inl e, t2)"
  by (induction pre arbitrary: t) auto

text \<open>Property C24 (failed_batch_keeps_bindings). When any operation of a batch fails, after any operations that
  succeeded before it, the session is dropped and its transaction with it, the operations behind it are not applied
  and no epoch is recorded; but the maps stay as the operations before it left them: they bind exactly the vertices
  and edges that the committed prefix would have bound. A vertex the batch created therefore stays bound to an id of
  the abandoned transaction, and every later upsert of it only sets properties on that id, in whatever state the
  database is, and never creates the node.\<close>

theorem failed_batch_keeps_bindings:
  assumes "d_begin_transaction api s = (Inr (), s1)"
    and "each_applied (d_session api) pre (s1, m) (s2, m2)"
    and "apply_loro_op (d_session api) op (s2, m2) = (Inl e, (s3, m3))"
  shows "flush_tx api (pre @ op # post) (s, m, epochs) = (Inl e, d_drop_session api s3, m2, epochs) \<and>
    spec_ops pre (key_graph_of m) = Some (key_graph_of m2) \<and>
    (\<forall>k nid ls ps x. node_fwd m2 k = Some nid \<longrightarrow>
       apply_loro_op (d_session api) (UpsertNode k ls ps) (x, m2) =
         (case set_node_properties (d_session api) nid ps x of (r, x') \<Rightarrow> (r, (x', m2))))"
proof -
  have "m3 = m2" by (rule failed_op_keeps_maps [OF assms(3)])
  then have "flush_tx api (pre @ op # post) (s, m, epochs) = (Inl e, d_drop_session api s3, m2, epochs)"
    using assms(1) apply_loro_ops_fail [OF assms(2,3), of post] by (simp add: flush_tx_def)
  moreover have "spec_ops pre (key_graph_of m) = Some (key_graph_of m2)"
    using assms(2) by (auto simp: each_applied_iff dest: apply_loro_ops_refines)
  ultimately show ?thesis
    by (simp add: apply_upsert_node_def node_fwd_def)
qed

theorem failed_batch_keeps_bindings_witness:
  "\<exists>m'. flush_tx counter_db [UpsertNode ''a'' [] [], UpsertNode ''b'' [] [], UpsertEdge ''a'' ''z'' ''L'' [], DeleteNode ''b'']
      ((0, 0), maps_new, {}) = (Inl (unknown_node_keys ''a'' ''z''), (2, 0), m', {}) \<and>
    fst (key_graph_of m') = {''a'', ''b''} \<and>
    apply_loro_op (d_session counter_db) (UpsertNode ''a'' [] []) ((0, 0), m') = (Inr (), ((0, 0), m'))"
proof -
  let ?pre = "[UpsertNode ''a'' [] [], UpsertNode ''b'' [] []]"
  obtain m2 where m2: "each_applied (d_session counter_db) ?pre ((0, 0), maps_new) ((2, 0), m2)"
      "apply_loro_op (d_session counter_db) (UpsertEdge ''a'' ''z'' ''L'' []) ((2, 0), m2) =
         (Inl (unknown_node_keys ''a'' ''z''), ((2, 0), m2))"
    by (simp add: counter_db_def counter_session_def apply_upsert_node_def apply_upsert_edge_def maps_new_def maps_op_defs)
  have b: "d_begin_transaction counter_db (0, 0) = (Inr (), (0, 0))" by (simp add: counter_db_def)
  note t = failed_batch_keeps_bindings [OF b m2, of "[DeleteNode ''b'']" "{}"]
  have "key_graph_of maps_new = ({}, {})" by (simp add: key_graph_of_def maps_new_def table_defs dom_def)
  with t have "key_graph_of m2 = ({''b'', ''a''}, {})" by simp
  then have kg: "fst (key_graph_of m2) = {''a'', ''b''}" by (simp add: insert_commute)
  then have "''a'' \<in> dom (node_fwd m2)" by (simp add: key_graph_of_def)
  then obtain nid where "node_fwd m2 ''a'' = Some nid" by blast
  with t have "apply_loro_op (d_session counter_db) (UpsertNode ''a'' [] []) ((0, 0), m2) =
      (case set_node_properties (d_session counter_db) nid [] (0, 0) of (r, x') \<Rightarrow> (r, (x', m2)))" by blast
  then have "apply_loro_op (d_session counter_db) (UpsertNode ''a'' [] []) ((0, 0), m2) = (Inr (), ((0, 0), m2))"
    by (simp del: apply_loro_op.simps)
  moreover have "d_drop_session counter_db (2, 0) = (2, 0)" by (simp add: counter_db_def)
  ultimately show ?thesis
    using t [THEN conjunct1] kg by (intro exI [of _ m2]) (simp only: append.simps simp_thms)
qed

end
