(* ===== verification/Queue.thy ===== *)
theory Queue
  imports Errors
begin

text \<open>
  The offline operation queue and the lineage epoch tracker of \<^verbatim>\<open>src/bridge/queue.rs\<close>, their
  JavaScript wrappers of \<^verbatim>\<open>src/wasm/queue.rs\<close>, and the methods of \<^verbatim>\<open>SyncEngine\<close> that delegate to them
  (\<^verbatim>\<open>src/bridge/sync_engine.rs\<close>).

  \<^verbatim>\<open>usize\<close> is 64 bits on the native targets and 32 bits on \<^verbatim>\<open>wasm32\<close>, so the queue is generic in the
  width \<open>'w\<close> of its byte counters.
\<close>

section \<open>The queue interface\<close>

text \<open>A queue with a bounded enqueue and a drain of everything. \<open>fifo_run\<close> runs a sequence of commands and
  returns what was accepted and what was drained, in order.\<close>

datatype 'a fifo_cmd = Enqueue 'a | Drain

fun fifo_run ::
  "('a \<Rightarrow> 'q \<Rightarrow> ('e + unit) \<times> 'q) \<Rightarrow> ('q \<Rightarrow> 'a list \<times> 'q) \<Rightarrow> 'a fifo_cmd list \<Rightarrow> 'q \<Rightarrow>
     'a list \<times> 'a list \<times> 'q" where
  "fifo_run enq drn [] q = ([], [], q)"
| "fifo_run enq drn (Enqueue x # cs) q = (case enq x q of
     (Inr _, q) \<Rightarrow> (case fifo_run enq drn cs q of (acc, out, q) \<Rightarrow> (x # acc, out, q))
   | (Inl _, q) \<Rightarrow> fifo_run enq drn cs q)"
| "fifo_run enq drn (Drain # cs) q = (case drn q of (xs, q) \<Rightarrow>
     (case fifo_run enq drn cs q of (acc, out, q) \<Rightarrow> (acc, xs @ out, q)))"

locale bounded_fifo =
  fixes inv :: "'q \<Rightarrow> bool"
    and fits :: "'a \<Rightarrow> bool"
    and contents :: "'q \<Rightarrow> 'a list"
    and enq :: "'a \<Rightarrow> 'q \<Rightarrow> ('e + unit) \<times> 'q"
    and drn :: "'q \<Rightarrow> 'a list \<times> 'q"
  assumes enq_accepts: "enq x q = (Inr u, q') \<Longrightarrow> contents q' = contents q @ [x]"
    and enq_refuses: "enq x q = (Inl e, q') \<Longrightarrow> q' = q"
    and enq_inv: "inv q \<Longrightarrow> fits x \<Longrightarrow> inv (snd (enq x q))"
    and drn_all: "fst (drn q) = contents q \<and> contents (snd (drn q)) = []"
    and drn_inv: "inv q \<Longrightarrow> inv (snd (drn q))"
begin

lemma fifo_run_order:
  "fifo_run enq drn cs q = (acc, out, q') \<Longrightarrow> contents q @ acc = out @ contents q'"
proof (induction cs arbitrary: q acc out q')
  case (Cons c cs)
  show ?case
  proof (cases c)
    case (Enqueue x)
    obtain r q1 where e: "enq x q = (r, q1)" by fastforce
    show ?thesis
    proof (cases r)
      case (Inl err)
      with e enq_refuses have "q1 = q" by blast
      with Cons e Enqueue Inl show ?thesis by simp
    next
      case (Inr u)
      with e enq_accepts have c1: "contents q1 = contents q @ [x]" by blast
      obtain acc1 out1 q2 where "fifo_run enq drn cs q1 = (acc1, out1, q2)" by (metis prod_cases3)
      with Cons.IH [of q1] Cons.prems e Enqueue Inr c1 show ?thesis by fastforce
    qed
  next
    case Drain
    obtain xs q1 where d: "drn q = (xs, q1)" by fastforce
    obtain acc1 out1 q2 where r: "fifo_run enq drn cs q1 = (acc1, out1, q2)" by (metis prod_cases3)
    with Cons.prems Drain d have "acc = acc1" "out = xs @ out1" "q' = q2" by simp_all
    with Cons.IH [OF r] drn_all [of q] d show ?thesis by simp
  qed
qed simp

lemma fifo_run_inv:
  "inv q \<Longrightarrow> \<forall>x. Enqueue x \<in> set cs \<longrightarrow> fits x \<Longrightarrow> inv (snd (snd (fifo_run enq drn cs q)))"
proof (induction cs arbitrary: q)
  case (Cons c cs)
  show ?case
  proof (cases c)
    case (Enqueue x)
    with Cons.IH [of "snd (enq x q)"] enq_inv [OF Cons.prems(1), of x] Cons.prems(2) show ?thesis
      by (auto split: prod.splits sum.splits)
  next
    case Drain
    with Cons.IH [of "snd (drn q)"] drn_inv [OF Cons.prems(1)] Cons.prems(2) show ?thesis
      by (auto split: prod.splits)
  qed
qed simp

end

section \<open>\<^verbatim>\<open>OfflineOpQueue\<close>\<close>

text \<open>\<open>'n\<close> is \<^verbatim>\<open>usize\<close>, a word of the target's width.\<close>

record 'n offline_op_queue =
  oq_ops :: "u8 list list"
  oq_total_bytes :: 'n
  oq_cap_bytes :: 'n
  oq_retry_count :: u32

definition DEFAULT_CAP :: "'w::len word" where
  "DEFAULT_CAP = 10 * 1024 * 1024"

definition oq_with_cap :: "'w::len word \<Rightarrow> 'w word offline_op_queue" where
  "oq_with_cap cap = \<lparr>oq_ops = [], oq_total_bytes = 0, oq_cap_bytes = cap, oq_retry_count = 0\<rparr>"

definition oq_new :: "'w::len word offline_op_queue" where
  "oq_new = \<lparr>oq_ops = [], oq_total_bytes = 0, oq_cap_bytes = DEFAULT_CAP, oq_retry_count = 0\<rparr>"

definition count_overflow :: "nat \<Rightarrow> nat \<Rightarrow> grafeo_loro_error" where
  "count_overflow cur add = Bridge (Msg
     ''offline queue overflow: byte count overflow (current={}, adding={})'' [A_Num cur, A_Num add])"

definition cap_overflow :: "nat \<Rightarrow> nat \<Rightarrow> nat \<Rightarrow> grafeo_loro_error" where
  "cap_overflow cap cur add = Bridge (Msg
     ''offline queue overflow: cap={} bytes, current={}, adding={} bytes''
     [A_Num cap, A_Num cur, A_Num add])"

definition oq_enqueue ::
  "u8 list \<Rightarrow> 'w::len word offline_op_queue \<Rightarrow> unit result \<times> 'w word offline_op_queue" where
  "oq_enqueue op_bytes q =
     (case checked_add (oq_total_bytes q) (of_nat (length op_bytes)) of
        None \<Rightarrow> (Inl (count_overflow (unat (oq_total_bytes q)) (length op_bytes)), q)
      | Some new_total \<Rightarrow>
          (if oq_cap_bytes q < new_total
           then (Inl (cap_overflow (unat (oq_cap_bytes q)) (unat (oq_total_bytes q)) (length op_bytes)), q)
           else (Inr (), q\<lparr>oq_total_bytes := new_total, oq_ops := oq_ops q @ [op_bytes]\<rparr>)))"

definition oq_drain :: "'w::len word offline_op_queue \<Rightarrow> u8 list list \<times> 'w word offline_op_queue" where
  "oq_drain q = (oq_ops q, q\<lparr>oq_ops := [], oq_total_bytes := 0\<rparr>)"

definition oq_depth :: "'w::len word offline_op_queue \<Rightarrow> nat" where
  "oq_depth q = length (oq_ops q)"

definition oq_bytes_used :: "'w::len word offline_op_queue \<Rightarrow> 'w word" where
  "oq_bytes_used q = oq_total_bytes q"

definition oq_retry_bump :: "'w::len word offline_op_queue \<Rightarrow> u32 \<times> 'w word offline_op_queue" where
  "oq_retry_bump q = (let q = q\<lparr>oq_retry_count := saturating_add (oq_retry_count q) 1\<rparr>
                      in (oq_retry_count q, q))"

definition oq_reset_retry :: "'w::len word offline_op_queue \<Rightarrow> 'w word offline_op_queue" where
  "oq_reset_retry q = q\<lparr>oq_retry_count := 0\<rparr>"

definition oq_is_empty :: "'w::len word offline_op_queue \<Rightarrow> bool" where
  "oq_is_empty q \<longleftrightarrow> oq_ops q = []"

text \<open>The counter is the number of bytes held, and it respects the cap.\<close>

definition oq_bytes :: "u8 list list \<Rightarrow> nat" where
  "oq_bytes ops = sum_list (map length ops)"

definition oq_ok :: "'w::len word offline_op_queue \<Rightarrow> bool" where
  "oq_ok q \<longleftrightarrow> unat (oq_total_bytes q) = oq_bytes (oq_ops q) \<and> oq_total_bytes q \<le> oq_cap_bytes q"

text \<open>A Rust vector is shorter than \<^verbatim>\<open>isize::MAX\<close>; here it is enough that its length fits \<^verbatim>\<open>usize\<close>.\<close>

lemma oq_enqueue_cases:
  fixes q :: "'w::len word offline_op_queue"
  assumes "oq_ok q" and "length op < 2 ^ LENGTH('w)"
  shows "if oq_bytes (oq_ops q @ [op]) \<le> unat (oq_cap_bytes q)
    then (\<exists>t. oq_enqueue op q = (Inr (), q\<lparr>oq_total_bytes := t, oq_ops := oq_ops q @ [op]\<rparr>) \<and>
      unat t = oq_bytes (oq_ops q @ [op]))
    else (\<exists>w. oq_enqueue op q = (Inl (Bridge w), q))"
proof -
  have len: "unat (of_nat (length op) :: 'w word) = length op"
    using assms(2) by (simp add: unsigned_of_nat take_bit_nat_eq_self)
  have tot: "unat (oq_total_bytes q) + length op = oq_bytes (oq_ops q @ [op])"
    using assms(1) by (simp add: oq_ok_def oq_bytes_def)
  have cap: "unat (oq_cap_bytes q) < 2 ^ LENGTH('w)"
    by (rule unsigned_less)
  show ?thesis
  proof (cases "checked_add (oq_total_bytes q) (of_nat (length op))")
    case None
    from checked_add_NoneD [OF this] len tot cap
    have "\<not> oq_bytes (oq_ops q @ [op]) \<le> unat (oq_cap_bytes q)" by linarith
    with None show ?thesis by (simp add: oq_enqueue_def count_overflow_def)
  next
    case (Some t)
    from checked_add_SomeD [OF this] len tot have "unat t = oq_bytes (oq_ops q @ [op])" by simp
    with Some show ?thesis
      by (auto simp: oq_enqueue_def cap_overflow_def word_less_nat_alt)
  qed
qed

lemma oq_ok_new: "oq_ok (oq_new :: 'w::len word offline_op_queue)" "oq_ok (oq_with_cap cap)"
  by (simp_all add: oq_ok_def oq_new_def oq_with_cap_def oq_bytes_def)

definition oq_fits :: "'w::len itself \<Rightarrow> u8 list \<Rightarrow> bool" where
  "oq_fits w op \<longleftrightarrow> length op < 2 ^ LENGTH('w)"

lemma oq_ok_enqueue:
  fixes q :: "'w::len word offline_op_queue"
  assumes "oq_ok q" and "oq_fits TYPE('w) op"
  shows "oq_ok (snd (oq_enqueue op q))"
  using oq_enqueue_cases [OF assms(1), of op] assms
  by (auto simp: oq_fits_def oq_ok_def word_le_nat_alt split: if_splits)

interpretation oq: bounded_fifo
  "oq_ok :: 'w::len word offline_op_queue \<Rightarrow> bool" "oq_fits TYPE('w)" oq_ops oq_enqueue oq_drain
proof unfold_locales
  fix x and q :: "'w word offline_op_queue" and u e q'
  show "oq_enqueue x q = (Inr u, q') \<Longrightarrow> oq_ops q' = oq_ops q @ [x]"
    "oq_enqueue x q = (Inl e, q') \<Longrightarrow> q' = q"
    by (auto simp: oq_enqueue_def split: option.splits if_splits)
  show "oq_ok q \<Longrightarrow> oq_fits TYPE('w) x \<Longrightarrow> oq_ok (snd (oq_enqueue x q))"
    by (rule oq_ok_enqueue)
qed (simp_all add: oq_drain_def oq_ok_def oq_bytes_def)

section \<open>\<^verbatim>\<open>EpochTracker\<close>\<close>

record epoch_tracker =
  et_epoch :: u64

datatype epoch_mismatch_error = EpochMismatch (em_local: u64) (em_remote: u64)

definition et_new :: epoch_tracker where
  "et_new = \<lparr>et_epoch = 0\<rparr>"

definition et_current :: "epoch_tracker \<Rightarrow> u64" where
  "et_current t = et_epoch t"

definition et_check_match :: "u64 \<Rightarrow> epoch_tracker \<Rightarrow> epoch_mismatch_error + unit" where
  "et_check_match remote_epoch t =
     (let local = et_epoch t
      in if local = remote_epoch then Inr () else Inl (EpochMismatch local remote_epoch))"

text \<open>\<^verbatim>\<open>fetch_add\<close> wraps on overflow.\<close>

definition et_bump :: "epoch_tracker \<Rightarrow> u64 \<times> epoch_tracker" where
  "et_bump t = (et_epoch t + 1, t\<lparr>et_epoch := et_epoch t + 1\<rparr>)"

definition et_wipe :: "epoch_tracker \<Rightarrow> u64 \<times> epoch_tracker" where
  "et_wipe t = et_bump t"

section \<open>The engine's lineage state\<close>

text \<open>The two fields of \<^verbatim>\<open>SyncEngine\<close> these methods touch. The engine is native, so its \<^verbatim>\<open>usize\<close> has
  64 bits.\<close>

record lineage =
  ln_epoch_tracker :: epoch_tracker
  ln_offline_queue :: "64 word offline_op_queue"

definition lineage_new :: lineage where
  "lineage_new = \<lparr>ln_epoch_tracker = et_new, ln_offline_queue = oq_new\<rparr>"

definition lineage_epoch :: "lineage \<Rightarrow> u64" where
  "lineage_epoch e = et_current (ln_epoch_tracker e)"

definition check_epoch_match :: "u64 \<Rightarrow> lineage \<Rightarrow> epoch_mismatch_error + unit" where
  "check_epoch_match remote_epoch e = et_check_match remote_epoch (ln_epoch_tracker e)"

definition wipe_cache :: "lineage \<Rightarrow> u64 \<times> lineage" where
  "wipe_cache e =
     (case et_wipe (ln_epoch_tracker e) of (new_epoch, tracker) \<Rightarrow>
        (new_epoch, e\<lparr>ln_epoch_tracker := tracker,
           ln_offline_queue := oq_reset_retry (snd (oq_drain (ln_offline_queue e)))\<rparr>))"

definition enqueue_offline_op :: "u8 list \<Rightarrow> lineage \<Rightarrow> unit result \<times> lineage" where
  "enqueue_offline_op op_bytes e = (case oq_enqueue op_bytes (ln_offline_queue e) of
     (r, q) \<Rightarrow> (r, e\<lparr>ln_offline_queue := q\<rparr>))"

definition drain_offline_queue :: "lineage \<Rightarrow> u8 list list \<times> lineage" where
  "drain_offline_queue e = (case oq_drain (ln_offline_queue e) of
     (xs, q) \<Rightarrow> (xs, e\<lparr>ln_offline_queue := q\<rparr>))"

definition offline_queue_depth :: "lineage \<Rightarrow> nat" where
  "offline_queue_depth e = oq_depth (ln_offline_queue e)"

definition offline_queue_bytes :: "lineage \<Rightarrow> usize" where
  "offline_queue_bytes e = oq_bytes_used (ln_offline_queue e)"

definition offline_queue_cap :: "lineage \<Rightarrow> usize" where
  "offline_queue_cap e = oq_cap_bytes (ln_offline_queue e)"

definition offline_retry_bump :: "lineage \<Rightarrow> u32 \<times> lineage" where
  "offline_retry_bump e = (case oq_retry_bump (ln_offline_queue e) of
     (n, q) \<Rightarrow> (n, e\<lparr>ln_offline_queue := q\<rparr>))"

definition reset_offline_retry :: "lineage \<Rightarrow> lineage" where
  "reset_offline_retry e = e\<lparr>ln_offline_queue := oq_reset_retry (ln_offline_queue e)\<rparr>"

definition offline_retry_count :: "lineage \<Rightarrow> u32" where
  "offline_retry_count e = oq_retry_count (ln_offline_queue e)"

interpretation engine_queue: bounded_fifo
  "\<lambda>e. oq_ok (ln_offline_queue e)" "oq_fits TYPE(64)" "\<lambda>e. oq_ops (ln_offline_queue e)"
  enqueue_offline_op drain_offline_queue
proof unfold_locales
  fix x e u err e'
  show "enqueue_offline_op x e = (Inr u, e') \<Longrightarrow>
      oq_ops (ln_offline_queue e') = oq_ops (ln_offline_queue e) @ [x]"
    by (auto simp: enqueue_offline_op_def split: prod.splits dest: oq.enq_accepts)
  show "enqueue_offline_op x e = (Inl err, e') \<Longrightarrow> e' = e"
    by (auto simp: enqueue_offline_op_def split: prod.splits dest!: oq.enq_refuses)
  show "oq_ok (ln_offline_queue e) \<Longrightarrow> oq_fits TYPE(64) x \<Longrightarrow>
      oq_ok (ln_offline_queue (snd (enqueue_offline_op x e)))"
    using oq.enq_inv [of "ln_offline_queue e" x] by (auto simp: enqueue_offline_op_def split: prod.splits)
qed (auto simp: drain_offline_queue_def oq_drain_def oq_ok_def oq_bytes_def)

section \<open>JavaScript wrappers\<close>

text \<open>A thrown JavaScript value is the object the wrappers build.\<close>

datatype js_object =
    Js_Error (js_code: u32) grafeo_loro_error
  | Js_Mismatch (js_mismatch_code: u32) (js_local: u64) (js_remote: u64)

definition js_error :: "grafeo_loro_error \<Rightarrow> js_object" where
  "js_error e = Js_Error (error_code e) e"

definition EPOCH_MISMATCH_CODE :: u32 where
  "EPOCH_MISMATCH_CODE = 1013"

definition epoch_mismatch_to_jsvalue :: "epoch_mismatch_error \<Rightarrow> js_object" where
  "epoch_mismatch_to_jsvalue e = Js_Mismatch EPOCH_MISMATCH_CODE (em_local e) (em_remote e)"

definition wasm_enqueue :: "u8 list \<Rightarrow> 32 word offline_op_queue \<Rightarrow> (js_object + unit) \<times> 32 word offline_op_queue" where
  "wasm_enqueue op_bytes q = (case oq_enqueue op_bytes q of
     (Inl e, q) \<Rightarrow> (Inl (js_error e), q) | (Inr u, q) \<Rightarrow> (Inr u, q))"

definition wasm_drain :: "32 word offline_op_queue \<Rightarrow> u8 list list \<times> 32 word offline_op_queue" where
  "wasm_drain q = (case oq_drain q of (ops, q) \<Rightarrow> (map (\<lambda>op. op) ops, q))"

definition wasm_check_match :: "u64 \<Rightarrow> epoch_tracker \<Rightarrow> js_object + unit" where
  "wasm_check_match remote_epoch t = (case et_check_match remote_epoch t of
     Inl e \<Rightarrow> Inl (epoch_mismatch_to_jsvalue e) | Inr u \<Rightarrow> Inr u)"

interpretation wasm_queue: bounded_fifo
  "oq_ok :: 32 word offline_op_queue \<Rightarrow> bool" "oq_fits TYPE(32)" oq_ops wasm_enqueue wasm_drain
proof unfold_locales
  fix x q u e q'
  show "wasm_enqueue x q = (Inr u, q') \<Longrightarrow> oq_ops q' = oq_ops q @ [x]"
    "wasm_enqueue x q = (Inl e, q') \<Longrightarrow> q' = q"
    by (auto simp: wasm_enqueue_def split: prod.splits sum.splits dest: oq.enq_accepts oq.enq_refuses)
  show "oq_ok q \<Longrightarrow> oq_fits TYPE(32) x \<Longrightarrow> oq_ok (snd (wasm_enqueue x q))"
    using oq.enq_inv [of q x] by (auto simp: wasm_enqueue_def split: prod.splits sum.splits)
qed (auto simp: wasm_drain_def oq_drain_def oq_ok_def oq_bytes_def)

section \<open>Properties\<close>

text \<open>In a consistent queue an operation is accepted exactly
  when the bytes held together with it stay within the cap; it is then appended and the counter is
  again the exact number of bytes held. Otherwise, also when the addition would overflow \<^verbatim>\<open>usize\<close>,
  the call reports a \<^verbatim>\<open>Bridge\<close> error and the queue is unchanged. Consistency is kept in both cases.\<close>

theorem offline_queue_enqueue_bounded:
  fixes q :: "'w::len word offline_op_queue"
  assumes "oq_ok q" and "length op < 2 ^ LENGTH('w)"
  shows "oq_ok (snd (oq_enqueue op q)) \<and>
    (if oq_bytes (oq_ops q @ [op]) \<le> unat (oq_cap_bytes q)
     then fst (oq_enqueue op q) = Inr () \<and> oq_ops (snd (oq_enqueue op q)) = oq_ops q @ [op] \<and>
       unat (oq_bytes_used (snd (oq_enqueue op q))) = oq_bytes (oq_ops q @ [op])
     else (\<exists>w. oq_enqueue op q = (Inl (Bridge w), q)))"
  using oq_enqueue_cases [OF assms] oq_ok_enqueue [OF assms(1), of op] assms(2)
  by (auto simp: oq_fits_def oq_bytes_used_def split: if_splits)

theorem offline_queue_enqueue_bounded_witness:
  "\<exists>w. oq_enqueue [1, 2, 3] (snd (oq_enqueue [7, 7] (oq_with_cap (4 :: 32 word)))) =
     (Inl (Bridge w), snd (oq_enqueue [7, 7] (oq_with_cap 4)))"
proof -
  let ?q = "snd (oq_enqueue [7, 7] (oq_with_cap (4 :: 32 word)))"
  have "oq_ok ?q"
    using offline_queue_enqueue_bounded [OF oq_ok_new(2), of "[7, 7]" "4 :: 32 word"] by simp
  moreover have "oq_bytes (oq_ops ?q @ [[1, 2, 3]]) = 5" "unat (oq_cap_bytes ?q) = 4"
    by (simp_all add: oq_enqueue_def oq_with_cap_def checked_add_def oq_bytes_def)
  ultimately show ?thesis
    using offline_queue_enqueue_bounded [of ?q "[1, 2, 3]"] by simp
qed

text \<open>Property C14 (offline_queue_is_fifo). Over any sequence of enqueues and drains, on the engine's methods
  and on the JavaScript wrappers alike, what was accepted comes out exactly once and in order: the
  initial contents followed by the accepted operations are the drained operations followed by what
  is left. The queue stays consistent throughout.\<close>

theorem offline_queue_is_fifo:
  assumes "\<forall>op. Enqueue op \<in> set cs \<longrightarrow> length op < 2 ^ 32"
    and "oq_ok (ln_offline_queue e)" and "oq_ok q"
    and "fifo_run enqueue_offline_op drain_offline_queue cs e = (acc, out, e')"
    and "fifo_run wasm_enqueue wasm_drain cs q = (acc32, out32, q')"
  shows "oq_ops (ln_offline_queue e) @ acc = out @ oq_ops (ln_offline_queue e') \<and>
    oq_ok (ln_offline_queue e') \<and> oq_ops q @ acc32 = out32 @ oq_ops q' \<and> oq_ok q'"
proof -
  have "\<forall>op. Enqueue op \<in> set cs \<longrightarrow> oq_fits TYPE(64) op" "\<forall>op. Enqueue op \<in> set cs \<longrightarrow> oq_fits TYPE(32) op"
    using assms(1) by (force simp: oq_fits_def)+
  then show ?thesis
    using engine_queue.fifo_run_order [OF assms(4)] engine_queue.fifo_run_inv [of e cs]
      wasm_queue.fifo_run_order [OF assms(5)] wasm_queue.fifo_run_inv [of q cs] assms
    by simp
qed

theorem offline_queue_is_fifo_witness:
  "let cs = [Enqueue [1], Enqueue [2, 3], Drain, Enqueue [4]] in
   (case fifo_run enqueue_offline_op drain_offline_queue cs lineage_new of
      (acc, out, e) \<Rightarrow> acc = [[1], [2, 3], [4]] \<and> out = [[1], [2, 3]] \<and> oq_ok (ln_offline_queue e))"
proof -
  let ?cs = "[Enqueue [1], Enqueue [2, 3], Drain, Enqueue [4]] :: u8 list fifo_cmd list"
  obtain acc out e where r: "fifo_run enqueue_offline_op drain_offline_queue ?cs lineage_new = (acc, out, e)"
    by (metis prod_cases3)
  obtain acc32 out32 q where r32: "fifo_run wasm_enqueue wasm_drain ?cs oq_new = (acc32, out32, q)"
    by (metis prod_cases3)
  have "acc = [[1], [2, 3], [4]] \<and> out = [[1], [2, 3]]"
    using r by (auto simp: enqueue_offline_op_def drain_offline_queue_def oq_enqueue_def oq_drain_def
        lineage_new_def oq_new_def DEFAULT_CAP_def checked_add_def)
  moreover have "oq_ok (ln_offline_queue e)"
    using offline_queue_is_fifo [OF _ _ _ r r32] by (simp add: lineage_new_def oq_ok_new)
  ultimately show ?thesis using r by (simp add: Let_def)
qed

text \<open>A cache wipe empties the offline queue, resets its counters
  and moves to a different lineage: afterwards a handshake succeeds exactly for the new epoch, and
  the epoch of before the wipe is refused with both epochs reported. The cap is kept.\<close>

theorem wipe_cache_breaks_lineage:
  "case wipe_cache e of (new_epoch, e') \<Rightarrow>
     new_epoch = lineage_epoch e + 1 \<and> lineage_epoch e' = new_epoch \<and> new_epoch \<noteq> lineage_epoch e \<and>
     (\<forall>r. check_epoch_match r e' = (if r = new_epoch then Inr () else Inl (EpochMismatch new_epoch r))) \<and>
     oq_is_empty (ln_offline_queue e') \<and> offline_queue_bytes e' = 0 \<and> offline_retry_count e' = 0 \<and>
     offline_queue_cap e' = offline_queue_cap e \<and> oq_ok (ln_offline_queue e')"
  by (auto simp: wipe_cache_def et_wipe_def et_bump_def lineage_epoch_def et_current_def
      check_epoch_match_def et_check_match_def oq_is_empty_def oq_drain_def oq_reset_retry_def
      offline_queue_bytes_def oq_bytes_used_def offline_retry_count_def offline_queue_cap_def
      oq_ok_def oq_bytes_def)

text \<open>The error codes seen from JavaScript are pairwise distinct, the mismatch code included.\<close>

lemma js_codes_distinct:
  "(error_code a = error_code b) = (error_variant a = error_variant b)"
  "error_code a \<noteq> EPOCH_MISMATCH_CODE"
proof -
  show "(error_code a = error_code b) = (error_variant a = error_variant b)"
    by (simp add: word_unat_eq_iff unat_error_code)
  show "error_code a \<noteq> EPOCH_MISMATCH_CODE"
    using error_variant_less [of a] by (simp add: word_unat_eq_iff unat_error_code EPOCH_MISMATCH_CODE_def)
qed

end
