(* ===== verification/Origin.thy ===== *)
theory Origin
  imports Errors "HOL-Library.Sublist"
begin

text \<open>
  Commit origins of \<^verbatim>\<open>src/bridge/origin.rs\<close>: the composed origin strings, the thread-local stash for
  the next commit (one optional string, passed as state), and the echo tests by origin.
\<close>

datatype origin_kind = Structural | Typing | Other

fun compose_origin :: "origin_kind \<Rightarrow> string option \<Rightarrow> string" where
  "compose_origin Structural None = ''structural''"
| "compose_origin Structural (Some nid) = ''structural:'' @ nid"
| "compose_origin Typing None = ''typing''"
| "compose_origin Typing (Some nid) = ''typing:'' @ nid"
| "compose_origin Other None = ''other''"
| "compose_origin Other (Some nid) = ''other:'' @ nid"

type_synonym next_commit_origin = "string option"

definition set_next_commit_origin ::
  "origin_kind \<Rightarrow> string option \<Rightarrow> next_commit_origin \<Rightarrow> next_commit_origin" where
  "set_next_commit_origin kind nid cell = Some (compose_origin kind nid)"

definition take_next_commit_origin :: "next_commit_origin \<Rightarrow> string option \<times> next_commit_origin" where
  "take_next_commit_origin cell = (cell, None)"

definition peek_next_commit_origin :: "next_commit_origin \<Rightarrow> string option" where
  "peek_next_commit_origin cell = cell"

definition is_grafeo_bridge_origin :: "string \<Rightarrow> bool" where
  "is_grafeo_bridge_origin origin \<longleftrightarrow> origin = ORIGIN_GRAFEO_BRIDGE"

definition is_loro_bridge_origin :: "string option \<Rightarrow> bool" where
  "is_loro_bridge_origin origin \<longleftrightarrow> origin = Some ORIGIN_LORO_BRIDGE"

text \<open>The composed strings determine the kind and the node, and none of them is an origin the bridge
  itself writes, so a user's commit is never taken for an echo.\<close>

lemma compose_origin_inj: "compose_origin k n = compose_origin k' n' \<longleftrightarrow> k = k' \<and> n = n'"
  by (cases k; cases n; cases k'; cases n'; simp)

lemma compose_origin_not_bridge:
  "\<not> is_grafeo_bridge_origin (compose_origin k n)" "\<not> is_loro_bridge_origin (Some (compose_origin k n))"
  by (cases k; cases n; simp add: is_grafeo_bridge_origin_def is_loro_bridge_origin_def constant_defs)+

text \<open>The origin stashed for the next commit is handed out once,
  identifies the kind of commit and the node it was set for (different settings give different
  strings), and is never one of the two origins the bridge reserves for its own writes.\<close>

theorem commit_origin_faithful:
  "take_next_commit_origin (set_next_commit_origin k n cell) = (Some (compose_origin k n), None) \<and>
   take_next_commit_origin None = (None, None) \<and>
   (compose_origin k n = compose_origin k' n') = (k = k' \<and> n = n') \<and>
   compose_origin k n \<notin> {ORIGIN_GRAFEO_BRIDGE, ORIGIN_LORO_BRIDGE}"
  using compose_origin_not_bridge [of k n]
  by (simp add: take_next_commit_origin_def set_next_commit_origin_def compose_origin_inj
      is_grafeo_bridge_origin_def is_loro_bridge_origin_def)

end
