(* ===== verification/Sync_Translate.thy ===== *)
theory Sync_Translate
  imports Bridge_Maps
begin

text \<open>
  The two pure projections at the heart of \<^verbatim>\<open>src/bridge/sync_engine.rs\<close>: \<^verbatim>\<open>translate_diff_event\<close> from
  Loro diffs to graph operations, and \<^verbatim>\<open>apply_change_event_to_loro\<close> from grafeo change events to
  writes of the Loro document, with the edge-key encoding both use.

  Of the Loro document only the map calls are used; they are the fields of \<open>loro_api\<close> over an arbitrary
  document state, and \<open>loro_map_laws\<close> states what a map container promises. The event types of the
  two crates are the variants and fields the sources inspect.
\<close>

section \<open>Edge keys\<close>

text \<open>One step of \<^verbatim>\<open>splitn(_, '|')\<close>: the part before the first separator and, when there is one, the rest
  after it.\<close>

fun split_once :: "string \<Rightarrow> string \<times> string option" where
  "split_once [] = ([], None)"
| "split_once (c # cs) =
     (if c = CHR ''|'' then ([], Some cs)
      else (case split_once cs of (a, r) \<Rightarrow> (c # a, r)))"

definition parse_edge_key :: "string \<Rightarrow> edge_key option" where
  "parse_edge_key s = (case split_once s of
     (src, None) \<Rightarrow> None
   | (src, Some rest) \<Rightarrow> (case split_once rest of
       (dst, None) \<Rightarrow> None
     | (dst, Some label) \<Rightarrow> if label = [] then None else Some (src, dst, label)))"

fun encode_edge_key :: "edge_key \<Rightarrow> string" where
  "encode_edge_key (a, b, l) = a @ ''|'' @ b @ ''|'' @ l"

section \<open>Loro diffs to operations\<close>

datatype container_id = CID_Root string | CID_Normal

datatype value_or_container = VOC_Value loro_value | VOC_Container

datatype loro_diff = Diff_Map "(string \<times> value_or_container option) list" | Diff_Other

record container_diff =
  cd_target :: container_id
  cd_diff :: loro_diff

record diff_event =
  de_origin :: string
  de_events :: "container_diff list"

text \<open>The property loop: the first unsupported value abandons the entry (\<^verbatim>\<open>ok = false; break\<close>).\<close>

fun collect_props ::
  "(string \<times> loro_value) list \<Rightarrow> (string, graph_value) hmap \<Rightarrow> (string, graph_value) hmap option" where
  "collect_props [] props = Some props"
| "collect_props ((k, v) # m) props = (case lval_to_gval v of
     Inr gv \<Rightarrow> collect_props m (hm_insert k gv props)
   | Inl e \<Rightarrow> None)"

definition translate_vertex_entry :: "string \<times> value_or_container option \<Rightarrow> loro_op list" where
  "translate_vertex_entry = (\<lambda>(key, val). case val of
     Some (VOC_Value lv) \<Rightarrow> (case lv of
         LV_Map m \<Rightarrow> (case collect_props m [] of
             Some props \<Rightarrow> [UpsertNode key [] props]
           | None \<Rightarrow> [])
       | _ \<Rightarrow> [])
   | None \<Rightarrow> [DeleteNode key]
   | Some VOC_Container \<Rightarrow> [])"

definition translate_edge_entry :: "string \<times> value_or_container option \<Rightarrow> loro_op list" where
  "translate_edge_entry = (\<lambda>(key, val). case parse_edge_key key of
     None \<Rightarrow> []
   | Some (src_key, dst_key, label) \<Rightarrow> (case val of
       Some (VOC_Value (LV_Map m)) \<Rightarrow> (case collect_props m [] of
           Some props \<Rightarrow> [UpsertEdge src_key dst_key label props]
         | None \<Rightarrow> [])
     | None \<Rightarrow> [DeleteEdge src_key dst_key label]
     | Some _ \<Rightarrow> []))"

definition translate_container :: "container_diff \<Rightarrow> loro_op list" where
  "translate_container cd = (case cd_target cd of
     CID_Root name \<Rightarrow>
       (if name = ROOT_VERTICES
        then (case cd_diff cd of Diff_Map updated \<Rightarrow> concat (map translate_vertex_entry updated) | _ \<Rightarrow> [])
        else if name = ROOT_EDGES
        then (case cd_diff cd of Diff_Map updated \<Rightarrow> concat (map translate_edge_entry updated) | _ \<Rightarrow> [])
        else [])
   | CID_Normal \<Rightarrow> [])"

definition translate_diff_event :: "diff_event \<Rightarrow> loro_op list" where
  "translate_diff_event ev = concat (map translate_container (de_events ev))"

section \<open>Change events to Loro\<close>

datatype entity_id = Ent_Node node_id | Ent_Edge edge_id | Ent_Triple | Ent_Unknown

datatype change_kind = Ch_Create | Ch_Update | Ch_Delete | Ch_Unknown

record change_event =
  ce_entity_id :: entity_id
  ce_kind :: change_kind
  ce_epoch :: epoch_id
  ce_after :: "(string, grafeo_value) hmap option"
  ce_src_id :: "u64 option"
  ce_dst_id :: "u64 option"
  ce_edge_type :: "string option"

record 'd loro_api =
  l_map_get :: "string \<Rightarrow> string \<Rightarrow> 'd \<Rightarrow> value_or_container option"
  l_map_insert :: "string \<Rightarrow> string \<Rightarrow> loro_value \<Rightarrow> 'd \<Rightarrow> (string + unit) \<times> 'd"
  l_map_delete :: "string \<Rightarrow> string \<Rightarrow> 'd \<Rightarrow> (string + unit) \<times> 'd"
  l_commit :: "string \<Rightarrow> 'd \<Rightarrow> 'd"

definition lookup_edge_endpoints :: "change_event \<Rightarrow> bridge_maps \<Rightarrow> edge_key option" where
  "lookup_edge_endpoints ev maps = (case ce_src_id ev of None \<Rightarrow> None | Some src_id \<Rightarrow>
     (case ce_dst_id ev of None \<Rightarrow> None | Some dst_id \<Rightarrow>
     (case ce_edge_type ev of None \<Rightarrow> None | Some label \<Rightarrow>
     (case hm_get (node_key_map maps) src_id of None \<Rightarrow> None | Some src_key \<Rightarrow>
     (case hm_get (node_key_map maps) dst_id of None \<Rightarrow> None | Some dst_key \<Rightarrow>
        Some (src_key, dst_key, label))))))"

text \<open>The read-modify-write of one entry of a root map: the changed keys are merged into the value that is
  there, when that is a plain map.\<close>

definition current_entry :: "'d loro_api \<Rightarrow> string \<Rightarrow> string \<Rightarrow> 'd \<Rightarrow> (string, loro_value) hmap" where
  "current_entry api root key doc = (case l_map_get api root key doc of
     Some (VOC_Value (LV_Map m)) \<Rightarrow> m
   | _ \<Rightarrow> [])"

fun merge_after ::
  "(f32 \<Rightarrow> f64) \<Rightarrow> (string \<times> grafeo_value) list \<Rightarrow> (string, loro_value) hmap \<Rightarrow> (string, loro_value) hmap" where
  "merge_after c [] current = current"
| "merge_after c ((k, v) # after) current =
     merge_after c after (hm_insert k (grafeo_value_to_lval c v) current)"

definition after_or_default :: "change_event \<Rightarrow> (string, grafeo_value) hmap" where
  "after_or_default ev = (case ce_after ev of None \<Rightarrow> [] | Some m \<Rightarrow> m)"

definition write_entry ::
  "(f32 \<Rightarrow> f64) \<Rightarrow> 'd loro_api \<Rightarrow> string \<Rightarrow> string \<Rightarrow> change_event \<Rightarrow> 'd \<Rightarrow> (string + unit) \<times> 'd" where
  "write_entry c api root key ev doc =
     l_map_insert api root key (LV_Map (merge_after c (after_or_default ev) (current_entry api root key doc))) doc"

definition apply_change_event_to_loro ::
  "(f32 \<Rightarrow> f64) \<Rightarrow> 'd loro_api \<Rightarrow> change_event \<Rightarrow> 'd \<times> bridge_maps \<Rightarrow> unit result \<times> 'd \<times> bridge_maps" where
  "apply_change_event_to_loro c api ev = (\<lambda>(doc, maps).
     case (ce_entity_id ev, ce_kind ev) of
       (Ent_Node nid, Ch_Create) \<Rightarrow> (case hm_get (node_key_map maps) nid of
           None \<Rightarrow> (Inr (), doc, maps)
         | Some node_key \<Rightarrow> (case write_entry c api ROOT_VERTICES node_key ev doc of
             (Inl e, doc) \<Rightarrow> (Inl (Loro e), doc, maps)
           | (Inr _, doc) \<Rightarrow> (Inr (), doc, maps)))
     | (Ent_Node nid, Ch_Update) \<Rightarrow> (case hm_get (node_key_map maps) nid of
           None \<Rightarrow> (Inr (), doc, maps)
         | Some node_key \<Rightarrow> (case write_entry c api ROOT_VERTICES node_key ev doc of
             (Inl e, doc) \<Rightarrow> (Inl (Loro e), doc, maps)
           | (Inr _, doc) \<Rightarrow> (Inr (), doc, maps)))
     | (Ent_Node nid, Ch_Delete) \<Rightarrow> (case hm_get (node_key_map maps) nid of
           None \<Rightarrow> (Inr (), doc, maps)
         | Some node_key \<Rightarrow>
             (Inr (), snd (l_map_delete api ROOT_VERTICES node_key doc), snd (remove_node node_key maps)))
     | (Ent_Edge eid, Ch_Create) \<Rightarrow> (case lookup_edge_endpoints ev maps of
           None \<Rightarrow> (Inr (), doc, maps)
         | Some key \<Rightarrow> (case write_entry c api ROOT_EDGES (encode_edge_key key) ev doc of
             (Inl e, doc) \<Rightarrow> (Inl (Loro e), doc, maps)
           | (Inr _, doc) \<Rightarrow> (Inr (), doc, insert_edge key eid maps)))
     | (Ent_Edge eid, Ch_Update) \<Rightarrow> (case hm_get (edge_key_map maps) eid of
           None \<Rightarrow> (Inr (), doc, maps)
         | Some key \<Rightarrow> (case write_entry c api ROOT_EDGES (encode_edge_key key) ev doc of
             (Inl e, doc) \<Rightarrow> (Inl (Loro e), doc, maps)
           | (Inr _, doc) \<Rightarrow> (Inr (), doc, maps)))
     | (Ent_Edge eid, Ch_Delete) \<Rightarrow> (case remove_edge_by_id eid maps of
           (None, maps) \<Rightarrow> (Inr (), doc, maps)
         | (Some key, maps) \<Rightarrow> (Inr (), snd (l_map_delete api ROOT_EDGES (encode_edge_key key) doc), maps))
     | (Ent_Triple, _) \<Rightarrow> (Inr (), doc, maps)
     | _ \<Rightarrow> (Inr (), doc, maps))"

section \<open>Edge-key lemmas\<close>

lemma split_once_no_sep: "CHR ''|'' \<notin> set a \<Longrightarrow> split_once (a @ ''|'' @ r) = (a, Some r)"
  by (induction a) auto

lemma split_once_Some: "split_once s = (a, Some r) \<Longrightarrow> s = a @ ''|'' @ r \<and> CHR ''|'' \<notin> set a"
  by (induction s arbitrary: a) (auto split: if_splits prod.splits)

lemma parse_edge_key_Some:
  assumes "parse_edge_key s = Some (a, b, l)"
  shows "s = encode_edge_key (a, b, l) \<and> CHR ''|'' \<notin> set a \<and> CHR ''|'' \<notin> set b \<and> l \<noteq> []"
proof -
  obtain r where 1: "split_once s = (a, Some r)" and 2: "split_once r = (b, Some l)" and "l \<noteq> []"
    using assms by (auto simp: parse_edge_key_def split: prod.splits option.splits if_splits)
  with split_once_Some [OF 1] split_once_Some [OF 2] show ?thesis by simp
qed

lemma parse_encode_edge_key:
  assumes "CHR ''|'' \<notin> set a" and "CHR ''|'' \<notin> set b" and "l \<noteq> []"
  shows "parse_edge_key (encode_edge_key (a, b, l)) = Some (a, b, l)"
proof -
  have "split_once (encode_edge_key (a, b, l)) = (a, Some (b @ ''|'' @ l))"
    using split_once_no_sep [OF assms(1), of "b @ ''|'' @ l"] by simp
  with split_once_no_sep [OF assms(2), of l] assms(3) show ?thesis
    by (simp add: parse_edge_key_def)
qed

text \<open>Parsing inverts encoding exactly for the edge keys whose endpoint
  keys contain no separator and whose label is not empty; conversely a key that parses is the
  encoding of its parts. An endpoint key with a separator, or an empty label, is lost or changed on
  the way through the Loro map.\<close>

theorem edge_key_round_trip:
  "(parse_edge_key (encode_edge_key (a, b, l)) = Some (a, b, l)) =
     (CHR ''|'' \<notin> set a \<and> CHR ''|'' \<notin> set b \<and> l \<noteq> []) \<and>
   (\<forall>k. parse_edge_key s = Some k \<longrightarrow> encode_edge_key k = s)"
  using parse_edge_key_Some [of s] parse_edge_key_Some [of "encode_edge_key (a, b, l)" a b l]
    parse_encode_edge_key [of a b l] by auto

theorem edge_key_round_trip_witness:
  "parse_edge_key ''v1|v2|KNOWS|x'' = Some (''v1'', ''v2'', ''KNOWS|x'') \<and>
   encode_edge_key (''v1'', ''v2'', ''KNOWS|x'') = ''v1|v2|KNOWS|x'' \<and>
   parse_edge_key (encode_edge_key (''a|b'', ''c'', ''L'')) \<noteq> Some (''a|b'', ''c'', ''L'')"
  using edge_key_round_trip [of "''a|b''" "''c''" "''L''" "''v1|v2|KNOWS|x''"]
  by (auto simp: parse_edge_key_def)

section \<open>Outbound writes\<close>

text \<open>What a root map of the document promises: a write is read back, other entries keep their value, and
  a failed write changes nothing.\<close>

definition loro_map_laws :: "'d loro_api \<Rightarrow> bool" where
  "loro_map_laws api \<longleftrightarrow>
     (\<forall>root key v doc doc'. l_map_insert api root key v doc = (Inr (), doc') \<longrightarrow>
        (\<forall>r k. l_map_get api r k doc' =
           (if r = root \<and> k = key then Some (VOC_Value v) else l_map_get api r k doc))) \<and>
     (\<forall>root key v doc doc' e. l_map_insert api root key v doc = (Inl e, doc') \<longrightarrow> doc' = doc) \<and>
     (\<forall>root key doc doc'. l_map_delete api root key doc = (Inr (), doc') \<longrightarrow>
        (\<forall>r k. l_map_get api r k doc' =
           (if r = root \<and> k = key then None else l_map_get api r k doc))) \<and>
     (\<forall>root key doc doc' e. l_map_delete api root key doc = (Inl e, doc') \<longrightarrow> doc' = doc)"

lemma loro_insert_get:
  assumes "loro_map_laws api" and "l_map_insert api root key v doc = (Inr u, doc')"
  shows "l_map_get api r k doc' = (if r = root \<and> k = key then Some (VOC_Value v) else l_map_get api r k doc)"
  using assms unfolding loro_map_laws_def by auto

lemma loro_insert_failed:
  assumes "loro_map_laws api" and "l_map_insert api root key v doc = (Inl e, doc')"
  shows "doc' = doc"
  using assms unfolding loro_map_laws_def by blast

text \<open>A document that is a plain table of entries satisfies the laws; it is the document of the
  witnesses.\<close>

type_synonym table_doc = "(string \<times> string, value_or_container) hmap"

definition table_doc_api :: "table_doc loro_api" where
  "table_doc_api = \<lparr>l_map_get = (\<lambda>r k d. hm_get d (r, k)),
     l_map_insert = (\<lambda>r k v d. (Inr (), hm_insert (r, k) (VOC_Value v) d)),
     l_map_delete = (\<lambda>r k d. (Inr (), hm_remove (r, k) d)),
     l_commit = (\<lambda>origin d. d)\<rparr>"

lemma table_doc_laws: "loro_map_laws table_doc_api"
  by (auto simp: loro_map_laws_def table_doc_api_def)

lemma hm_get_merge_after:
  "hm_ok after \<Longrightarrow> hm_get (merge_after c after current) k =
     (case hm_get after k of Some v \<Rightarrow> Some (grafeo_value_to_lval c v) | None \<Rightarrow> hm_get current k)"
proof (induction c after current rule: merge_after.induct)
  case (2 c k' v after current)
  then have "hm_ok after" and "hm_get after k' = None"
    by (auto simp: hm_ok_def hm_get_None_iff hm_keys_def)
  with 2 show ?case
    by (auto split: option.splits)
qed simp

lemma hm_ok_merge_after: "hm_ok current \<Longrightarrow> hm_ok (merge_after c after current)"
  by (induction c after current rule: merge_after.induct) simp_all

lemma collect_props_eq: "collect_props m out = (case lmap_to_gmap m out of Inr gm \<Rightarrow> Some gm | Inl e \<Rightarrow> None)"
  by (induction m out rule: collect_props.induct) (auto split: sum.splits)

lemma maps_ok_apply_change_event:
  assumes "maps_ok maps"
    and "\<And>eid key. ce_entity_id ev = Ent_Edge eid \<Longrightarrow> ce_kind ev = Ch_Create \<Longrightarrow>
      lookup_edge_endpoints ev maps = Some key \<Longrightarrow> edge_fwd maps key = None \<and> edge_inv maps eid = None"
  shows "maps_ok (snd (snd (apply_change_event_to_loro c api ev (doc, maps))))"
proof (cases "ce_entity_id ev")
  case (Ent_Node nid)
  with assms(1) show ?thesis
    by (cases "ce_kind ev") (auto simp: apply_change_event_to_loro_def maps_ok_remove_node
        split: option.splits prod.splits sum.splits)
next
  case (Ent_Edge eid)
  have rem: "maps_ok m'" if "remove_edge_by_id eid maps = (r, m')" for r m'
    using maps_ok_remove_edge_by_id [OF assms(1), of eid] that by simp
  from Ent_Edge show ?thesis
    using assms maps_ok_insert_edge [OF assms(1)]
    by (cases "ce_kind ev") (auto simp: apply_change_event_to_loro_def dest: rem
        split: option.splits prod.splits sum.splits)
qed (use assms(1) in \<open>auto simp: apply_change_event_to_loro_def split: change_kind.splits\<close>)

text \<open>Property C18 (outbound_node_event_merges). A create or update event of a node never touches the maps. When the
  bridge does not know the node, or the insertion fails, the document stays as it is. Otherwise the vertex entry of
  the node's key becomes a plain map: every property the event carries is written with its converted value; a
  property it does not carry keeps its value when the entry was a plain map before, and is gone when the entry was
  anything else, a map container included (the comment in the code speaks of untouched properties that are not
  clobbered). No other entry of the document changes.\<close>

theorem outbound_node_event_merges:
  assumes "loro_map_laws api" and "ce_entity_id ev = Ent_Node nid" and "ce_kind ev \<in> {Ch_Create, Ch_Update}"
    and "hm_ok (after_or_default ev)"
    and "apply_change_event_to_loro c api ev (doc, maps) = (r, doc', maps')"
  shows "maps' = maps \<and> (case (node_inv maps nid, r) of
      (None, _) \<Rightarrow> r = Inr () \<and> doc' = doc
    | (Some key, Inl e) \<Rightarrow> doc' = doc
    | (Some key, Inr _) \<Rightarrow>
        (\<exists>m. l_map_get api ROOT_VERTICES key doc' = Some (VOC_Value (LV_Map m)) \<and>
           (\<forall>p. hm_get m p = (case hm_get (after_or_default ev) p of
              Some v \<Rightarrow> Some (grafeo_value_to_lval c v)
            | None \<Rightarrow> (case l_map_get api ROOT_VERTICES key doc of
                Some (VOC_Value (LV_Map old)) \<Rightarrow> hm_get old p
              | _ \<Rightarrow> None)))) \<and>
        (\<forall>root k. (root, k) \<noteq> (ROOT_VERTICES, key) \<longrightarrow> l_map_get api root k doc' = l_map_get api root k doc))"
proof (cases "node_inv maps nid")
  case None
  with assms(2,3,5) show ?thesis by (auto simp: apply_change_event_to_loro_def node_inv_def)
next
  case (Some key)
  let ?m = "merge_after c (after_or_default ev) (current_entry api ROOT_VERTICES key doc)"
  obtain q d where w: "l_map_insert api ROOT_VERTICES key (LV_Map ?m) doc = (q, d)" by fastforce
  have run: "maps' = maps \<and> doc' = d \<and> ((\<exists>e. r = Inl e) \<longleftrightarrow> (\<exists>e. q = Inl e))"
    using assms(2,3,5) Some w
    by (cases q) (auto simp: apply_change_event_to_loro_def write_entry_def node_inv_def)
  have cur: "hm_get (current_entry api ROOT_VERTICES key doc) p = (case l_map_get api ROOT_VERTICES key doc of
      Some (VOC_Value (LV_Map old)) \<Rightarrow> hm_get old p | _ \<Rightarrow> None)" for p
    by (auto simp: current_entry_def split: option.splits value_or_container.splits loro_value.splits)
  show ?thesis
  proof (cases r)
    case (Inl e)
    with run obtain e' where "q = Inl e'" by auto
    with w have "d = doc" using loro_insert_failed [OF assms(1)] by blast
    with Some Inl run show ?thesis by simp
  next
    case (Inr u)
    with run have "q = Inr ()" by (cases q) auto
    note get = loro_insert_get [OF assms(1) w [unfolded this]]
    from Some Inr run show ?thesis
      by (simp add: get hm_get_merge_after [OF assms(4)] cur cong: option.case_cong)
  qed
qed

theorem outbound_node_event_merges_witness:
  "let ev = \<lparr>ce_entity_id = Ent_Node 3, ce_kind = Ch_Update, ce_epoch = 1, ce_after = Some [(''b'', GR_Bool True)],
         ce_src_id = None, ce_dst_id = None, ce_edge_type = None\<rparr>;
       doc = [((''V'', ''v1''), VOC_Value (LV_Map [(''a'', LV_Null)]))];
       maps = insert_node ''v1'' 3 maps_new;
       res = apply_change_event_to_loro ucast table_doc_api ev (doc, maps)
   in \<exists>m. l_map_get table_doc_api ''V'' ''v1'' (fst (snd res)) = Some (VOC_Value (LV_Map m)) \<and>
        hm_get m ''a'' = Some LV_Null \<and> hm_get m ''b'' = Some (LV_Bool True)"
proof -
  let ?ev = "\<lparr>ce_entity_id = Ent_Node 3, ce_kind = Ch_Update, ce_epoch = 1, ce_after = Some [(''b'', GR_Bool True)],
     ce_src_id = None, ce_dst_id = None, ce_edge_type = None\<rparr>"
  let ?doc = "[((''V'', ''v1''), VOC_Value (LV_Map [(''a'', LV_Null)]))]"
  let ?maps = "insert_node ''v1'' 3 maps_new"
  have inv: "node_inv ?maps 3 = Some ''v1''"
    by (simp add: nodes.inv_bind)
  have ok: "hm_ok (after_or_default ?ev)"
    by (simp add: after_or_default_def hm_ok_def)
  obtain doc' maps' where r: "apply_change_event_to_loro ucast table_doc_api ?ev (?doc, ?maps) = (Inr (), doc', maps')"
    using inv by (simp add: apply_change_event_to_loro_def node_inv_def write_entry_def table_doc_api_def)
  show ?thesis
    using outbound_node_event_merges [OF table_doc_laws _ _ ok r] r inv
    by (fastforce simp: Let_def after_or_default_def current_entry_def ROOT_VERTICES_def table_doc_api_def)
qed

text \<open>Property C23 (vertex_write_translates_back). The entry the outbound side writes for an event of a known node,
  read by the inbound translator, becomes one upsert of the same key, provided the properties the entry had before
  are plain Loro values. A property the event carried comes back to grafeo as \<open>echo_value\<close> of the value
  sent, and every other property of the entry as a value that is written to the same Loro value again. So an echo
  that slips through the filters leaves the values of the event as they are exactly when they hold no vector and no
  value outside the named variants: a vector returns as a list of floats, the others as \<open>Null\<close>.\<close>

theorem vertex_write_translates_back:
  assumes "loro_map_laws api" and "ce_entity_id ev = Ent_Node nid" and "ce_kind ev \<in> {Ch_Create, Ch_Update}"
    and "node_inv maps nid = Some key"
    and "hm_ok (after_or_default ev)" and "\<forall>kv \<in> set (after_or_default ev). gr_wf (snd kv)"
    and "hm_ok (current_entry api ROOT_VERTICES key doc)"
    and "\<forall>kv \<in> set (current_entry api ROOT_VERTICES key doc). lv_wf (snd kv) \<and> lv_plain (snd kv)"
    and "apply_change_event_to_loro c api ev (doc, maps) = (Inr (), doc', maps')"
  shows "(\<exists>props. translate_diff_event \<lparr>de_origin = org, de_events =
        [\<lparr>cd_target = CID_Root ROOT_VERTICES, cd_diff = Diff_Map [(key, l_map_get api ROOT_VERTICES key doc')]\<rparr>]\<rparr> =
        [UpsertNode key [] props] \<and>
      (\<forall>p v. hm_get (after_or_default ev) p = Some v \<longrightarrow>
         (\<exists>g. hm_get props p = Some g \<and> gval_to_grafeo_value g = echo_value c v)) \<and>
      (\<forall>p. hm_get (after_or_default ev) p = None \<longrightarrow>
         map_option (\<lambda>g. grafeo_value_to_lval c (gval_to_grafeo_value g)) (hm_get props p) =
         hm_get (current_entry api ROOT_VERTICES key doc) p)) \<and>
    (\<forall>v. echo_value c v = v \<longleftrightarrow> gr_plain v)"
proof -
  let ?after = "after_or_default ev" and ?cur = "current_entry api ROOT_VERTICES key doc"
  let ?m = "merge_after c ?after ?cur"
  have "l_map_insert api ROOT_VERTICES key (LV_Map ?m) doc = (Inr (), doc')"
    using assms(2-4,9) by (auto simp: apply_change_event_to_loro_def write_entry_def node_inv_def
        split: prod.splits sum.splits)
  then have get: "l_map_get api ROOT_VERTICES key doc' = Some (VOC_Value (LV_Map ?m))"
    by (simp add: loro_insert_get [OF assms(1)])
  have cur_ok: "lv_wf l \<and> lv_plain l" if "hm_get ?cur p = Some l" for p l
    using assms(8) hm_get_Some_in [OF that] by fastforce
  have ok: "hm_ok ?m" by (rule hm_ok_merge_after [OF assms(7)])
  have plain: "lv_wf l \<and> lv_plain l" if "(p, l) \<in> set ?m" for p l
  proof -
    from hm_in_get [OF ok that] have "hm_get ?m p = Some l" .
    then show ?thesis
      using cur_ok sent_plain(1) by (auto simp: hm_get_merge_after [OF assms(5)] split: option.splits)
  qed
  then have "\<forall>kv \<in> set ?m. \<exists>g. lval_to_gval (snd kv) = Inr g"
    using lval_to_gval_back(1) by fastforce
  with ok obtain gm where gm: "lmap_to_gmap ?m [] = Inr gm"
    "list_all2 (\<lambda>(k, l) (k', g). k = k' \<and> lval_to_gval l = Inr g) ?m gm"
    using lmap_to_gmap_each [of "[]" ?m] by (auto simp: hm_ok_def)
  have look: "hm_get gm p = (case hm_get ?m p of None \<Rightarrow> None | Some l \<Rightarrow>
      (case lval_to_gval l of Inr g \<Rightarrow> Some g | Inl e \<Rightarrow> None))" for p
    using gm(2) by (induction rule: list_all2_induct) (auto split: prod.splits)
  have carried: "\<exists>g. hm_get gm p = Some g \<and> gval_to_grafeo_value g = echo_value c v" if "hm_get ?after p = Some v" for p v
  proof -
    have "gr_wf v" using assms(6) hm_get_Some_in [OF that] by fastforce
    with that echo_value_back [of v c] show ?thesis
      by (auto simp: look hm_get_merge_after [OF assms(5)])
  qed
  have kept: "map_option (\<lambda>g. grafeo_value_to_lval c (gval_to_grafeo_value g)) (hm_get gm p) = hm_get ?cur p"
    if "hm_get ?after p = None" for p
  proof (cases "hm_get ?cur p")
    case (Some l)
    with cur_ok Some that lval_to_gval_back(1) [of l c] show ?thesis
      by (auto simp: look hm_get_merge_after [OF assms(5)] back_to_def)
  qed (use that in \<open>simp add: look hm_get_merge_after [OF assms(5)]\<close>)
  have "translate_diff_event \<lparr>de_origin = org, de_events =
      [\<lparr>cd_target = CID_Root ROOT_VERTICES, cd_diff = Diff_Map [(key, l_map_get api ROOT_VERTICES key doc')]\<rparr>]\<rparr> =
      [UpsertNode key [] gm]"
    using gm(1) by (simp add: get translate_diff_event_def translate_container_def translate_vertex_entry_def collect_props_eq)
  with carried kept show ?thesis by (auto simp: echo_value_fixed)
qed

theorem vertex_write_translates_back_witness:
  "let ev = \<lparr>ce_entity_id = Ent_Node 3, ce_kind = Ch_Update, ce_epoch = 1,
         ce_after = Some [(''b'', GR_Vector [0]), (''c'', GR_Bool True)],
         ce_src_id = None, ce_dst_id = None, ce_edge_type = None\<rparr>;
       doc = [((''V'', ''v1''), VOC_Value (LV_Map [(''a'', LV_I64 7)]))];
       doc' = fst (snd (apply_change_event_to_loro ucast table_doc_api ev (doc, insert_node ''v1'' 3 maps_new)))
   in \<exists>props gb gc. translate_diff_event \<lparr>de_origin = ''x'', de_events =
        [\<lparr>cd_target = CID_Root ROOT_VERTICES,
          cd_diff = Diff_Map [(''v1'', l_map_get table_doc_api ROOT_VERTICES ''v1'' doc')]\<rparr>]\<rparr> =
        [UpsertNode ''v1'' [] props] \<and>
      hm_get props ''b'' = Some gb \<and> gval_to_grafeo_value gb = GR_List [GR_Float64 0] \<and>
      hm_get props ''c'' = Some gc \<and> gval_to_grafeo_value gc = GR_Bool True"
proof -
  let ?ev = "\<lparr>ce_entity_id = Ent_Node 3, ce_kind = Ch_Update, ce_epoch = 1,
     ce_after = Some [(''b'', GR_Vector [0]), (''c'', GR_Bool True)],
     ce_src_id = None, ce_dst_id = None, ce_edge_type = None\<rparr>"
  let ?doc = "[((''V'', ''v1''), VOC_Value (LV_Map [(''a'', LV_I64 7)]))]"
  let ?maps = "insert_node ''v1'' 3 maps_new"
  have inv: "node_inv ?maps 3 = Some ''v1''" by (simp add: nodes.inv_bind)
  have cur: "current_entry table_doc_api ROOT_VERTICES ''v1'' ?doc = [(''a'', LV_I64 7)]"
    by (simp add: current_entry_def table_doc_api_def ROOT_VERTICES_def)
  have after: "after_or_default ?ev = [(''b'', GR_Vector [0]), (''c'', GR_Bool True)]"
    by (simp add: after_or_default_def)
  obtain doc' maps' where r: "apply_change_event_to_loro ucast table_doc_api ?ev (?doc, ?maps) = (Inr (), doc', maps')"
    using inv by (simp add: apply_change_event_to_loro_def node_inv_def write_entry_def table_doc_api_def)
  obtain props where p: "translate_diff_event \<lparr>de_origin = ''x'', de_events =
        [\<lparr>cd_target = CID_Root ROOT_VERTICES,
          cd_diff = Diff_Map [(''v1'', l_map_get table_doc_api ROOT_VERTICES ''v1'' doc')]\<rparr>]\<rparr> = [UpsertNode ''v1'' [] props]"
      "\<And>p v. hm_get (after_or_default ?ev) p = Some v \<Longrightarrow>
         \<exists>g. hm_get props p = Some g \<and> gval_to_grafeo_value g = echo_value ucast v"
    using vertex_write_translates_back [OF table_doc_laws _ _ inv _ _ _ _ r, of "''x''"]
    unfolding cur after by (auto simp: hm_ok_def)
  have "\<exists>g. hm_get props ''b'' = Some g \<and> gval_to_grafeo_value g = GR_List [GR_Float64 0]"
    "\<exists>g. hm_get props ''c'' = Some g \<and> gval_to_grafeo_value g = GR_Bool True"
    using p(2) [of "''b''"] p(2) [of "''c''"] unfolding after by simp_all
  with p(1) r show ?thesis by (auto simp: Let_def)
qed

text \<open>grafeo is a multigraph: when it reports the creation of
  a second edge with endpoints and label the bridge already has bound to another id, the event
  rebinds the key and leaves the old id pointing at it. The edge tables then disagree, and the
  deletion of the old edge removes the entry of the new one from the document and from the maps.\<close>

theorem parallel_edge_breaks_edge_tables:
  assumes "edges.agree maps" and "edge_fwd maps key = Some old" and "old \<noteq> eid"
    and "ce_entity_id ev = Ent_Edge eid" and "ce_kind ev = Ch_Create"
    and "lookup_edge_endpoints ev maps = Some key"
    and "apply_change_event_to_loro c api ev (doc, maps) = (Inr (), doc1, maps1)"
    and "ce_entity_id del = Ent_Edge old" and "ce_kind del = Ch_Delete"
    and "apply_change_event_to_loro c api del (doc1, maps1) = (r, doc2, maps2)"
  shows "edge_fwd maps1 key = Some eid \<and> edge_inv maps1 old = Some key \<and>
    doc2 = snd (l_map_delete api ROOT_EDGES (encode_edge_key key) doc1) \<and>
    edge_fwd maps2 key = None \<and> edge_inv maps2 eid = Some key"
proof -
  have m1: "maps1 = insert_edge key eid maps"
    using assms(4-7) by (auto simp: apply_change_event_to_loro_def split: prod.splits sum.splits)
  have "edge_inv maps old = Some key"
    using assms(1,2) by (rule edges.agree_fwd)
  with m1 assms(3) have e1: "edge_fwd maps1 key = Some eid" "edge_inv maps1 old = Some key"
    "edge_inv maps1 eid = Some key"
    by (simp_all add: edges.fwd_bind edges.inv_bind)
  then have "remove_edge_by_id old maps1 = (Some key, maps1\<lparr>edge_key_map := hm_remove old (edge_key_map maps1),
      edge_id_map := hm_remove key (edge_id_map maps1)\<rparr>)"
    by (simp add: remove_edge_by_id_def edge_inv_def Let_def)
  with assms(8-10) e1 assms(3) show ?thesis
    by (auto simp: apply_change_event_to_loro_def edge_fwd_def edge_inv_def)
qed

theorem parallel_edge_breaks_edge_tables_witness:
  "let maps = insert_edge (''a'', ''b'', ''L'') 5 (insert_node ''b'' 2 (insert_node ''a'' 1 maps_new));
       ev = \<lparr>ce_entity_id = Ent_Edge 7, ce_kind = Ch_Create, ce_epoch = 1, ce_after = None,
         ce_src_id = Some 1, ce_dst_id = Some 2, ce_edge_type = Some ''L''\<rparr>;
       del = ev\<lparr>ce_entity_id := Ent_Edge 5, ce_kind := Ch_Delete\<rparr>;
       t1 = snd (apply_change_event_to_loro ucast table_doc_api ev ([], maps));
       t2 = snd (apply_change_event_to_loro ucast table_doc_api del t1)
   in edge_fwd (snd t1) (''a'', ''b'', ''L'') = Some 7 \<and> edge_inv (snd t1) 5 = Some (''a'', ''b'', ''L'') \<and>
      edge_fwd (snd t2) (''a'', ''b'', ''L'') = None \<and> edge_inv (snd t2) 7 = Some (''a'', ''b'', ''L'')"
proof -
  let ?maps = "insert_edge (''a'', ''b'', ''L'') 5 (insert_node ''b'' 2 (insert_node ''a'' 1 maps_new))"
  let ?ev = "\<lparr>ce_entity_id = Ent_Edge 7, ce_kind = Ch_Create, ce_epoch = 1, ce_after = None,
     ce_src_id = Some 1, ce_dst_id = Some 2, ce_edge_type = Some ''L''\<rparr>"
  let ?del = "?ev\<lparr>ce_entity_id := Ent_Edge 5, ce_kind := Ch_Delete\<rparr>"
  have agree: "edges.agree ?maps"
    by (simp add: edges.agree_def edges.fwd_bind edges.inv_bind bridge_simps)
      (simp add: table_defs maps_new_def)
  have lk: "lookup_edge_endpoints ?ev ?maps = Some (''a'', ''b'', ''L'')"
    by (simp add: lookup_edge_endpoints_def maps_op_defs maps_new_def)
  obtain d1 m1 where r1: "apply_change_event_to_loro ucast table_doc_api ?ev ([], ?maps) = (Inr (), d1, m1)"
    using lk by (simp add: apply_change_event_to_loro_def write_entry_def table_doc_api_def)
  obtain r d2 m2 where r2: "apply_change_event_to_loro ucast table_doc_api ?del (d1, m1) = (r, d2, m2)"
    by (metis prod_cases3)
  show ?thesis
    using parallel_edge_breaks_edge_tables [OF agree _ _ _ _ lk r1 _ _ r2] r1 r2
    by (simp add: Let_def edges.fwd_bind)
qed

end
