(* ===== verification/Sync_Engine.thy ===== *)
theory Sync_Engine
  imports Batcher Queue Origin Sync_Translate
begin

text \<open>
  The sync engine of \<^verbatim>\<open>src/bridge/sync_engine.rs\<close>: its channels and counters, the Loro subscriber, and its
  worker tasks (inbound forwarder, batcher, outbound worker, CDC poller) with their shutdown.

  A turn of a worker is what it does between two points at which it may wait. An awaited \<^verbatim>\<open>send\<close> that finds
  the channel full suspends the worker with the message in hand (\<open>se_forward\<close>, \<open>se_poll\<close>); its next turn tries
  again. The engine holds a sender of each channel, so a channel never runs out of senders; it closes when the
  task that owns its receiver ends. The change log of grafeo is the parameter \<open>cdc_api\<close>.
\<close>

section \<open>Channels\<close>

record 'a channel =
  ch_items :: "'a list"
  ch_closed :: bool

definition CHANNEL_CAPACITY :: nat where
  "CHANNEL_CAPACITY = 1024"

definition ch_new :: "'a channel" where
  "ch_new = \<lparr>ch_items = [], ch_closed = False\<rparr>"

definition try_send :: "'a \<Rightarrow> 'a channel \<Rightarrow> bool \<times> 'a channel" where
  "try_send x ch = (if ch_closed ch \<or> CHANNEL_CAPACITY \<le> length (ch_items ch) then (False, ch)
                    else (True, ch\<lparr>ch_items := ch_items ch @ [x]\<rparr>))"

section \<open>State\<close>

text \<open>The labels the metrics registry counts under.\<close>

record sync_metrics =
  mt_inbound_events :: "string list"
  mt_outbound_events :: "string list"
  mt_echo_filtered :: "string list"

datatype worker = W_Inbound | W_Batcher | W_Outbound | W_Poller

text \<open>
  A spawned task that has not subscribed to the shutdown broadcast yet is \<open>Starting\<close>; \<open>Signalled\<close> has the
  signal in its receiver; the inbound worker is \<open>Joining\<close> while it awaits the batcher.
\<close>

datatype worker_status = Absent | Starting | Listening | Signalled | Joining | Ended

record ('s, 'd) sync_engine =
  se_doc :: 'd
  se_batcher :: "'s batcher"
  se_inbound :: "loro_op channel"
  se_batch :: "loro_op channel"
  se_outbound :: "change_event channel"
  se_inbound_event_count :: u64
  se_inbound_filtered_count :: u64
  se_metrics :: "sync_metrics option"
  se_lineage :: lineage
  se_subscribed :: bool
  se_status :: "worker \<Rightarrow> worker_status"
  se_forward :: "loro_op option"
  se_last_epoch :: "epoch_id option"
  se_poll :: "(epoch_id \<times> change_event list) option"

record 's cdc_api =
  c_current_epoch :: "'s \<Rightarrow> epoch_id"
  c_changes_between :: "epoch_id \<Rightarrow> epoch_id \<Rightarrow> 's \<Rightarrow> string + change_event list"

definition engine_new ::
  "'s \<Rightarrow> 'd \<Rightarrow> nat \<Rightarrow> u64 \<Rightarrow> sync_metrics option \<Rightarrow> nat option \<Rightarrow> ('s, 'd) sync_engine" where
  "engine_new db doc batch_size batch_ms metrics health =
     \<lparr>se_doc = doc,
      se_batcher = batcher_new db maps_new batch_size batch_ms {} (map_option (\<lambda>_. []) metrics) health,
      se_inbound = ch_new, se_batch = ch_new, se_outbound = ch_new,
      se_inbound_event_count = 0, se_inbound_filtered_count = 0,
      se_metrics = metrics, se_lineage = lineage_new, se_subscribed = False, se_status = (\<lambda>w. Absent),
      se_forward = None, se_last_epoch = None, se_poll = None\<rparr>"

definition engine_default :: "'s \<Rightarrow> 'd \<Rightarrow> ('s, 'd) sync_engine" where
  "engine_default db doc = engine_new db doc (unat DEFAULT_BATCH_SIZE) DEFAULT_BATCH_MS None None"

definition engine_with_batch_config :: "'s \<Rightarrow> 'd \<Rightarrow> nat \<Rightarrow> u64 \<Rightarrow> ('s, 'd) sync_engine" where
  "engine_with_batch_config db doc batch_size batch_ms = engine_new db doc batch_size batch_ms None None"

definition set_status :: "worker \<Rightarrow> worker_status \<Rightarrow> ('s, 'd) sync_engine \<Rightarrow> ('s, 'd) sync_engine" where
  "set_status w st e = e\<lparr>se_status := (se_status e)(w := st)\<rparr>"

definition count_metric ::
  "(sync_metrics \<Rightarrow> sync_metrics) \<Rightarrow> ('s, 'd) sync_engine \<Rightarrow> ('s, 'd) sync_engine" where
  "count_metric f e = e\<lparr>se_metrics := map_option f (se_metrics e)\<rparr>"

definition count_echo :: "string \<Rightarrow> sync_metrics \<Rightarrow> sync_metrics" where
  "count_echo direction m = m\<lparr>mt_echo_filtered := mt_echo_filtered m @ [direction]\<rparr>"

section \<open>The subscriber\<close>

text \<open>The send loop of the handler; the first refused operation ends the handler.\<close>

fun send_ops :: "loro_op list \<Rightarrow> ('s, 'd) sync_engine \<Rightarrow> ('s, 'd) sync_engine" where
  "send_ops [] e = e"
| "send_ops (op # ops) e = (case try_send op (se_inbound e) of
     (False, _) \<Rightarrow> e
   | (True, ch) \<Rightarrow>
       send_ops ops (e\<lparr>se_inbound := ch, se_inbound_event_count := se_inbound_event_count e + 1\<rparr>))"

definition subscriber_handler :: "diff_event \<Rightarrow> ('s, 'd) sync_engine \<Rightarrow> ('s, 'd) sync_engine" where
  "subscriber_handler ev e =
     (if de_origin ev = ORIGIN_GRAFEO_BRIDGE \<or> de_origin ev = ORIGIN_LORO_BRIDGE
      then count_metric (count_echo ''inbound'')
             (e\<lparr>se_inbound_filtered_count := se_inbound_filtered_count e + 1\<rparr>)
      else send_ops (translate_diff_event ev) e)"

section \<open>The workers\<close>

fun op_event_type :: "loro_op \<Rightarrow> string" where
  "op_event_type (UpsertNode k ls ps) = ''vertex''"
| "op_event_type (DeleteNode k) = ''vertex''"
| "op_event_type (UpsertEdge a b l ps) = ''edge''"
| "op_event_type (DeleteEdge a b l) = ''edge''"
| "op_event_type (TreeMove n a b) = ''tree''"

text \<open>The receiver of a channel is dropped; what it held is lost.\<close>

definition ch_close :: "'a channel" where
  "ch_close = \<lparr>ch_items = [], ch_closed = True\<rparr>"

text \<open>The inbound worker leaves its loop and awaits the batcher.\<close>

definition inbound_exit :: "('s, 'd) sync_engine \<Rightarrow> ('s, 'd) sync_engine" where
  "inbound_exit e = set_status W_Inbound Joining (e\<lparr>se_forward := None\<rparr>)"

text \<open>The awaited send to the batcher: it fails when the batcher is gone and waits when the channel is full.\<close>

definition forward_op :: "loro_op \<Rightarrow> ('s, 'd) sync_engine \<Rightarrow> ('s, 'd) sync_engine" where
  "forward_op op e =
     (if ch_closed (se_batch e) then inbound_exit e
      else case try_send op (se_batch e) of
          (True, ch) \<Rightarrow> e\<lparr>se_batch := ch, se_forward := None\<rparr>
        | (False, _) \<Rightarrow> e\<lparr>se_forward := Some op\<rparr>)"

text \<open>A turn of the inbound worker. The select looks at the shutdown first.\<close>

definition inbound_worker_step :: "('s, 'd) sync_engine \<Rightarrow> ('s, 'd) sync_engine" where
  "inbound_worker_step e = (case se_forward e of
     Some op \<Rightarrow> forward_op op e
   | None \<Rightarrow> (case se_status e W_Inbound of
       Signalled \<Rightarrow> inbound_exit e
     | Listening \<Rightarrow> (case ch_items (se_inbound e) of
         [] \<Rightarrow> e
       | op # rest \<Rightarrow>
           forward_op op (count_metric (\<lambda>m. m\<lparr>mt_inbound_events := mt_inbound_events m @ [op_event_type op]\<rparr>)
             (e\<lparr>se_inbound := (se_inbound e)\<lparr>ch_items := rest\<rparr>\<rparr>)))
     | Joining \<Rightarrow>
         (if se_status e W_Batcher = Ended then set_status W_Inbound Ended (e\<lparr>se_inbound := ch_close\<rparr>) else e)
     | _ \<Rightarrow> e))"

text \<open>
  A turn of the batcher's task. Its first turn subscribes to the shutdown. The select prefers the shutdown to an
  operation and that to the ticker; the task ends with \<^verbatim>\<open>run\<close>, and the receiver with it.
\<close>

definition batcher_finish ::
  "unit result option \<times> 's batcher \<Rightarrow> ('s, 'd) sync_engine \<Rightarrow> ('s, 'd) sync_engine" where
  "batcher_finish x e = (case x of
     (None, b) \<Rightarrow> e\<lparr>se_batcher := b\<rparr>
   | (Some _, b) \<Rightarrow> set_status W_Batcher Ended (e\<lparr>se_batcher := b, se_batch := ch_close\<rparr>))"

definition batcher_task_step ::
  "'s db_api \<Rightarrow> task_outcome \<Rightarrow> ('s, 'd) sync_engine \<Rightarrow> ('s, 'd) sync_engine" where
  "batcher_task_step api oc e = (case se_status e W_Batcher of
     Starting \<Rightarrow> set_status W_Batcher Listening e
   | Signalled \<Rightarrow> batcher_finish (batcher_step api (Shutdown oc) (se_batcher e)) e
   | Listening \<Rightarrow> (case ch_items (se_batch e) of
       [] \<Rightarrow> batcher_finish (batcher_step api (Tick oc) (se_batcher e)) e
     | op # rest \<Rightarrow>
         batcher_finish (batcher_step api (Recv op oc) (se_batcher e)) (e\<lparr>se_batch := (se_batch e)\<lparr>ch_items := rest\<rparr>\<rparr>))
   | _ \<Rightarrow> e)"

fun entity_event_type :: "entity_id \<Rightarrow> string" where
  "entity_event_type (Ent_Node n) = ''vertex''"
| "entity_event_type (Ent_Edge n) = ''edge''"
| "entity_event_type Ent_Triple = ''triple''"
| "entity_event_type Ent_Unknown = ''other''"

text \<open>One message of the outbound worker: the second echo check, the write, the commit under the bridge's
  origin.\<close>

definition outbound_message ::
  "(f32 \<Rightarrow> f64) \<Rightarrow> 'd loro_api \<Rightarrow> change_event \<Rightarrow> ('s, 'd) sync_engine \<Rightarrow> ('s, 'd) sync_engine" where
  "outbound_message c api msg e =
     (let b = se_batcher e
      in if ce_epoch msg \<in> bt_epochs b
         then count_metric (count_echo ''outbound'') e
         else (case apply_change_event_to_loro c api msg (se_doc e, bt_maps b) of
             (Inl err, doc, maps) \<Rightarrow> e\<lparr>se_doc := doc, se_batcher := b\<lparr>bt_maps := maps\<rparr>\<rparr>
           | (Inr _, doc, maps) \<Rightarrow>
               count_metric (\<lambda>m. m\<lparr>mt_outbound_events :=
                   mt_outbound_events m @ [entity_event_type (ce_entity_id msg)]\<rparr>)
                 (e\<lparr>se_doc := l_commit api ORIGIN_GRAFEO_BRIDGE doc,
                    se_batcher := b\<lparr>bt_maps := maps, bt_health := map_option Suc (bt_health b)\<rparr>\<rparr>)))"

definition outbound_worker_step ::
  "(f32 \<Rightarrow> f64) \<Rightarrow> 'd loro_api \<Rightarrow> ('s, 'd) sync_engine \<Rightarrow> ('s, 'd) sync_engine" where
  "outbound_worker_step c api e = (case se_status e W_Outbound of
     Signalled \<Rightarrow> set_status W_Outbound Ended (e\<lparr>se_outbound := ch_close\<rparr>)
   | Listening \<Rightarrow> (case ch_items (se_outbound e) of
       [] \<Rightarrow> e
     | msg # rest \<Rightarrow> outbound_message c api msg (e\<lparr>se_outbound := (se_outbound e)\<lparr>ch_items := rest\<rparr>\<rparr>))
   | _ \<Rightarrow> e)"

text \<open>The poller: the events outside the side channel, and the pruning of the side channel.\<close>

definition poll_filter :: "epoch_id set \<Rightarrow> change_event list \<Rightarrow> change_event list" where
  "poll_filter epochs events = filter (\<lambda>ev. ce_epoch ev \<notin> epochs) events"

definition prune_epochs :: "epoch_id \<Rightarrow> epoch_id set \<Rightarrow> epoch_id set" where
  "prune_epochs last_ep epochs = {e \<in> epochs. saturating_sub last_ep EPOCH_RETENTION < e}"

text \<open>
  The loop over the events of a cycle. Each event is looked up in the side channel when its turn comes. A
  survivor is sent: the loop stops when the outbound channel is closed and is suspended when it is full, with the
  event in hand at the head of those that are left. That event has passed the check: with \<open>in_hand\<close> the loop goes
  on with sending it, and does not look it up again.
\<close>

datatype poll_result = Poll_Done | Poll_Closed | Poll_Full "change_event list"

fun poll_events :: "bool \<Rightarrow> change_event list \<Rightarrow> ('s, 'd) sync_engine \<Rightarrow> poll_result \<times> ('s, 'd) sync_engine" where
  "poll_events in_hand [] e = (Poll_Done, e)"
| "poll_events in_hand (ev # evs) e =
     (if \<not> in_hand \<and> ce_epoch ev \<in> bt_epochs (se_batcher e)
      then poll_events False evs (count_metric (count_echo ''outbound'') e)
      else if ch_closed (se_outbound e) then (Poll_Closed, e)
      else case try_send ev (se_outbound e) of
          (True, ch) \<Rightarrow> poll_events False evs (e\<lparr>se_outbound := ch\<rparr>)
        | (False, _) \<Rightarrow> (Poll_Full (ev # evs), e))"

definition poll_resume ::
  "bool \<Rightarrow> epoch_id \<Rightarrow> epoch_id \<Rightarrow> change_event list \<Rightarrow> ('s, 'd) sync_engine \<Rightarrow> ('s, 'd) sync_engine" where
  "poll_resume in_hand last_ep current events e = (case poll_events in_hand events e of
     (Poll_Done, e) \<Rightarrow> e\<lparr>se_poll := None, se_last_epoch := Some current,
       se_batcher := (se_batcher e)\<lparr>bt_epochs := prune_epochs last_ep (bt_epochs (se_batcher e))\<rparr>\<rparr>
   | (Poll_Closed, e) \<Rightarrow> set_status W_Poller Ended (e\<lparr>se_poll := None\<rparr>)
   | (Poll_Full rest, e) \<Rightarrow> e\<lparr>se_poll := Some (current, rest)\<rparr>)"

text \<open>What a turn of the poller works on: the cycle under way, or the one the log has for it.\<close>

definition poll_work :: "'s cdc_api \<Rightarrow> epoch_id \<Rightarrow> ('s, 'd) sync_engine \<Rightarrow> (epoch_id \<times> change_event list) option" where
  "poll_work cdc last_ep e = (case se_poll e of
     Some work \<Rightarrow> Some work
   | None \<Rightarrow>
       (let db = bt_db (se_batcher e); current = c_current_epoch cdc db
        in if current \<le> last_ep then None
           else case c_changes_between cdc last_ep current db of Inl err \<Rightarrow> None | Inr events \<Rightarrow> Some (current, events)))"

definition poll_cycle :: "'s cdc_api \<Rightarrow> epoch_id \<Rightarrow> ('s, 'd) sync_engine \<Rightarrow> ('s, 'd) sync_engine" where
  "poll_cycle cdc last_ep e = (case poll_work cdc last_ep e of
     None \<Rightarrow> e
   | Some (current, events) \<Rightarrow> poll_resume (se_poll e \<noteq> None) last_ep current events e)"

text \<open>
  A turn of the poller. The first reads the current epoch. A suspended cycle goes on without looking at the
  shutdown.
\<close>

definition poller_step :: "'s cdc_api \<Rightarrow> ('s, 'd) sync_engine \<Rightarrow> ('s, 'd) sync_engine" where
  "poller_step cdc e =
     (if se_status e W_Poller = Signalled \<and> se_poll e = None then set_status W_Poller Ended e
      else if se_status e W_Poller = Signalled \<or> se_status e W_Poller = Listening then
        (case se_last_epoch e of
           None \<Rightarrow> e\<lparr>se_last_epoch := Some (c_current_epoch cdc (bt_db (se_batcher e)))\<rparr>
         | Some last_ep \<Rightarrow> poll_cycle cdc last_ep e)
      else e)"

section \<open>Starting and stopping\<close>

text \<open>
  Three of the tasks subscribe to the shutdown before they are spawned; the batcher subscribes inside \<^verbatim>\<open>run\<close>.
\<close>

definition init_loro_subscriber :: "('s, 'd) sync_engine \<Rightarrow> ('s, 'd) sync_engine" where
  "init_loro_subscriber e = e\<lparr>se_subscribed := True\<rparr>"

definition spawn_inbound_worker :: "('s, 'd) sync_engine \<Rightarrow> ('s, 'd) sync_engine" where
  "spawn_inbound_worker e = set_status W_Batcher Starting (set_status W_Inbound Listening (e\<lparr>se_batch := ch_new\<rparr>))"

definition spawn_outbound_worker :: "('s, 'd) sync_engine \<Rightarrow> ('s, 'd) sync_engine" where
  "spawn_outbound_worker e = set_status W_Outbound Listening e"

definition spawn_cdc_poller :: "('s, 'd) sync_engine \<Rightarrow> ('s, 'd) sync_engine" where
  "spawn_cdc_poller e = set_status W_Poller Listening e"

definition spawn_all :: "('s, 'd) sync_engine \<Rightarrow> ('s, 'd) sync_engine" where
  "spawn_all e = spawn_cdc_poller (spawn_outbound_worker (spawn_inbound_worker (init_loro_subscriber e)))"

text \<open>The broadcast reaches the tasks that have subscribed, and no other.\<close>

definition receive_signal :: "worker_status \<Rightarrow> worker_status" where
  "receive_signal st = (if st = Listening then Signalled else st)"

definition engine_shutdown :: "('s, 'd) sync_engine \<Rightarrow> ('s, 'd) sync_engine" where
  "engine_shutdown e = e\<lparr>se_status := (\<lambda>w. receive_signal (se_status e w))\<rparr>"

lemma receive_signal_simps [simp]:
  "receive_signal st = Ended \<longleftrightarrow> st = Ended" "receive_signal st = Joining \<longleftrightarrow> st = Joining"
  "receive_signal st = Starting \<longleftrightarrow> st = Starting" "receive_signal st \<noteq> Listening"
  "receive_signal Listening = Signalled"
  by (simp_all add: receive_signal_def)

section \<open>Lemmas\<close>

definition room :: "'a channel \<Rightarrow> nat" where
  "room ch = (if ch_closed ch then 0 else CHANNEL_CAPACITY - length (ch_items ch))"

lemma send_ops_conv:
  "send_ops ops e =
     (let n = min (length ops) (room (se_inbound e))
      in e\<lparr>se_inbound := (se_inbound e)\<lparr>ch_items := ch_items (se_inbound e) @ take n ops\<rparr>,
           se_inbound_event_count := se_inbound_event_count e + of_nat n\<rparr>)"
proof (induction ops e rule: send_ops.induct)
  case (2 op ops e)
  show ?case
  proof (cases "room (se_inbound e)")
    case 0
    then have "try_send op (se_inbound e) = (False, se_inbound e)"
      by (auto simp: room_def try_send_def split: if_splits)
    with 0 show ?thesis by simp
  next
    case (Suc r)
    then have "try_send op (se_inbound e) = (True, (se_inbound e)\<lparr>ch_items := ch_items (se_inbound e) @ [op]\<rparr>)"
      and "room ((se_inbound e)\<lparr>ch_items := ch_items (se_inbound e) @ [op]\<rparr>) = r"
      by (auto simp: room_def try_send_def split: if_splits)
    with 2 Suc show ?thesis
      by (simp add: Let_def algebra_simps)
  qed
qed simp

lemma prune_keeps_recent:
  "e \<in> epochs \<Longrightarrow> last_ep < e \<Longrightarrow> e \<in> prune_epochs last_ep epochs"
  by (auto simp: prune_epochs_def saturating_sub_def word_less_nat_alt unat_sub word_le_nat_alt not_less)

text \<open>Property C20 (subscriber_handler_filters_and_forwards). A commit the bridge made itself (by either of
  its two origins) reaches no channel and is counted as filtered. Any other commit is translated,
  and its operations enter the inbound channel in order as far as there is room; the event counter
  grows by exactly the number that entered, and nothing else of the engine changes.\<close>

theorem subscriber_handler_filters_and_forwards:
  "subscriber_handler ev e =
     (if de_origin ev \<in> {ORIGIN_GRAFEO_BRIDGE, ORIGIN_LORO_BRIDGE}
      then e\<lparr>se_inbound_filtered_count := se_inbound_filtered_count e + 1,
             se_metrics := map_option (count_echo ''inbound'') (se_metrics e)\<rparr>
      else (let ops = translate_diff_event ev; n = min (length ops) (room (se_inbound e))
            in e\<lparr>se_inbound := (se_inbound e)\<lparr>ch_items := ch_items (se_inbound e) @ take n ops\<rparr>,
                 se_inbound_event_count := se_inbound_event_count e + of_nat n\<rparr>))"
  by (simp add: subscriber_handler_def send_ops_conv count_metric_def Let_def)

lemma poll_filter_simps [simp]:
  "poll_filter es [] = []"
  "poll_filter es (ev # evs) = (if ce_epoch ev \<in> es then poll_filter es evs else ev # poll_filter es evs)"
  by (simp_all add: poll_filter_def)

lemma count_metric_simps [simp]:
  "se_outbound (count_metric f e) = se_outbound e" "se_batcher (count_metric f e) = se_batcher e"
  "se_inbound (count_metric f e) = se_inbound e" "se_batch (count_metric f e) = se_batch e"
  "se_status (count_metric f e) = se_status e" "se_poll (count_metric f e) = se_poll e"
  "se_last_epoch (count_metric f e) = se_last_epoch e" "se_forward (count_metric f e) = se_forward e"
  "se_doc (count_metric f e) = se_doc e"
  by (simp_all add: count_metric_def)

lemma set_status_simps [simp]:
  "se_outbound (set_status w st e) = se_outbound e" "se_batcher (set_status w st e) = se_batcher e"
  "se_inbound (set_status w st e) = se_inbound e" "se_batch (set_status w st e) = se_batch e"
  "se_status (set_status w st e) = (se_status e)(w := st)" "se_poll (set_status w st e) = se_poll e"
  "se_last_epoch (set_status w st e) = se_last_epoch e" "se_forward (set_status w st e) = se_forward e"
  "se_doc (set_status w st e) = se_doc e"
  by (simp_all add: set_status_def)

lemma poll_events_frame:
  "poll_events h evs e = (r, e') \<Longrightarrow> se_batcher e' = se_batcher e \<and> se_status e' = se_status e \<and>
     se_last_epoch e' = se_last_epoch e \<and> se_inbound e' = se_inbound e \<and> se_batch e' = se_batch e \<and>
     se_forward e' = se_forward e \<and> se_doc e' = se_doc e \<and> ch_closed (se_outbound e') = ch_closed (se_outbound e)"
  by (induction h evs e rule: poll_events.induct) (auto simp: try_send_def split: if_splits)

text \<open>The events a cycle still has to send: an event in hand is one of them whatever the side channel holds.\<close>

definition poll_survivors :: "bool \<Rightarrow> epoch_id set \<Rightarrow> change_event list \<Rightarrow> change_event list" where
  "poll_survivors in_hand epochs events =
     (if in_hand then take 1 events @ poll_filter epochs (drop 1 events) else poll_filter epochs events)"

lemma poll_survivors_simps [simp]:
  "poll_survivors h es [] = []"
  "poll_survivors h es (ev # evs) =
     (if \<not> h \<and> ce_epoch ev \<in> es then poll_survivors False es evs else ev # poll_survivors False es evs)"
  by (simp_all add: poll_survivors_def)

text \<open>On an open channel the loop sends as many survivors as there is room for and keeps the rest.\<close>

lemma poll_events_open:
  assumes "\<not> ch_closed (se_outbound e)" and "poll_events h evs e = (r, e')"
    and "survivors = poll_survivors h (bt_epochs (se_batcher e)) evs" and "k = room (se_outbound e)"
  shows "ch_items (se_outbound e') = ch_items (se_outbound e) @ take k survivors \<and>
    (if length survivors \<le> k then r = Poll_Done
     else \<exists>ev rest. r = Poll_Full (ev # rest) \<and>
       ev # poll_survivors False (bt_epochs (se_batcher e)) rest = drop k survivors)"
  using assms
proof (induction h evs e arbitrary: survivors k rule: poll_events.induct)
  case (1 h e)
  then show ?case by simp
next
  case (2 h ev evs e)
  show ?case
  proof (cases "\<not> h \<and> ce_epoch ev \<in> bt_epochs (se_batcher e)")
    case True
    with 2(3-6) 2(1) [OF True, of survivors k] show ?thesis by (auto split: if_splits)
  next
    case new: False
    show ?thesis
    proof (cases "room (se_outbound e)")
      case 0
      then have "try_send ev (se_outbound e) = (False, se_outbound e)"
        using 2(3) by (auto simp: room_def try_send_def)
      with 0 new 2(3-6) show ?thesis by auto
    next
      case (Suc n)
      let ?ch = "(se_outbound e)\<lparr>ch_items := ch_items (se_outbound e) @ [ev]\<rparr>"
      from Suc have s: "try_send ev (se_outbound e) = (True, ?ch)" and n: "room ?ch = n"
        using 2(3) by (auto simp: room_def try_send_def)
      from new s 2(4) 2(3) have "poll_events False evs (e\<lparr>se_outbound := ?ch\<rparr>) = (r, e')" by (auto split: if_splits)
      from 2(2) [OF new 2(3) s [symmetric] refl _ this refl refl] show ?thesis
        using 2(3,5,6) new n Suc by (auto split: if_splits)
    qed
  qed
qed

text \<open>Property C7 (poll_cycle_forwards_foreign_events). A turn of the poller on an open channel appends, in order and
  as far as there is room, the events of a new cycle whose epoch is not in the side channel; a suspended cycle first
  sends the event it has in hand, which has passed that check before, even if its epoch was recorded meanwhile, and
  then goes on like a new one. When all of them fit the cycle ends: the poller moves on to the current epoch, and
  pruning forgets only epochs at or below the old position, so every recorded epoch a later cycle can still meet stays
  filtered. Otherwise the cycle is suspended with the next event in hand and exactly the rest behind it. A turn that
  finds no newer epoch, or whose read fails, changes nothing and is repeated.\<close>

theorem poll_cycle_forwards_foreign_events:
  assumes "\<not> ch_closed (se_outbound e)" and "poll_cycle cdc last_ep e = e'"
  shows "case poll_work cdc last_ep e of
      None \<Rightarrow> e' = e
    | Some (current, events) \<Rightarrow>
        (let epochs = bt_epochs (se_batcher e); foreign = filter (\<lambda>ev. ce_epoch ev \<notin> epochs);
             survivors = (if se_poll e = None then foreign events else take 1 events @ foreign (drop 1 events));
             k = CHANNEL_CAPACITY - length (ch_items (se_outbound e))
         in ch_items (se_outbound e') = ch_items (se_outbound e) @ take k survivors \<and>
            (if length survivors \<le> k
             then se_last_epoch e' = Some current \<and> se_poll e' = None \<and> bt_epochs (se_batcher e') \<subseteq> epochs \<and>
                  (\<forall>x \<in> epochs. last_ep < x \<longrightarrow> x \<in> bt_epochs (se_batcher e'))
             else se_last_epoch e' = se_last_epoch e \<and> bt_epochs (se_batcher e') = epochs \<and>
                  (\<exists>ev rest. se_poll e' = Some (current, ev # rest) \<and> ev # foreign rest = drop k survivors)))"
proof (cases "poll_work cdc last_ep e")
  case None
  with assms(2) show ?thesis by (simp add: poll_cycle_def)
next
  case (Some work)
  obtain current events where w: "work = (current, events)" by (cases work)
  let ?h = "se_poll e \<noteq> None"
  obtain r e1 where r: "poll_events ?h events e = (r, e1)" by fastforce
  let ?s = "poll_survivors ?h (bt_epochs (se_batcher e)) events"
  let ?k = "CHANNEL_CAPACITY - length (ch_items (se_outbound e))"
  have room: "?k = room (se_outbound e)" using assms(1) by (simp add: room_def)
  note frame = poll_events_frame [OF r] and sent = poll_events_open [OF assms(1) r refl room]
  have goal: "ch_items (se_outbound e') = ch_items (se_outbound e) @ take ?k ?s \<and>
      (if length ?s \<le> ?k
       then se_last_epoch e' = Some current \<and> se_poll e' = None \<and>
         bt_epochs (se_batcher e') = prune_epochs last_ep (bt_epochs (se_batcher e))
       else se_last_epoch e' = se_last_epoch e \<and> bt_epochs (se_batcher e') = bt_epochs (se_batcher e) \<and>
         (\<exists>ev rest. se_poll e' = Some (current, ev # rest) \<and>
            ev # poll_survivors False (bt_epochs (se_batcher e)) rest = drop ?k ?s))"
    using assms(2) Some w r frame sent by (auto simp: poll_cycle_def poll_resume_def simp del: poll_survivors_simps)
  have "prune_epochs last_ep (bt_epochs (se_batcher e)) \<subseteq> bt_epochs (se_batcher e)" by (auto simp: prune_epochs_def)
  moreover have "?s = (if se_poll e = None then poll_filter (bt_epochs (se_batcher e)) events
      else take 1 events @ poll_filter (bt_epochs (se_batcher e)) (drop 1 events))"
    and "poll_survivors False (bt_epochs (se_batcher e)) = poll_filter (bt_epochs (se_batcher e))"
    by (simp_all add: poll_survivors_def fun_eq_iff)
  ultimately show ?thesis
    using goal Some w by (auto simp: Let_def prune_keeps_recent simp del: take_append simp flip: poll_filter_def)
qed

theorem poll_cycle_forwards_foreign_events_witness:
  "let ev = (\<lambda>n. \<lparr>ce_entity_id = Ent_Node n, ce_kind = Ch_Create, ce_epoch = n, ce_after = None,
         ce_src_id = None, ce_dst_id = None, ce_edge_type = None\<rparr>);
       cdc = \<lparr>c_current_epoch = (\<lambda>s. 9), c_changes_between = (\<lambda>a b s. Inr [ev 8, ev 9])\<rparr>;
       e = engine_new () ([] :: table_doc) 4 100 None None;
       e = e\<lparr>se_batcher := (se_batcher e)\<lparr>bt_epochs := {8}\<rparr>\<rparr>
   in ch_items (se_outbound (poll_cycle cdc 7 e)) = [ev 9] \<and>
      8 \<in> bt_epochs (se_batcher (poll_cycle cdc 7 e)) \<and>
      ch_items (se_outbound (poll_cycle cdc 7 (e\<lparr>se_poll := Some (9, [ev 8, ev 8])\<rparr>))) = [ev 8]"
proof -
  let ?ev = "\<lambda>n. \<lparr>ce_entity_id = Ent_Node n, ce_kind = Ch_Create, ce_epoch = n, ce_after = None,
     ce_src_id = None, ce_dst_id = None, ce_edge_type = None\<rparr>"
  let ?cdc = "\<lparr>c_current_epoch = (\<lambda>s. 9), c_changes_between = (\<lambda>a b s. Inr [?ev 8, ?ev 9])\<rparr>"
  let ?e0 = "engine_new () ([] :: table_doc) 4 100 None None"
  let ?e = "?e0\<lparr>se_batcher := (se_batcher ?e0)\<lparr>bt_epochs := {8}\<rparr>\<rparr>"
  have "poll_work ?cdc 7 ?e = Some (9, [?ev 8, ?ev 9])"
    by (simp add: poll_work_def engine_new_def)
  moreover have "poll_work ?cdc 7 (?e\<lparr>se_poll := Some (9, [?ev 8, ?ev 8])\<rparr>) = Some (9, [?ev 8, ?ev 8])"
    by (simp add: poll_work_def)
  ultimately show ?thesis
    using poll_cycle_forwards_foreign_events [of ?e ?cdc 7, OF _ refl]
      poll_cycle_forwards_foreign_events [of "?e\<lparr>se_poll := Some (9, [?ev 8, ?ev 8])\<rparr>" ?cdc 7, OF _ refl]
    by (simp add: Let_def engine_new_def ch_new_def CHANNEL_CAPACITY_def)
qed

end
