(* ===== verification/Echo.thy ===== *)
theory Echo
  imports Sync_Engine
begin

text \<open>
  Echo prevention between the two directions of the sync engine, as an interleaving of the threads
  involved: the blocking task of a flush (which first commits its transaction and only then records
  the epoch in the side channel, \<^verbatim>\<open>src/bridge/batcher.rs\<close> lines 309 to 315), other writers of the
  database, the CDC poller and the outbound worker (\<^verbatim>\<open>src/bridge/sync_engine.rs\<close>). The filter and the
  pruning are the engine's own \<open>poll_filter\<close> and \<open>prune_epochs\<close>.

  A committed transaction is one change event of its epoch. \<open>ec_bridge\<close> remembers which epochs the bridge
  committed, to state the property; no step reads it.
\<close>

section \<open>The interleaving\<close>

record echo_state =
  ec_log :: "change_event list"
  ec_bridge :: "epoch_id set"
  ec_unrecorded :: "epoch_id set"
  ec_epochs :: "epoch_id set"
  ec_last :: epoch_id
  ec_outbound :: "change_event list"
  ec_written :: "change_event list"

definition echo_init :: "epoch_id \<Rightarrow> echo_state" where
  "echo_init start = \<lparr>ec_log = [], ec_bridge = {}, ec_unrecorded = {}, ec_epochs = {}, ec_last = start,
     ec_outbound = [], ec_written = []\<rparr>"

text \<open>Commit epochs increase: a commit is newer than the poller's position and every earlier commit.\<close>

definition newer :: "epoch_id \<Rightarrow> echo_state \<Rightarrow> bool" where
  "newer x s \<longleftrightarrow> ec_last s < x \<and> (\<forall>ev \<in> set (ec_log s). ce_epoch ev < x)"

datatype echo_label = Bridge_Commit | Bridge_Record | User_Commit | Poll | Deliver

inductive echo_step :: "echo_label \<Rightarrow> echo_state \<Rightarrow> echo_state \<Rightarrow> bool" where
  bridge_commit: "newer (ce_epoch ev) s \<Longrightarrow>
    echo_step Bridge_Commit s (s\<lparr>ec_log := ec_log s @ [ev], ec_bridge := insert (ce_epoch ev) (ec_bridge s),
      ec_unrecorded := insert (ce_epoch ev) (ec_unrecorded s)\<rparr>)"
| bridge_record: "x \<in> ec_unrecorded s \<Longrightarrow>
    echo_step Bridge_Record s (s\<lparr>ec_epochs := insert x (ec_epochs s), ec_unrecorded := ec_unrecorded s - {x}\<rparr>)"
| user_commit: "newer (ce_epoch ev) s \<Longrightarrow>
    echo_step User_Commit s (s\<lparr>ec_log := ec_log s @ [ev]\<rparr>)"
| poll: "\<forall>ev \<in> set (ec_log s). ce_epoch ev \<le> current \<Longrightarrow> ec_last s < current \<Longrightarrow>
    echo_step Poll s (s\<lparr>
      ec_outbound := ec_outbound s @
        poll_filter (ec_epochs s) (filter (\<lambda>ev. ec_last s < ce_epoch ev) (ec_log s)),
      ec_epochs := prune_epochs (ec_last s) (ec_epochs s),
      ec_last := current\<rparr>)"
| deliver: "ec_outbound s = ev # rest \<Longrightarrow>
    echo_step Deliver s (s\<lparr>ec_outbound := rest,
      ec_written := (if ce_epoch ev \<in> ec_epochs s then ec_written s else ec_written s @ [ev])\<rparr>)"

inductive_cases echo_stepE: "echo_step l s s'"

text \<open>The states reachable by steps that a schedule \<open>ok\<close> admits.\<close>

inductive echo_reach :: "(echo_label \<Rightarrow> echo_state \<Rightarrow> bool) \<Rightarrow> epoch_id \<Rightarrow> echo_state \<Rightarrow> bool"
  for ok start where
  init: "echo_reach ok start (echo_init start)"
| step: "echo_reach ok start s \<Longrightarrow> ok l s \<Longrightarrow> echo_step l s s' \<Longrightarrow> echo_reach ok start s'"

text \<open>No poll while a flush is between its commit and the recording of the epoch.\<close>

definition poll_not_racing :: "echo_label \<Rightarrow> echo_state \<Rightarrow> bool" where
  "poll_not_racing l s \<longleftrightarrow> (l = Poll \<longrightarrow> ec_unrecorded s = {})"

section \<open>The invariant\<close>

definition echo_inv :: "echo_state \<Rightarrow> bool" where
  "echo_inv s \<longleftrightarrow>
     (\<forall>x \<in> ec_bridge s. ec_last s < x \<longrightarrow> x \<in> ec_epochs s \<union> ec_unrecorded s) \<and>
     ec_unrecorded s \<subseteq> ec_bridge s \<and>
     (\<forall>x \<in> ec_bridge s. \<exists>ev \<in> set (ec_log s). ce_epoch ev = x) \<and>
     (\<forall>ev \<in> set (ec_outbound s @ ec_written s). ev \<in> set (ec_log s) \<and> ce_epoch ev \<notin> ec_bridge s)"

lemma echo_inv_step:
  assumes "echo_inv s" and "poll_not_racing l s" and "echo_step l s s'"
  shows "echo_inv s'"
  using assms(3)
proof cases
  case (bridge_commit ev)
  have old: "ce_epoch e \<noteq> ce_epoch ev" if "e \<in> set (ec_outbound s @ ec_written s)" for e
  proof -
    have "e \<in> set (ec_log s)"
      using that assms(1) unfolding echo_inv_def by blast
    with bridge_commit(3) have "ce_epoch e < ce_epoch ev"
      by (simp add: newer_def)
    then show ?thesis by simp
  qed
  show ?thesis
    unfolding bridge_commit(2)
    using assms(1) old by (simp add: echo_inv_def ball_Un) blast
next
  case (bridge_record x)
  with assms(1) show ?thesis by (auto simp: echo_inv_def)
next
  case (user_commit ev)
  with assms(1) show ?thesis by (fastforce simp: echo_inv_def newer_def)
next
  case (poll current)
  with assms(1,2) show ?thesis
    by (auto simp: echo_inv_def poll_not_racing_def poll_filter_def prune_keeps_recent)
next
  case (deliver ev rest)
  with assms(1) show ?thesis by (auto simp: echo_inv_def)
qed

lemma echo_inv_reach: "echo_reach poll_not_racing start s \<Longrightarrow> echo_inv s"
  by (induction rule: echo_reach.induct)
    (auto simp: echo_init_def intro: echo_inv_step, simp add: echo_inv_def)

section \<open>Properties\<close>

text \<open>Property C4 (no_echo_without_racing_poll). If no poll falls between a flush's commit and the recording of
  its epoch, the side channel, its pruning and the worker's second check keep every change the
  bridge committed out of the Loro document, whatever the interleaving of the other steps; what is
  written to Loro are changes of the log.\<close>

theorem no_echo_without_racing_poll:
  assumes "echo_reach poll_not_racing start s" and "ev \<in> set (ec_written s)"
  shows "ce_epoch ev \<notin> ec_bridge s \<and> ev \<in> set (ec_log s)"
  using echo_inv_reach [OF assms(1)] assms(2) by (simp add: echo_inv_def)

definition sample_event :: "epoch_id \<Rightarrow> change_event" where
  "sample_event x = \<lparr>ce_entity_id = Ent_Node 1, ce_kind = Ch_Create, ce_epoch = x, ce_after = None,
     ce_src_id = None, ce_dst_id = None, ce_edge_type = None\<rparr>"

theorem no_echo_without_racing_poll_witness:
  "\<exists>s. echo_reach poll_not_racing 0 s \<and> 1 \<in> ec_bridge s \<and> set (ec_written s) = {sample_event 2} \<and>
     ce_epoch (sample_event 2) \<notin> ec_bridge s"
proof -
  let ?s1 = "(echo_init 0)\<lparr>ec_log := [sample_event 1], ec_bridge := {1}, ec_unrecorded := {1}\<rparr>"
  let ?s2 = "?s1\<lparr>ec_epochs := {1}, ec_unrecorded := {}\<rparr>"
  let ?s3 = "?s2\<lparr>ec_log := [sample_event 1, sample_event 2]\<rparr>"
  let ?s4 = "?s3\<lparr>ec_outbound := [sample_event 2], ec_epochs := prune_epochs 0 {1}, ec_last := 2\<rparr>"
  let ?s5 = "?s4\<lparr>ec_outbound := [], ec_written := [sample_event 2]\<rparr>"
  have 1: "echo_step Bridge_Commit (echo_init 0) ?s1"
    using echo_step.bridge_commit [of "sample_event 1" "echo_init 0"]
    by (simp add: newer_def echo_init_def sample_event_def)
  have 2: "echo_step Bridge_Record ?s1 ?s2"
    using echo_step.bridge_record [of 1 ?s1] by (simp add: echo_init_def)
  have 3: "echo_step User_Commit ?s2 ?s3"
    using echo_step.user_commit [of "sample_event 2" ?s2]
    by (simp add: newer_def echo_init_def sample_event_def)
  have 4: "echo_step Poll ?s3 ?s4"
    using echo_step.poll [of ?s3 2] by (simp add: echo_init_def sample_event_def poll_filter_def)
  have 5: "echo_step Deliver ?s4 ?s5"
    using echo_step.deliver [of ?s4 "sample_event 2" "[]"]
    by (simp add: echo_init_def sample_event_def prune_epochs_def)
  have r: "echo_reach poll_not_racing 0 ?s5"
    by (rule step [OF step [OF step [OF step [OF step [OF init _ 1] _ 2] _ 3] _ 4] _ 5])
      (simp_all add: poll_not_racing_def)
  show ?thesis
    using no_echo_without_racing_poll [OF r, of "sample_event 2"] r
    by (intro exI [of _ ?s5]) (simp add: sample_event_def)
qed

text \<open>The restriction is needed: the code commits before it records the epoch,
  and a poll and a delivery that fall in between write the bridge's own change back to Loro. The
  unrestricted interleaving reaches such a state.\<close>

theorem racing_poll_echoes:
  "\<exists>s ev. echo_reach (\<lambda>l s. True) 0 s \<and> ev \<in> set (ec_written s) \<and> ce_epoch ev \<in> ec_bridge s"
proof -
  let ?s1 = "(echo_init 0)\<lparr>ec_log := [sample_event 1], ec_bridge := {1}, ec_unrecorded := {1}\<rparr>"
  let ?s2 = "?s1\<lparr>ec_outbound := [sample_event 1], ec_epochs := prune_epochs 0 {}, ec_last := 1\<rparr>"
  let ?s3 = "?s2\<lparr>ec_outbound := [], ec_written := [sample_event 1]\<rparr>"
  have 1: "echo_step Bridge_Commit (echo_init 0) ?s1"
    using echo_step.bridge_commit [of "sample_event 1" "echo_init 0"]
    by (simp add: newer_def echo_init_def sample_event_def)
  have 2: "echo_step Poll ?s1 ?s2"
    using echo_step.poll [of ?s1 1] by (simp add: echo_init_def sample_event_def poll_filter_def)
  have 3: "echo_step Deliver ?s2 ?s3"
    using echo_step.deliver [of ?s2 "sample_event 1" "[]"]
    by (simp add: echo_init_def sample_event_def prune_epochs_def)
  have "echo_reach (\<lambda>l s. True) 0 ?s3"
    by (rule step [OF step [OF step [OF init _ 1] _ 2] _ 3]) simp_all
  then show ?thesis
    by (intro exI [of _ ?s3] exI [of _ "sample_event 1"]) (simp add: sample_event_def)
qed

end
