(* ===== verification/Dfs3.thy ===== *)
theory Dfs3
  imports Prelude
begin

text \<open>
  Three-colour depth-first search as a step relation, the common core of the two cycle checks of the
  repository (\<^verbatim>\<open>validate_acyclic\<close> of \<^verbatim>\<open>src/schema/edge.rs\<close> and \<^verbatim>\<open>has_cycle\<close> of
  \<^verbatim>\<open>src/observability/mod.rs\<close>). A configuration is the colouring and the explicit stack, each frame
  with the neighbours still to visit. The locale fixes the neighbour function; its lemmas are what
  both checks use.
\<close>

datatype colour = White | Gray | Black

type_synonym 'n dfs_cfg = "('n \<Rightarrow> colour) \<times> ('n \<times> 'n list) list"

inductive dfs_step :: "('n \<Rightarrow> 'n list) \<Rightarrow> 'n dfs_cfg \<Rightarrow> 'n dfs_cfg \<Rightarrow> bool" for nbrs where
  descend: "col z = White \<Longrightarrow>
    dfs_step nbrs (col, (x, z # rest) # st) (col(z := Gray), (z, nbrs z) # (x, rest) # st)"
| skip: "col z = Black \<Longrightarrow> dfs_step nbrs (col, (x, z # rest) # st) (col, (x, rest) # st)"
| finish: "dfs_step nbrs (col, (x, []) # st) (col(x := Black), st)"

inductive_cases dfs_stepE: "dfs_step nbrs c c'"

text \<open>The configuration in which the search reports the back edge from \<open>x\<close> to \<open>z\<close>.\<close>

definition back_edge :: "'n dfs_cfg \<Rightarrow> 'n \<Rightarrow> 'n \<Rightarrow> bool" where
  "back_edge c x z \<longleftrightarrow> (\<exists>rest st. snd c = (x, z # rest) # st \<and> fst c z = Gray)"

text \<open>Consecutive frames of the stack, the top first, are joined by an edge.\<close>

fun frames_ok :: "('n \<Rightarrow> 'n list) \<Rightarrow> ('n \<Rightarrow> colour) \<Rightarrow> 'n option \<Rightarrow> ('n \<times> 'n list) list \<Rightarrow> bool" where
  "frames_ok nbrs col ab [] \<longleftrightarrow> True"
| "frames_ok nbrs col ab ((x, rest) # st) \<longleftrightarrow>
     set rest \<subseteq> set (nbrs x) \<and>
     (\<forall>z \<in> set (nbrs x). z \<in> set rest \<or> col z = Black \<or> ab = Some z) \<and>
     (\<forall>z. ab = Some z \<longrightarrow> z \<in> set (nbrs x)) \<and>
     frames_ok nbrs col (Some x) st"

locale neighbours =
  fixes nbrs :: "'n \<Rightarrow> 'n list"
begin

definition edges :: "('n \<times> 'n) set" where
  "edges = {(a, b). b \<in> set (nbrs a)}"

definition dfs_inv :: "'n dfs_cfg \<Rightarrow> bool" where
  "dfs_inv c \<longleftrightarrow> (case c of (col, st) \<Rightarrow>
     distinct (map fst st) \<and>
     (\<forall>n. col n = Gray \<longleftrightarrow> n \<in> fst ` set st) \<and>
     frames_ok nbrs col None st \<and>
     (\<forall>n z. col n = Black \<longrightarrow> z \<in> set (nbrs n) \<longrightarrow> col z = Black) \<and>
     (\<forall>n. col n = Black \<longrightarrow> (n, n) \<notin> edges\<^sup>+))"

lemma black_closed:
  assumes "\<forall>n z. col n = Black \<longrightarrow> z \<in> set (nbrs n) \<longrightarrow> col z = Black"
    and "(a, b) \<in> edges\<^sup>*" and "col a = Black"
  shows "col b = Black"
  using assms(2,3) by (induction rule: rtrancl_induct) (use assms(1) in \<open>auto simp: edges_def\<close>)

lemma frames_ok_mono:
  "frames_ok nbrs col ab st \<Longrightarrow> \<forall>n. col n = Black \<longrightarrow> col' n = Black \<Longrightarrow> frames_ok nbrs col' ab st"
  by (induction nbrs col ab st rule: frames_ok.induct) auto

lemma dfs_inv_start:
  assumes "dfs_inv (col, [])" and "col r = White"
  shows "dfs_inv (col(r := Gray), [(r, nbrs r)])"
  using assms by (auto simp: dfs_inv_def)

lemma dfs_inv_step:
  assumes "dfs_inv c" and "dfs_step nbrs c c'"
  shows "dfs_inv c'"
  using assms(2)
proof cases
  case (descend col z x rest st)
  then have inv: "dfs_inv (col, (x, z # rest) # st)" and z: "col z = White"
    using assms(1) by simp_all
  from inv have "frames_ok nbrs col (Some x) st"
    by (simp add: dfs_inv_def)
  then have "frames_ok nbrs (col(z := Gray)) (Some x) st"
    by (rule frames_ok_mono) (simp add: z)
  moreover have "z \<notin> fst ` set ((x, rest) # st)"
  proof
    assume "z \<in> fst ` set ((x, rest) # st)"
    then have "z \<in> fst ` set ((x, z # rest) # st)" by simp
    with inv have "col z = Gray" unfolding dfs_inv_def prod.case by blast
    with z show False by simp
  qed
  ultimately show ?thesis
    using inv z unfolding descend(2) by (auto simp: dfs_inv_def)
next
  case (skip col z x rest st)
  with assms(1) show ?thesis by (auto simp: dfs_inv_def)
next
  case (finish col x st)
  then have inv: "dfs_inv (col, (x, []) # st)" using assms(1) by simp
  then have closed: "\<forall>n z. col n = Black \<longrightarrow> z \<in> set (nbrs n) \<longrightarrow> col z = Black"
    and succ: "\<forall>z \<in> set (nbrs x). col z = Black" and x: "col x = Gray"
    and ns: "x \<notin> fst ` set st"
    by (auto simp: dfs_inv_def)
  have "(x, x) \<notin> edges\<^sup>+"
  proof
    assume "(x, x) \<in> edges\<^sup>+"
    then obtain z where "(x, z) \<in> edges" "(z, x) \<in> edges\<^sup>*"
      by (meson tranclD)
    with succ have "col x = Black"
      using black_closed [OF closed] by (auto simp: edges_def)
    with x show False by simp
  qed
  moreover have "frames_ok nbrs (col(x := Black)) None st"
  proof (cases st)
    case (Cons f st')
    obtain y rest where f: "f = (y, rest)" by (cases f)
    with Cons inv have "frames_ok nbrs col (Some y) st'" by (simp add: dfs_inv_def)
    then have "frames_ok nbrs (col(x := Black)) (Some y) st'"
      by (rule frames_ok_mono) simp
    with Cons f inv show ?thesis by (auto simp: dfs_inv_def)
  qed simp
  ultimately show ?thesis
    using inv closed succ ns unfolding finish(2) by (auto simp: dfs_inv_def)
qed

lemma dfs_inv_steps:
  assumes "(dfs_step nbrs)\<^sup>*\<^sup>* c c'" and "dfs_inv c"
  shows "dfs_inv c'"
  using assms by (induction rule: rtranclp_induct) (auto intro: dfs_inv_step)

text \<open>Black stays black.\<close>

lemma dfs_step_black:
  assumes "dfs_step nbrs c c'" and "fst c n = Black"
  shows "fst c' n = Black"
  using assms by cases auto

lemma dfs_steps_black:
  assumes "(dfs_step nbrs)\<^sup>*\<^sup>* c c'" and "fst c n = Black"
  shows "fst c' n = Black"
  using assms by (induction rule: rtranclp_induct) (auto intro: dfs_step_black)

lemma dfs_steps_seen:
  assumes "(dfs_step nbrs)\<^sup>*\<^sup>* c c'" and "fst c n \<noteq> White"
  shows "fst c' n \<noteq> White"
  using assms by (induction rule: rtranclp_induct) (auto elim!: dfs_stepE split: if_splits)

text \<open>Every frame below the top leads to the top.\<close>

lemma frames_path:
  assumes "frames_ok nbrs col (Some x) st" and "n \<in> fst ` set st"
  shows "(n, x) \<in> edges\<^sup>+"
  using assms
proof (induction st arbitrary: x)
  case (Cons f st)
  obtain y rest where f: "f = (y, rest)" by (cases f)
  with Cons.prems have yx: "(y, x) \<in> edges" and fr: "frames_ok nbrs col (Some y) st"
    by (auto simp: edges_def)
  show ?case
  proof (cases "n = y")
    case True
    with yx show ?thesis by blast
  next
    case False
    with Cons.prems f have "n \<in> fst ` set st" by auto
    from Cons.IH [OF fr this] yx show ?thesis by (rule trancl_into_trancl)
  qed
qed simp

lemma back_edge_cycle:
  assumes "dfs_inv c" and "back_edge c x z"
  shows "(x, z) \<in> edges \<and> (z, z) \<in> edges\<^sup>+"
proof -
  obtain col rest st where c: "c = (col, (x, z # rest) # st)" and z: "col z = Gray"
    using assms(2) unfolding back_edge_def by (metis prod.collapse)
  from assms(1) c have xz: "(x, z) \<in> edges" and fr: "frames_ok nbrs col (Some x) st"
    by (auto simp: dfs_inv_def edges_def)
  from assms(1) c z have "z \<in> fst ` set ((x, z # rest) # st)"
    by (auto simp: dfs_inv_def)
  then have "z = x \<or> z \<in> fst ` set st" by auto
  then have "(z, z) \<in> edges\<^sup>+"
    using xz frames_path [OF fr, of z] by (auto intro: trancl_into_trancl)
  with xz show ?thesis ..
qed

text \<open>When the stack is empty again, the nodes coloured black lie on no cycle.\<close>

lemma dfs_inv_black_acyclic: "dfs_inv (col, st) \<Longrightarrow> col n = Black \<Longrightarrow> (n, n) \<notin> edges\<^sup>+"
  by (auto simp: dfs_inv_def)

lemma dfs_inv_no_gray: "dfs_inv (col, []) \<Longrightarrow> col n \<noteq> Gray"
  by (auto simp: dfs_inv_def)

lemma dfs_inv_init: "dfs_inv (\<lambda>n. White, [])"
  by (auto simp: dfs_inv_def)

end

end
