(* ===== verification/Tree_Guard.thy ===== *)
theory Tree_Guard
  imports Errors
begin

text \<open>
  The native cycle guard of \<^verbatim>\<open>src/schema/tree.rs\<close> (invariant I14): a map from node keys to parent keys,
  and the walk up the parent chain that decides whether a move would close a cycle. The walk is a Rust
  \<^verbatim>\<open>loop\<close> with no bound, so it is a \<open>partial_function\<close>: \<open>None\<close> is the loop that never ends.
\<close>

section \<open>Model\<close>

type_synonym parents = "(string, string) hmap"

record cycle_guard =
  parent_of :: parents

datatype cycle_error = CycleError string string

definition guard_new :: cycle_guard where
  "guard_new = \<lparr>parent_of = []\<rparr>"

partial_function (option) walk_up :: "parents \<Rightarrow> string \<Rightarrow> string \<Rightarrow> bool option" where
  "walk_up m node cur =
     (if cur = node then Some True
      else case hm_get m cur of
        Some p \<Rightarrow> walk_up m node p
      | None \<Rightarrow> Some False)"

definition would_create_cycle :: "cycle_guard \<Rightarrow> string \<Rightarrow> string \<Rightarrow> bool option" where
  "would_create_cycle g node new_parent =
     (if node = new_parent then Some True else walk_up (parent_of g) node new_parent)"

text \<open>\<open>None\<close>: the call does not return.\<close>

definition apply_move :: "string \<Rightarrow> string \<Rightarrow> cycle_guard \<Rightarrow> ((cycle_error + unit) \<times> cycle_guard) option" where
  "apply_move node new_parent g = (case would_create_cycle g node new_parent of
     None \<Rightarrow> None
   | Some True \<Rightarrow> Some (Inl (CycleError node new_parent), g)
   | Some False \<Rightarrow> Some (Inr (), g\<lparr>parent_of := hm_insert node new_parent (parent_of g)\<rparr>))"

definition record_parent_unchecked :: "string \<Rightarrow> string \<Rightarrow> cycle_guard \<Rightarrow> cycle_guard" where
  "record_parent_unchecked node parent g = g\<lparr>parent_of := hm_insert node parent (parent_of g)\<rparr>"

definition detach :: "string \<Rightarrow> cycle_guard \<Rightarrow> cycle_guard" where
  "detach node g = g\<lparr>parent_of := hm_remove node (parent_of g)\<rparr>"

definition guard_parent_of :: "cycle_guard \<Rightarrow> string \<Rightarrow> string option" where
  "guard_parent_of g node = hm_get (parent_of g) node"

definition known_nodes :: "cycle_guard \<Rightarrow> string list" where
  "known_nodes g = hm_keys (parent_of g)"

text \<open>The set \<^verbatim>\<open>all_nodes\<close> in the order of first insertion; the order of the result is unspecified in
  Rust.\<close>

definition guard_roots :: "cycle_guard \<Rightarrow> string list" where
  "guard_roots g =
     (let all_nodes = remdups (concat (map (\<lambda>(child, parent). [child, parent]) (parent_of g)))
      in filter (\<lambda>n. hm_get (parent_of g) n = None) all_nodes)"

definition guard_len :: "cycle_guard \<Rightarrow> nat" where
  "guard_len g = length (parent_of g)"

definition guard_is_empty :: "cycle_guard \<Rightarrow> bool" where
  "guard_is_empty g \<longleftrightarrow> parent_of g = []"

section \<open>Parent chains\<close>

text \<open>The child-to-parent relation of a guard.\<close>

definition par :: "parents \<Rightarrow> (string \<times> string) set" where
  "par m = {(c, p). hm_get m c = Some p}"

definition guard_ok :: "cycle_guard \<Rightarrow> bool" where
  "guard_ok g \<longleftrightarrow> hm_ok (parent_of g) \<and> acyclic (par (parent_of g))"

lemma finite_par: "finite (par m)"
proof (rule finite_subset)
  show "par m \<subseteq> set m" by (auto simp: par_def dest: hm_get_Some_in)
qed simp

lemma par_insert: "par (hm_insert n p m) = insert (n, p) (par m - {n} \<times> UNIV)"
  by (auto simp: par_def split: if_splits)

lemma par_remove: "par (hm_remove n m) \<subseteq> par m"
  by (auto simp: par_def split: if_splits)

text \<open>On an acyclic map the walk ends, and it finds the node exactly when it is an ancestor.\<close>

lemma walk_up_acyclic:
  assumes "acyclic (par m)"
  shows "walk_up m node cur = Some ((cur, node) \<in> (par m)\<^sup>*)"
proof -
  have "wf ((par m)\<inverse>)"
    using finite_par assms by (rule finite_acyclic_wf_converse)
  then show ?thesis
  proof (induction cur rule: wf_induct_rule)
    case (less cur)
    show ?case
    proof (cases "cur = node")
      case True
      then show ?thesis by (simp add: walk_up.simps [of m node])
    next
      case False
      show ?thesis
      proof (cases "hm_get m cur")
        case None
        with False have "(cur, node) \<notin> (par m)\<^sup>*"
          by (auto simp: par_def elim: converse_rtranclE)
        with None False show ?thesis by (simp add: walk_up.simps [of m node])
      next
        case (Some p)
        then have "(p, cur) \<in> (par m)\<inverse>" by (simp add: par_def)
        with less have "walk_up m node p = Some ((p, node) \<in> (par m)\<^sup>*)" by blast
        moreover have "(cur, node) \<in> (par m)\<^sup>* \<longleftrightarrow> (p, node) \<in> (par m)\<^sup>*"
          using Some False
          by (auto simp: par_def elim: converse_rtranclE intro: converse_rtrancl_into_rtrancl)
        ultimately show ?thesis
          using Some False by (simp add: walk_up.simps [of m node cur])
      qed
    qed
  qed
qed

lemma would_create_cycle_acyclic:
  "guard_ok g \<Longrightarrow> would_create_cycle g n p = Some ((p, n) \<in> (par (parent_of g))\<^sup>*)"
  by (auto simp: would_create_cycle_def walk_up_acyclic guard_ok_def)

lemma guard_ok_new: "guard_ok guard_new"
  by (simp add: guard_ok_def guard_new_def par_def acyclic_def)

lemma guard_ok_detach:
  assumes "guard_ok g"
  shows "guard_ok (detach n g)"
  using assms acyclic_subset [OF _ par_remove] by (auto simp: guard_ok_def detach_def)

lemma acyclic_par_insert:
  assumes "acyclic (par m)" and "(p, n) \<notin> (par m)\<^sup>*"
  shows "acyclic (par (hm_insert n p m))"
proof (rule acyclic_subset)
  show "acyclic (insert (n, p) (par m))" using assms by (simp add: acyclic_insert)
  show "par (hm_insert n p m) \<subseteq> insert (n, p) (par m)" by (auto simp: par_insert)
qed

text \<open>Keeping the guard acyclic by \<^verbatim>\<open>record_parent_unchecked\<close> is the caller's promise.\<close>

lemma guard_ok_record:
  assumes "guard_ok g" and "(p, n) \<notin> (par (parent_of g))\<^sup>*"
  shows "guard_ok (record_parent_unchecked n p g)"
  using assms acyclic_par_insert by (simp add: guard_ok_def record_parent_unchecked_def)

lemma guard_roots_iff:
  assumes "hm_ok (parent_of g)"
  shows "r \<in> set (guard_roots g) \<longleftrightarrow> (\<exists>c. guard_parent_of g c = Some r) \<and> guard_parent_of g r = None"
  using assms
  by (auto simp: guard_roots_def guard_parent_of_def Let_def hm_get_iff hm_get_None_iff hm_keys_def) force

lemma distinct_guard_roots: "distinct (guard_roots g)"
  by (simp add: guard_roots_def Let_def)

text \<open>In an acyclic guard every node with a parent has exactly one root above it.\<close>

lemma chain_ends:
  assumes "acyclic (par m)"
  shows "\<exists>r. (n, r) \<in> (par m)\<^sup>* \<and> hm_get m r = None"
proof -
  have "wf ((par m)\<inverse>)"
    using finite_par assms by (rule finite_acyclic_wf_converse)
  then show ?thesis
  proof (induction n rule: wf_induct_rule)
    case (less n)
    show ?case
    proof (cases "hm_get m n")
      case (Some p)
      then have "(n, p) \<in> par m" by (simp add: par_def)
      with less [of p] show ?thesis by (auto intro: converse_rtrancl_into_rtrancl)
    qed auto
  qed
qed

lemma chain_end_unique:
  assumes "(n, r) \<in> (par m)\<^sup>*" and "(n, r') \<in> (par m)\<^sup>*" and "hm_get m r = None" and "hm_get m r' = None"
  shows "r = r'"
proof -
  have "single_valued (par m)"
    by (auto simp: single_valued_def par_def)
  from single_valued_confluent [OF this assms(1,2)] show ?thesis
    using assms(3,4) by (auto simp: par_def elim: converse_rtranclE)
qed

text \<open>A guard that holds a cycle: the walk that enters it without meeting the node never ends.\<close>

definition closed_chain :: "parents \<Rightarrow> string \<Rightarrow> string set \<Rightarrow> bool" where
  "closed_chain m node C \<longleftrightarrow> (\<forall>x \<in> C. x \<noteq> node \<and> (\<exists>y \<in> C. hm_get m x = Some y))"

lemma walk_up_Some_leaves_cycle:
  assumes "walk_up m node cur = Some r"
  shows "closed_chain m node C \<longrightarrow> cur \<notin> C"
proof (rule walk_up.raw_induct [OF _ assms], intro impI notI)
  fix walk m node cur r
  assume ih: "\<And>m node cur r. walk m node cur = Some r \<Longrightarrow> closed_chain m node C \<longrightarrow> cur \<notin> C"
    and eq: "(if cur = node then Some True
        else case hm_get m cur of None \<Rightarrow> Some False | Some p \<Rightarrow> walk m node p) = Some r"
    and cl: "closed_chain m node C" and "cur \<in> C"
  then obtain y where "y \<in> C" "hm_get m cur = Some y" "cur \<noteq> node"
    by (auto simp: closed_chain_def)
  with ih [of m node y r] eq cl show False by simp
qed

section \<open>Properties\<close>

text \<open>Property C17 (apply_move_keeps_acyclic). On an acyclic guard every move returns: it is refused, with the
  guard unchanged, exactly when the new parent is the node itself or one of its descendants, and
  otherwise the node gets its new parent, every other parent is kept and the guard is acyclic
  again.\<close>

theorem apply_move_keeps_acyclic:
  assumes "guard_ok g"
  shows "\<exists>r g'. apply_move n p g = Some (r, g') \<and> guard_ok g' \<and>
    (if (p, n) \<in> (par (parent_of g))\<^sup>* then r = Inl (CycleError n p) \<and> g' = g
     else r = Inr () \<and> guard_parent_of g' = (guard_parent_of g)(n \<mapsto> p))"
proof (cases "(p, n) \<in> (par (parent_of g))\<^sup>*")
  case True
  with would_create_cycle_acyclic [OF assms, of n p] assms show ?thesis
    by (simp add: apply_move_def)
next
  case False
  let ?g = "g\<lparr>parent_of := hm_insert n p (parent_of g)\<rparr>"
  have "guard_ok ?g"
    using assms False by (simp add: guard_ok_def acyclic_par_insert)
  moreover have "guard_parent_of ?g = (guard_parent_of g)(n \<mapsto> p)"
    by (simp add: guard_parent_of_def fun_eq_iff)
  ultimately show ?thesis
    using would_create_cycle_acyclic [OF assms, of n p] False by (simp add: apply_move_def)
qed

theorem apply_move_keeps_acyclic_witness:
  "\<exists>g1 g2. apply_move ''b'' ''a'' guard_new = Some (Inr (), g1) \<and>
     apply_move ''c'' ''b'' g1 = Some (Inr (), g2) \<and>
     apply_move ''a'' ''c'' g2 = Some (Inl (CycleError ''a'' ''c''), g2) \<and> guard_ok g2"
proof -
  have n1: "(''a'', ''b'') \<notin> (par (parent_of guard_new))\<^sup>*"
    by (auto simp: guard_new_def par_def elim: converse_rtranclE)
  obtain g1 where g1: "apply_move ''b'' ''a'' guard_new = Some (Inr (), g1)" "guard_ok g1"
    "guard_parent_of g1 = [''b'' \<mapsto> ''a'']"
    using apply_move_keeps_acyclic [OF guard_ok_new, of "''b''" "''a''"] n1
    by (auto simp: guard_parent_of_def guard_new_def fun_eq_iff)
  then have p1: "par (parent_of g1) = {(''b'', ''a'')}"
    by (auto simp: par_def guard_parent_of_def fun_eq_iff split: if_splits)
  then have "(''b'', ''c'') \<notin> (par (parent_of g1))\<^sup>*"
    by (auto elim: converse_rtranclE)
  then obtain g2 where g2: "apply_move ''c'' ''b'' g1 = Some (Inr (), g2)" "guard_ok g2"
    "guard_parent_of g2 = (guard_parent_of g1)(''c'' \<mapsto> ''b'')"
    using apply_move_keeps_acyclic [OF g1(2), of "''c''" "''b''"] by auto
  then have "(''c'', ''b'') \<in> par (parent_of g2)" "(''b'', ''a'') \<in> par (parent_of g2)"
    using g1(3) by (auto simp: par_def guard_parent_of_def fun_eq_iff split: if_splits)
  then have "(''c'', ''a'') \<in> (par (parent_of g2))\<^sup>*"
    by (meson converse_rtrancl_into_rtrancl r_into_rtrancl)
  then show ?thesis
    using apply_move_keeps_acyclic [OF g2(2), of "''a''" "''c''"] g1(1) g2(1,2) by auto
qed

text \<open>In an acyclic guard \<open>roots\<close> lists, without repetition, exactly
  the nodes that have a child and no parent, and every node with a recorded parent has exactly one
  of them above it.\<close>

theorem guard_roots_above_every_node:
  assumes "guard_ok g"
  shows "distinct (guard_roots g) \<and>
    (\<forall>r. r \<in> set (guard_roots g) \<longleftrightarrow> (\<exists>c. guard_parent_of g c = Some r) \<and> guard_parent_of g r = None) \<and>
    (\<forall>n \<in> set (known_nodes g). \<exists>!r. r \<in> set (guard_roots g) \<and> (n, r) \<in> (par (parent_of g))\<^sup>*)"
proof (intro conjI allI ballI)
  have ok: "hm_ok (parent_of g)" and ac: "acyclic (par (parent_of g))"
    using assms by (simp_all add: guard_ok_def)
  show "distinct (guard_roots g)" by (rule distinct_guard_roots)
  show iff: "r \<in> set (guard_roots g) \<longleftrightarrow> (\<exists>c. guard_parent_of g c = Some r) \<and> guard_parent_of g r = None" for r
    by (rule guard_roots_iff [OF ok])
  fix n assume "n \<in> set (known_nodes g)"
  then have n: "hm_get (parent_of g) n \<noteq> None"
    by (auto simp: known_nodes_def hm_keys_get)
  obtain r where r: "(n, r) \<in> (par (parent_of g))\<^sup>*" "hm_get (parent_of g) r = None"
    using chain_ends [OF ac] by blast
  with n have "(n, r) \<in> (par (parent_of g))\<^sup>+"
    by (auto simp: rtrancl_eq_or_trancl)
  then obtain c where "(c, r) \<in> par (parent_of g)"
    by (auto elim: tranclE)
  with r have "r \<in> set (guard_roots g) \<and> (n, r) \<in> (par (parent_of g))\<^sup>*"
    by (auto simp: iff par_def guard_parent_of_def)
  then show "\<exists>!r. r \<in> set (guard_roots g) \<and> (n, r) \<in> (par (parent_of g))\<^sup>*"
    using chain_end_unique by (blast dest: iff [THEN iffD1, THEN conjunct2, unfolded guard_parent_of_def])
qed

theorem guard_roots_above_every_node_witness:
  "\<exists>!r. r \<in> set (guard_roots (record_parent_unchecked ''b'' ''a'' guard_new)) \<and>
     (''b'', r) \<in> (par (parent_of (record_parent_unchecked ''b'' ''a'' guard_new)))\<^sup>*"
proof -
  have "(''a'', ''b'') \<notin> (par (parent_of guard_new))\<^sup>*"
    by (auto simp: guard_new_def par_def elim: converse_rtranclE)
  then have "guard_ok (record_parent_unchecked ''b'' ''a'' guard_new)"
    by (rule guard_ok_record [OF guard_ok_new])
  moreover have "''b'' \<in> set (known_nodes (record_parent_unchecked ''b'' ''a'' guard_new))"
    by (simp add: known_nodes_def record_parent_unchecked_def)
  ultimately show ?thesis
    using guard_roots_above_every_node by blast
qed

text \<open>If \<^verbatim>\<open>record_parent_unchecked\<close> has closed a cycle, the check of
  a move of a node outside the cycle to a parent on it does not return.\<close>

theorem unchecked_cycle_diverges:
  assumes "n \<notin> {a, b}" and "a \<noteq> b"
  shows "would_create_cycle (record_parent_unchecked b a (record_parent_unchecked a b g)) n a = None \<and>
    apply_move n a (record_parent_unchecked b a (record_parent_unchecked a b g)) = None"
proof -
  let ?g = "record_parent_unchecked b a (record_parent_unchecked a b g)"
  have "closed_chain (parent_of ?g) n {a, b}"
    using assms by (auto simp: closed_chain_def record_parent_unchecked_def)
  then have "walk_up (parent_of ?g) n a = None"
    using walk_up_Some_leaves_cycle [of "parent_of ?g" n a _ "{a, b}"]
    by (cases "walk_up (parent_of ?g) n a") auto
  with assms(1) show ?thesis
    by (auto simp: would_create_cycle_def apply_move_def)
qed

theorem unchecked_cycle_diverges_witness:
  "would_create_cycle (record_parent_unchecked ''b'' ''a'' (record_parent_unchecked ''a'' ''b'' guard_new))
     ''c'' ''a'' = None"
  using unchecked_cycle_diverges [of "''c''" "''a''" "''b''" guard_new] by simp

end
