(* ===== verification/Dag_Check.thy ===== *)
theory Dag_Check
  imports Dfs3 Tree_Guard Values
begin

text \<open>
  Batch acyclicity: \<^verbatim>\<open>validate_acyclic\<close> of \<^verbatim>\<open>src/schema/edge.rs\<close>, a depth-first search with three colours
  and an explicit stack of neighbour iterators. Hash sets are lists without repetition; \<open>ord\<close> is the
  order in which a hash set is iterated, and the statements hold for every such order.
\<close>

section \<open>Model\<close>

record edge_entity =
  ee_label :: string
  ee_src :: string
  ee_dst :: string
  ee_properties :: "(string, loro_property) hmap"

record edge_spec =
  es_src :: string
  es_dst :: string
  es_label :: string

definition edge_spec_new :: "string \<Rightarrow> string \<Rightarrow> string \<Rightarrow> edge_spec" where
  "edge_spec_new src dst label = \<lparr>es_src = src, es_dst = dst, es_label = label\<rparr>"

definition display_edge_spec :: "edge_spec \<Rightarrow> string" where
  "display_edge_spec e = es_src e @ '' -['' @ es_label e @ '']-> '' @ es_dst e"

type_synonym adjacency = "(string, string list) hmap"

definition adj_of :: "adjacency \<Rightarrow> string \<Rightarrow> string list" where
  "adj_of adj n = (case hm_get adj n of None \<Rightarrow> [] | Some xs \<Rightarrow> xs)"

definition hs_insert :: "'a \<Rightarrow> 'a list \<Rightarrow> 'a list" where
  "hs_insert x xs = (if x \<in> set xs then xs else xs @ [x])"

text \<open>The first loop: adjacency sets and the set of nodes; a self-loop ends it.\<close>

fun build_adj ::
  "edge_spec list \<Rightarrow> adjacency \<Rightarrow> string list \<Rightarrow> cycle_error + adjacency \<times> string list" where
  "build_adj [] adj nodes = Inr (adj, nodes)"
| "build_adj (e # es) adj nodes =
     (if es_src e = es_dst e then Inl (CycleError (es_dst e) (es_src e))
      else build_adj es (hm_insert (es_src e) (hs_insert (es_dst e) (adj_of adj (es_src e))) adj)
             (hs_insert (es_dst e) (hs_insert (es_src e) nodes)))"

type_synonym colours = "(string, u8) hmap"

definition colour_of :: "colours \<Rightarrow> string \<Rightarrow> u8" where
  "colour_of color n = (case hm_get color n of None \<Rightarrow> 0 | Some c \<Rightarrow> c)"

definition va_nbrs :: "(string list \<Rightarrow> string list) \<Rightarrow> adjacency \<Rightarrow> string \<Rightarrow> string list" where
  "va_nbrs ord adj n = ord (adj_of adj n)"

text \<open>The nodes a search can still meet.\<close>

definition va_universe ::
  "(string list \<Rightarrow> string list) \<Rightarrow> adjacency \<Rightarrow> (string \<times> string list) list \<Rightarrow> string set" where
  "va_universe ord adj st =
     (\<Union>xs \<in> insert [] (snd ` set adj). set (ord xs)) \<union> (\<Union>f \<in> set st. set (snd f))"

lemma finite_va_universe: "finite (va_universe ord adj st)"
  by (simp add: va_universe_def)

lemma va_nbrs_universe: "set (va_nbrs ord adj n) \<subseteq> va_universe ord adj st"
  by (auto simp: va_nbrs_def va_universe_def adj_of_def split: option.splits dest!: hm_get_Some_in)

definition va_white ::
  "(string list \<Rightarrow> string list) \<Rightarrow> adjacency \<Rightarrow> colours \<Rightarrow> (string \<times> string list) list \<Rightarrow> nat" where
  "va_white ord adj color st = card {n \<in> va_universe ord adj st. colour_of color n = 0}"

definition frames_left :: "('a \<times> 'b list) list \<Rightarrow> nat" where
  "frames_left st = sum_list (map (\<lambda>f. Suc (length (snd f))) st)"

lemma va_white_mono:
  assumes "va_universe ord adj st' \<subseteq> va_universe ord adj st"
    and "\<And>n. colour_of color' n = 0 \<Longrightarrow> colour_of color n = 0"
  shows "va_white ord adj color' st' \<le> va_white ord adj color st"
  unfolding va_white_def by (rule card_mono) (use assms finite_va_universe in auto)

lemma va_white_descend:
  assumes "colour_of color z = 0"
  shows "va_white ord adj (hm_insert z 1 color) ((z, va_nbrs ord adj z) # (x, rest) # st) <
    va_white ord adj color ((x, z # rest) # st)"
proof -
  let ?U = "va_universe ord adj ((x, z # rest) # st)"
  have sub: "va_universe ord adj ((z, va_nbrs ord adj z) # (x, rest) # st) \<subseteq> ?U"
    using va_nbrs_universe [of ord adj z "(x, rest) # st"] by (auto simp: va_universe_def)
  have "z \<in> ?U" by (auto simp: va_universe_def)
  with assms sub show ?thesis
    unfolding va_white_def
    by (intro psubset_card_mono) (auto simp: colour_of_def finite_va_universe split: if_splits)
qed

text \<open>The inner loop; the head of the list is the top of the stack. Any colour but 0 and 1 is black.\<close>

function va_loop ::
  "(string list \<Rightarrow> string list) \<Rightarrow> adjacency \<Rightarrow> colours \<Rightarrow> (string \<times> string list) list \<Rightarrow>
     cycle_error + colours" where
  "va_loop ord adj color [] = Inr color"
| "va_loop ord adj color ((cur, next # iter) # stack) =
     (if colour_of color next = 0
      then va_loop ord adj (hm_insert next 1 color) ((next, va_nbrs ord adj next) # (cur, iter) # stack)
      else if colour_of color next = 1 then Inl (CycleError next cur)
      else va_loop ord adj color ((cur, iter) # stack))"
| "va_loop ord adj color ((cur, []) # stack) = va_loop ord adj (hm_insert cur 2 color) stack"
  by pat_completeness auto
termination
proof (relation "measures [\<lambda>(ord, adj, color, st). va_white ord adj color st,
    \<lambda>(ord, adj, color, st). frames_left st]", goal_cases)
  case 1
  show ?case by simp
next
  case (2 ord adj color cur nxt iter stack)
  then show ?case by (simp add: va_white_descend)
next
  case (3 ord adj color cur nxt iter stack)
  have "va_white ord adj color ((cur, iter) # stack) \<le> va_white ord adj color ((cur, nxt # iter) # stack)"
    by (rule va_white_mono) (auto simp: va_universe_def)
  then show ?case by (auto simp: frames_left_def)
next
  case (4 ord adj color cur stack)
  have "va_white ord adj (hm_insert cur 2 color) stack \<le> va_white ord adj color ((cur, []) # stack)"
    by (rule va_white_mono) (auto simp: va_universe_def colour_of_def split: if_splits)
  then show ?case by (auto simp: frames_left_def)
qed

text \<open>The outer loop over the nodes.\<close>

fun va_roots ::
  "(string list \<Rightarrow> string list) \<Rightarrow> adjacency \<Rightarrow> string list \<Rightarrow> colours \<Rightarrow> cycle_error + colours" where
  "va_roots ord adj [] color = Inr color"
| "va_roots ord adj (root # roots) color =
     (if colour_of color root \<noteq> 0 then va_roots ord adj roots color
      else (case va_loop ord adj (hm_insert root 1 color) [(root, va_nbrs ord adj root)] of
          Inl e \<Rightarrow> Inl e
        | Inr color \<Rightarrow> va_roots ord adj roots color))"

definition validate_acyclic ::
  "(string list \<Rightarrow> string list) \<Rightarrow> edge_spec list \<Rightarrow> cycle_error + unit" where
  "validate_acyclic ord edges =
     (if edges = [] then Inr ()
      else case build_adj edges [] [] of
          Inl e \<Rightarrow> Inl e
        | Inr (adj, nodes) \<Rightarrow> (case va_roots ord adj (ord nodes) [] of
            Inl e \<Rightarrow> Inl e
          | Inr color \<Rightarrow> Inr ()))"

section \<open>The search as a run of the step relation\<close>

definition colour_abs :: "colours \<Rightarrow> string \<Rightarrow> colour" where
  "colour_abs color n = (if colour_of color n = 0 then White else if colour_of color n = 1 then Gray else Black)"

lemma colour_of_insert [simp]: "colour_of (hm_insert k v m) n = (if n = k then v else colour_of m n)"
  by (simp add: colour_of_def)

lemma colour_abs_insert [simp]:
  "colour_abs (hm_insert k 1 m) = (colour_abs m)(k := Gray)"
  "colour_abs (hm_insert k 2 m) = (colour_abs m)(k := Black)"
  by (auto simp: colour_abs_def fun_eq_iff)

lemma colour_abs_Nil [simp]: "colour_abs [] = (\<lambda>n. White)"
  by (auto simp: colour_abs_def colour_of_def)

definition va_result :: "cycle_error + colours \<Rightarrow> string dfs_cfg \<Rightarrow> bool" where
  "va_result r c = (case r of
     Inr color \<Rightarrow> c = (colour_abs color, [])
   | Inl e \<Rightarrow> (case e of CycleError z x \<Rightarrow> back_edge c x z))"

lemma va_loop_runs:
  "\<exists>c. (dfs_step (va_nbrs ord adj))\<^sup>*\<^sup>* (colour_abs color, st) c \<and> va_result (va_loop ord adj color st) c"
proof (induction ord adj color st rule: va_loop.induct)
  case (1 ord adj color)
  then show ?case by (auto simp: va_result_def)
next
  case (2 ord adj color cur nxt iter stack)
  consider (white) "colour_of color nxt = 0" | (gray) "colour_of color nxt = 1"
    | (black) "colour_of color nxt \<noteq> 0" "colour_of color nxt \<noteq> 1" by blast
  then show ?case
  proof cases
    case white
    then have "dfs_step (va_nbrs ord adj) (colour_abs color, (cur, nxt # iter) # stack)
        (colour_abs (hm_insert nxt 1 color), (nxt, va_nbrs ord adj nxt) # (cur, iter) # stack)"
      by (simp add: dfs_step.descend colour_abs_def)
    moreover obtain c where "(dfs_step (va_nbrs ord adj))\<^sup>*\<^sup>*
        (colour_abs (hm_insert nxt 1 color), (nxt, va_nbrs ord adj nxt) # (cur, iter) # stack) c"
      "va_result (va_loop ord adj (hm_insert nxt 1 color) ((nxt, va_nbrs ord adj nxt) # (cur, iter) # stack)) c"
      using 2(1) [OF white] by blast
    ultimately show ?thesis
      using white converse_rtranclp_into_rtranclp [of "dfs_step (va_nbrs ord adj)"] by (metis va_loop.simps(2))
  next
    case gray
    then show ?thesis by (force simp: va_result_def back_edge_def colour_abs_def)
  next
    case black
    then have "dfs_step (va_nbrs ord adj) (colour_abs color, (cur, nxt # iter) # stack)
        (colour_abs color, (cur, iter) # stack)"
      by (intro dfs_step.skip) (simp add: colour_abs_def)
    with 2(2) black show ?thesis
      by (auto intro: converse_rtranclp_into_rtranclp)
  qed
next
  case (3 ord adj color cur stack)
  have "dfs_step (va_nbrs ord adj) (colour_abs color, (cur, []) # stack)
      (colour_abs (hm_insert cur 2 color), stack)"
    by (simp add: dfs_step.finish)
  with 3 show ?case
    using converse_rtranclp_into_rtranclp [of "dfs_step (va_nbrs ord adj)"] by (metis va_loop.simps(3))
qed

interpretation va: neighbours "va_nbrs ord adj" for ord adj .

text \<open>The outer loop from a colouring without gray nodes: either a reported back edge lies on a cycle, or
  all the roots are black at the end, and the nodes that were black stay black.\<close>

lemma va_roots_sound:
  assumes "va.dfs_inv ord adj (colour_abs color, [])"
  shows "case va_roots ord adj roots color of
      Inl (CycleError z x) \<Rightarrow> (x, z) \<in> va.edges ord adj \<and> (z, z) \<in> (va.edges ord adj)\<^sup>+
    | Inr color' \<Rightarrow> va.dfs_inv ord adj (colour_abs color', []) \<and>
        (\<forall>n \<in> set roots. colour_abs color' n = Black) \<and>
        (\<forall>n. colour_abs color n = Black \<longrightarrow> colour_abs color' n = Black)"
  using assms
proof (induction roots arbitrary: color)
  case Nil
  then show ?case by simp
next
  case (Cons root roots)
  show ?case
  proof (cases "colour_of color root = 0")
    case False
    then have "colour_abs color root = Black"
      using va.dfs_inv_no_gray [OF Cons.prems, of root] by (simp add: colour_abs_def split: if_splits)
    with Cons False show ?thesis
      by (fastforce split: sum.splits cycle_error.splits)
  next
    case True
    let ?start = "(colour_abs (hm_insert root 1 color), [(root, va_nbrs ord adj root)])"
    let ?r = "va_loop ord adj (hm_insert root 1 color) [(root, va_nbrs ord adj root)]"
    have inv: "va.dfs_inv ord adj ?start"
      using va.dfs_inv_start [OF Cons.prems, of root] True by (simp add: colour_abs_def [of color root])
    obtain c where run: "(dfs_step (va_nbrs ord adj))\<^sup>*\<^sup>* ?start c" and res: "va_result ?r c"
      using va_loop_runs by blast
    note invc = va.dfs_inv_steps [OF run inv]
    show ?thesis
    proof (cases ?r)
      case (Inl e)
      obtain z x where "e = CycleError z x" by (cases e)
      with Inl res True va.back_edge_cycle [OF invc, of x z] show ?thesis
        by (simp add: va_result_def)
    next
      case (Inr color1)
      with res have c: "c = (colour_abs color1, [])" by (simp add: va_result_def)
      have keep: "colour_abs color1 n = Black" if "colour_abs color n = Black" for n
      proof -
        have "n \<noteq> root" using that True by (auto simp: colour_abs_def)
        then show ?thesis using va.dfs_steps_black [OF run, of n] that by (simp add: c)
      qed
      have "colour_abs color1 root \<noteq> White"
        using va.dfs_steps_seen [OF run, of root] by (simp add: c)
      with va.dfs_inv_no_gray [OF invc [unfolded c], of root] have "colour_abs color1 root = Black"
        by (cases "colour_abs color1 root") simp_all
      with Cons.IH [of color1] invc c keep True Inr show ?thesis
        by (auto split: sum.splits cycle_error.splits)
    qed
  qed
qed

section \<open>The batch as a relation\<close>

definition spec_edges :: "edge_spec list \<Rightarrow> (string \<times> string) set" where
  "spec_edges es = (\<lambda>e. (es_src e, es_dst e)) ` set es"

lemma set_hs_insert [simp]: "set (hs_insert x xs) = insert x (set xs)"
  by (auto simp: hs_insert_def)

lemma adj_of_insert [simp]: "adj_of (hm_insert k v m) n = (if n = k then v else adj_of m n)"
  by (simp add: adj_of_def)

lemma build_adj_Inr:
  "build_adj es adj nodes = Inr (adj', nodes') \<Longrightarrow>
     (\<forall>a b. b \<in> set (adj_of adj' a) \<longleftrightarrow> b \<in> set (adj_of adj a) \<or> (a, b) \<in> spec_edges es) \<and>
     set nodes' = set nodes \<union> fst ` spec_edges es \<union> snd ` spec_edges es"
proof (induction es adj nodes rule: build_adj.induct)
  case (2 e es adj nodes)
  then have "es_src e \<noteq> es_dst e" by (auto split: if_splits)
  with 2 show ?case
    by (auto simp: spec_edges_def split: if_splits)
qed (simp add: spec_edges_def)

lemma build_adj_Inl:
  "build_adj es adj nodes = Inl (CycleError z x) \<Longrightarrow> x = z \<and> (x, z) \<in> spec_edges es"
  by (induction es adj nodes rule: build_adj.induct) (auto simp: spec_edges_def split: if_splits)

lemma trancl_in_nodes: "(n, n) \<in> E\<^sup>+ \<Longrightarrow> n \<in> fst ` E"
  by (erule converse_tranclE) force+

text \<open>The specification of the check, for any iteration order.\<close>

lemma validate_acyclic_spec:
  assumes "\<And>xs. set (ord xs) = set xs"
  shows "case validate_acyclic ord es of
      Inr _ \<Rightarrow> acyclic (spec_edges es)
    | Inl (CycleError z x) \<Rightarrow> (x, z) \<in> spec_edges es \<and> (z, z) \<in> (spec_edges es)\<^sup>+"
proof (cases "es = []")
  case True
  then show ?thesis by (simp add: validate_acyclic_def spec_edges_def acyclic_def)
next
  case False
  show ?thesis
  proof (cases "build_adj es [] []")
    case (Inl e)
    obtain z x where "e = CycleError z x" by (cases e)
    with Inl False build_adj_Inl [of es "[]" "[]" z x] show ?thesis
      by (auto simp: validate_acyclic_def)
  next
    case (Inr p)
    obtain adj nodes where p: "p = (adj, nodes)" by (cases p)
    note b = build_adj_Inr [OF Inr [unfolded p]]
    have E: "va.edges ord adj = spec_edges es"
      using b by (auto simp: va.edges_def va_nbrs_def assms adj_of_def)
    have "va.dfs_inv ord adj (colour_abs [], [])"
      using va.dfs_inv_init by simp
    note sound = va_roots_sound [OF this, of "ord nodes"]
    show ?thesis
    proof (cases "va_roots ord adj (ord nodes) []")
      case (Inl e)
      obtain z x where "e = CycleError z x" by (cases e)
      with sound Inl Inr p False E show ?thesis
        by (simp add: validate_acyclic_def)
    next
      case (Inr color)
      have "(n, n) \<notin> (spec_edges es)\<^sup>+" for n
      proof
        assume cyc: "(n, n) \<in> (spec_edges es)\<^sup>+"
        then have "n \<in> set (ord nodes)"
          using b trancl_in_nodes [of n "spec_edges es"] by (auto simp: assms)
        with sound Inr va.dfs_inv_black_acyclic [of ord adj "colour_abs color" "[]" n] cyc E
        show False by auto
      qed
      with Inr \<open>build_adj es [] [] = Inr p\<close> p False show ?thesis
        by (simp add: validate_acyclic_def acyclic_def)
    qed
  qed
qed

section \<open>Property\<close>

text \<open>Property C6 (validate_acyclic_correct). The pre-commit check always returns; it accepts a batch of edges
  exactly when their graph has no cycle (diamonds included, self-loops excluded), and the error it
  reports otherwise names an edge of the batch whose child lies on a cycle. This holds for every
  order in which the hash sets are iterated.\<close>

theorem validate_acyclic_correct:
  assumes "\<And>xs. set (ord xs) = set xs"
  shows "(validate_acyclic ord es = Inr ()) = acyclic (spec_edges es) \<and>
    (\<forall>z x. validate_acyclic ord es = Inl (CycleError z x) \<longrightarrow>
       (x, z) \<in> spec_edges es \<and> (z, z) \<in> (spec_edges es)\<^sup>+)"
proof -
  have "case validate_acyclic ord es of
      Inr _ \<Rightarrow> acyclic (spec_edges es)
    | Inl (CycleError z x) \<Rightarrow> (x, z) \<in> spec_edges es \<and> (z, z) \<in> (spec_edges es)\<^sup>+"
    by (rule validate_acyclic_spec) (rule assms)
  then show ?thesis
    by (auto simp: acyclic_def split: sum.splits cycle_error.splits)
qed

theorem validate_acyclic_correct_witness:
  "validate_acyclic rev [edge_spec_new ''a'' ''b'' ''CHILD'', edge_spec_new ''a'' ''c'' ''CHILD'',
      edge_spec_new ''b'' ''d'' ''CHILD'', edge_spec_new ''c'' ''d'' ''CHILD''] = Inr () \<and>
   acyclic (spec_edges [edge_spec_new ''a'' ''b'' ''CHILD'', edge_spec_new ''a'' ''c'' ''CHILD'',
      edge_spec_new ''b'' ''d'' ''CHILD'', edge_spec_new ''c'' ''d'' ''CHILD''])"
proof -
  let ?es = "[edge_spec_new ''a'' ''b'' ''CHILD'', edge_spec_new ''a'' ''c'' ''CHILD'',
      edge_spec_new ''b'' ''d'' ''CHILD'', edge_spec_new ''c'' ''d'' ''CHILD'']"
  have "validate_acyclic rev ?es = Inr ()"
    by (simp add: validate_acyclic_def edge_spec_new_def hs_insert_def adj_of_def va_nbrs_def colour_of_def
        hm_defs)
  then show ?thesis
    using validate_acyclic_correct [of rev ?es] by simp
qed

end
