(* ===== verification/Observability.thy ===== *)
theory Observability
  imports Dag_Check
begin

text \<open>
  The observability hooks of \<^verbatim>\<open>src/observability/mod.rs\<close>: the queue-state probe, the fault injector and the
  invariant checker with its own cycle detection \<^verbatim>\<open>has_cycle\<close> (three colours, frames with a child
  index). The order in which the colour map's keys are iterated is the parameter \<open>ord\<close>.
\<close>

section \<open>Probe and fault injector\<close>

record queue_state =
  qs_depth :: u32
  qs_oldest_age_ms :: u64
  qs_locked_nodes :: u32

definition probe_new :: queue_state where
  "probe_new = \<lparr>qs_depth = 0, qs_oldest_age_ms = 0, qs_locked_nodes = 0\<rparr>"

definition probe_snapshot :: "queue_state \<Rightarrow> queue_state" where
  "probe_snapshot p =
     \<lparr>qs_depth = qs_depth p, qs_oldest_age_ms = qs_oldest_age_ms p, qs_locked_nodes = qs_locked_nodes p\<rparr>"

definition set_depth :: "u32 \<Rightarrow> queue_state \<Rightarrow> queue_state" where
  "set_depth d p = p\<lparr>qs_depth := d\<rparr>"

definition set_oldest_age_ms :: "u64 \<Rightarrow> queue_state \<Rightarrow> queue_state" where
  "set_oldest_age_ms a p = p\<lparr>qs_oldest_age_ms := a\<rparr>"

definition set_locked_nodes :: "u32 \<Rightarrow> queue_state \<Rightarrow> queue_state" where
  "set_locked_nodes n p = p\<lparr>qs_locked_nodes := n\<rparr>"

datatype fault_kind = NetworkTimeout | CorruptSnapshot | ConcurrentSwitch | DiskFull

datatype fault_error = FaultError fault_kind

record fault_injector =
  enabled_faults :: "fault_kind list"

definition faults_new :: fault_injector where
  "faults_new = \<lparr>enabled_faults = []\<rparr>"

definition is_enabled :: "fault_injector \<Rightarrow> fault_kind \<Rightarrow> bool" where
  "is_enabled f kind \<longleftrightarrow> kind \<in> set (enabled_faults f)"

definition enable :: "fault_kind \<Rightarrow> fault_injector \<Rightarrow> fault_injector" where
  "enable kind f = (if \<not> is_enabled f kind then f\<lparr>enabled_faults := enabled_faults f @ [kind]\<rparr> else f)"

definition disable :: "fault_kind \<Rightarrow> fault_injector \<Rightarrow> fault_injector" where
  "disable kind f = f\<lparr>enabled_faults := filter (\<lambda>k. k \<noteq> kind) (enabled_faults f)\<rparr>"

definition trigger :: "fault_injector \<Rightarrow> fault_kind \<Rightarrow> fault_error + unit" where
  "trigger f kind = (if is_enabled f kind then Inl (FaultError kind) else Inr ())"

definition clear_faults :: "fault_injector \<Rightarrow> fault_injector" where
  "clear_faults f = f\<lparr>enabled_faults := []\<rparr>"

lemma trigger_laws:
  "trigger faults_new k = Inr ()"
  "trigger (enable j f) k = (if k = j then Inl (FaultError k) else trigger f k)"
  "trigger (disable j f) k = (if k = j then Inr () else trigger f k)"
  "trigger (clear_faults f) k = Inr ()"
  by (auto simp: trigger_def is_enabled_def enable_def disable_def faults_new_def clear_faults_def)

section \<open>Cycle detection\<close>

text \<open>Children are pushed to a vector, repetitions included; every node starts white.\<close>

fun hc_build :: "(string \<times> string) list \<Rightarrow> adjacency \<Rightarrow> (string, colour) hmap \<Rightarrow>
  adjacency \<times> (string, colour) hmap" where
  "hc_build [] adj color = (adj, color)"
| "hc_build ((p, c) # es) adj color =
     hc_build es (hm_insert p (adj_of adj p @ [c]) adj) (hm_insert c White (hm_insert p White color))"

definition hc_colour :: "(string, colour) hmap \<Rightarrow> string \<Rightarrow> colour" where
  "hc_colour color n = (case hm_get color n of None \<Rightarrow> White | Some c \<Rightarrow> c)"

lemma hc_colour_insert [simp]: "hc_colour (hm_insert k v m) n = (if n = k then v else hc_colour m n)"
  by (simp add: hc_colour_def)

text \<open>The children still to visit of a frame.\<close>

definition hc_rest :: "adjacency \<Rightarrow> string \<times> nat \<Rightarrow> string \<times> string list" where
  "hc_rest adj = (\<lambda>(node, idx). (node, drop idx (adj_of adj node)))"

definition hc_white :: "adjacency \<Rightarrow> (string, colour) hmap \<Rightarrow> nat" where
  "hc_white adj color = card {n \<in> (\<Union>xs \<in> snd ` set adj. set xs). hc_colour color n = White}"

lemma child_in_universe:
  assumes "hm_get adj node = Some children" and "idx < length children"
  shows "children ! idx \<in> (\<Union>xs \<in> snd ` set adj. set xs)"
  using assms by (auto dest!: hm_get_Some_in intro!: bexI [of _ "(node, children)"])

lemma hc_white_descend:
  assumes "z \<in> (\<Union>xs \<in> snd ` set adj. set xs)" and "hc_colour color z = White"
  shows "hc_white adj (hm_insert z Gray color) < hc_white adj color"
  unfolding hc_white_def
  by (rule psubset_card_mono) (use assms in \<open>auto split: if_splits\<close>)

lemma hc_white_black: "hc_white adj (hm_insert z Black color) \<le> hc_white adj color"
  unfolding hc_white_def by (rule card_mono) (auto split: if_splits)

text \<open>The inner loop, the top of the stack first. \<open>None\<close> is the return of a cycle.\<close>

function hc_loop :: "adjacency \<Rightarrow> (string, colour) hmap \<Rightarrow> (string \<times> nat) list \<Rightarrow>
  (string, colour) hmap option" where
  "hc_loop adj color [] = Some color"
| "hc_loop adj color ((node, idx) # stack) = (case hm_get adj node of
     None \<Rightarrow> hc_loop adj (hm_insert node Black color) stack
   | Some children \<Rightarrow>
       if length children \<le> idx then hc_loop adj (hm_insert node Black color) stack
       else (let child = children ! idx in
         case hc_colour color child of
           Gray \<Rightarrow> None
         | Black \<Rightarrow> hc_loop adj color ((node, idx + 1) # stack)
         | White \<Rightarrow> hc_loop adj (hm_insert child Gray color) ((child, 0) # (node, idx + 1) # stack)))"
  by pat_completeness auto
termination
proof (relation "measures [\<lambda>(adj, color, st). hc_white adj color,
    \<lambda>(adj, color, st). frames_left (map (hc_rest adj) st)]", goal_cases)
  case 1
  show ?case by simp
next
  case (2 adj color node idx stack)
  then show ?case using hc_white_black [of adj node color] by (auto simp: frames_left_def)
next
  case (3 adj color node idx stack children)
  then show ?case using hc_white_black [of adj node color] by (auto simp: frames_left_def)
next
  case (4 adj color node idx stack children child)
  then show ?case using hc_white_descend [OF child_in_universe] by simp
next
  case (5 adj color node idx stack children child)
  then show ?case by (simp add: frames_left_def hc_rest_def adj_of_def)
qed

fun hc_starts :: "adjacency \<Rightarrow> string list \<Rightarrow> (string, colour) hmap \<Rightarrow> bool" where
  "hc_starts adj [] color = False"
| "hc_starts adj (start # nodes) color =
     (if hc_colour color start \<noteq> White then hc_starts adj nodes color
      else (case hc_loop adj (hm_insert start Gray color) [(start, 0)] of
          None \<Rightarrow> True
        | Some color \<Rightarrow> hc_starts adj nodes color))"

definition has_cycle :: "(string list \<Rightarrow> string list) \<Rightarrow> (string \<times> string) list \<Rightarrow> bool" where
  "has_cycle ord edges = (case hc_build edges [] [] of
     (adj, color) \<Rightarrow> hc_starts adj (ord (hm_keys color)) color)"

section \<open>Invariant checks\<close>

datatype invariant_violation =
  I4Uniqueness | I5Monotonicity | I11BridgeBijection | I12EpochOrdering | I14TreeAcyclicity

record invariant_input =
  ii_node_keys :: "string list"
  ii_epochs :: "(string \<times> u64) list"
  ii_parent_child_pairs :: "(string \<times> string) list"
  ii_grafeo_nodes :: "string list"
  ii_loro_containers :: "string list"
  ii_parent_child_epochs :: "(u64 \<times> u64) list"

text \<open>The loops: insertion into a set of seen keys, and the windows of two.\<close>

fun all_new :: "string list \<Rightarrow> string set \<Rightarrow> bool" where
  "all_new [] seen = True"
| "all_new (k # ks) seen = (if k \<in> seen then False else all_new ks (insert k seen))"

fun non_decreasing :: "(string \<times> u64) list \<Rightarrow> bool" where
  "non_decreasing (a # b # es) = (if snd b < snd a then False else non_decreasing (b # es))"
| "non_decreasing _ = True"

definition check_invariants ::
  "(string list \<Rightarrow> string list) \<Rightarrow> invariant_input \<Rightarrow> invariant_violation + unit" where
  "check_invariants ord st =
     (if ii_node_keys st \<noteq> [] \<and> \<not> all_new (ii_node_keys st) {} then Inl I4Uniqueness
      else if length (ii_epochs st) > 1 \<and> \<not> non_decreasing (ii_epochs st) then Inl I5Monotonicity
      else if (ii_grafeo_nodes st \<noteq> [] \<or> ii_loro_containers st \<noteq> []) \<and>
              (length (ii_grafeo_nodes st) \<noteq> length (ii_loro_containers st) \<or>
               \<not> all_new (ii_grafeo_nodes st) {}) then Inl I11BridgeBijection
      else if \<not> list_all (\<lambda>(parent_epoch, child_epoch). \<not> child_epoch < parent_epoch)
                  (ii_parent_child_epochs st) then Inl I12EpochOrdering
      else if ii_parent_child_pairs st \<noteq> [] \<and> has_cycle ord (ii_parent_child_pairs st)
           then Inl I14TreeAcyclicity
      else Inr ())"

section \<open>The search as a run of the step relation\<close>

lemma hc_colour_fun_upd: "hc_colour (hm_insert k v m) = (hc_colour m)(k := v)"
  by (simp add: fun_eq_iff)

definition hc_result :: "(string, colour) hmap option \<Rightarrow> string dfs_cfg \<Rightarrow> bool" where
  "hc_result r c = (case r of
     Some color \<Rightarrow> c = (hc_colour color, [])
   | None \<Rightarrow> (\<exists>x z. back_edge c x z))"

lemma hc_loop_runs:
  "\<exists>c. (dfs_step (adj_of adj))\<^sup>*\<^sup>* (hc_colour color, map (hc_rest adj) st) c \<and> hc_result (hc_loop adj color st) c"
proof (induction adj color st rule: hc_loop.induct)
  case (1 adj color)
  then show ?case by (auto simp: hc_result_def)
next
  case (2 adj color node idx stack)
  note trans = converse_rtranclp_into_rtranclp [of "dfs_step (adj_of adj)"]
  show ?case
  proof (cases "idx < length (adj_of adj node)")
    case False
    then have top: "hc_rest adj (node, idx) = (node, [])"
      and eq: "hc_loop adj color ((node, idx) # stack) = hc_loop adj (hm_insert node Black color) stack"
      by (auto simp: hc_rest_def adj_of_def split: option.splits)
    have "dfs_step (adj_of adj) (hc_colour color, map (hc_rest adj) ((node, idx) # stack))
        (hc_colour (hm_insert node Black color), map (hc_rest adj) stack)"
      by (simp add: top hc_colour_fun_upd dfs_step.finish)
    moreover obtain c where "(dfs_step (adj_of adj))\<^sup>*\<^sup>*
        (hc_colour (hm_insert node Black color), map (hc_rest adj) stack) c"
      "hc_result (hc_loop adj (hm_insert node Black color) stack) c"
    proof (cases "hm_get adj node")
      case None
      from 2(1) [OF this] that show ?thesis by blast
    next
      case (Some children)
      with False have "length children \<le> idx" by (simp add: adj_of_def)
      from 2(2) [OF Some this] that show ?thesis by blast
    qed
    ultimately show ?thesis unfolding eq using trans by blast
  next
    case True
    define child where "child = adj_of adj node ! idx"
    obtain children where ch: "hm_get adj node = Some children" "children = adj_of adj node"
      "\<not> length children \<le> idx" "child = children ! idx"
      using True unfolding child_def by (cases "hm_get adj node") (auto simp: adj_of_def)
    have top: "hc_rest adj (node, idx) = (node, child # drop (Suc idx) (adj_of adj node))"
      using True by (simp add: hc_rest_def child_def Cons_nth_drop_Suc)
    have top': "hc_rest adj (node, Suc idx) = (node, drop (Suc idx) (adj_of adj node))"
      by (simp add: hc_rest_def)
    show ?thesis
    proof (cases "hc_colour color child")
      case White
      have "dfs_step (adj_of adj) (hc_colour color, map (hc_rest adj) ((node, idx) # stack))
          (hc_colour (hm_insert child Gray color), map (hc_rest adj) ((child, 0) # (node, idx + 1) # stack))"
        using dfs_step.descend [of "hc_colour color" child "adj_of adj"] White
        by (simp add: top top' hc_colour_fun_upd) (simp add: hc_rest_def)
      moreover have "hc_loop adj color ((node, idx) # stack) =
          hc_loop adj (hm_insert child Gray color) ((child, 0) # (node, idx + 1) # stack)"
        using White ch by (simp add: Let_def)
      ultimately show ?thesis
        using 2(3) [OF ch(1,3,4) White] trans by metis
    next
      case Gray
      have "back_edge (hc_colour color, map (hc_rest adj) ((node, idx) # stack)) node child"
        using Gray top by (simp add: back_edge_def)
      with Gray ch show ?thesis by (auto simp: hc_result_def Let_def)
    next
      case Black
      have "dfs_step (adj_of adj) (hc_colour color, map (hc_rest adj) ((node, idx) # stack))
          (hc_colour color, map (hc_rest adj) ((node, idx + 1) # stack))"
        using dfs_step.skip [of "hc_colour color" child "adj_of adj"] Black by (simp add: top top')
      moreover have "hc_loop adj color ((node, idx) # stack) = hc_loop adj color ((node, idx + 1) # stack)"
        using Black ch by (simp add: Let_def)
      ultimately show ?thesis
        using 2(4) [OF ch(1,3,4) Black] trans by metis
    qed
  qed
qed

interpretation hc: neighbours "adj_of adj" for adj .

lemma hc_starts_sound:
  assumes "hc.dfs_inv adj (hc_colour color, [])"
  shows "if hc_starts adj nodes color then \<exists>z. (z, z) \<in> (hc.edges adj)\<^sup>+
    else (\<forall>n. hc_colour color n = Black \<or> n \<in> set nodes \<longrightarrow> (n, n) \<notin> (hc.edges adj)\<^sup>+)"
  using assms
proof (induction nodes arbitrary: color)
  case Nil
  then show ?case using hc.dfs_inv_black_acyclic by simp
next
  case (Cons start nodes)
  show ?case
  proof (cases "hc_colour color start = White")
    case False
    with hc.dfs_inv_no_gray [OF Cons.prems, of start] have "hc_colour color start = Black"
      by (cases "hc_colour color start") simp_all
    with Cons.IH [OF Cons.prems] False show ?thesis by (auto split: if_splits)
  next
    case True
    let ?start = "(hc_colour (hm_insert start Gray color), map (hc_rest adj) [(start, 0)])"
    have inv: "hc.dfs_inv adj ?start"
      using hc.dfs_inv_start [OF Cons.prems True] by (simp add: hc_colour_fun_upd hc_rest_def)
    obtain c where run: "(dfs_step (adj_of adj))\<^sup>*\<^sup>* ?start c"
      and res: "hc_result (hc_loop adj (hm_insert start Gray color) [(start, 0)]) c"
      using hc_loop_runs by blast
    note invc = hc.dfs_inv_steps [OF run inv]
    show ?thesis
    proof (cases "hc_loop adj (hm_insert start Gray color) [(start, 0)]")
      case None
      with res obtain x z where "back_edge c x z" by (auto simp: hc_result_def)
      with None True hc.back_edge_cycle [OF invc] show ?thesis by auto
    next
      case (Some color1)
      with res have c: "c = (hc_colour color1, [])" by (simp add: hc_result_def)
      have keep: "hc_colour color1 n = Black" if "hc_colour color n = Black" for n
      proof -
        have "n \<noteq> start" using that True by auto
        then show ?thesis using hc.dfs_steps_black [OF run, of n] that by (simp add: c)
      qed
      have "hc_colour color1 start \<noteq> White"
        using hc.dfs_steps_seen [OF run, of start] by (simp add: c)
      with hc.dfs_inv_no_gray [OF invc [unfolded c], of start] have "hc_colour color1 start = Black"
        by (cases "hc_colour color1 start") simp_all
      with Cons.IH [OF invc [unfolded c]] keep True Some show ?thesis
        by (auto split: if_splits)
    qed
  qed
qed

lemma hc_build_spec:
  "hc_build es adj color = (adj', color') \<Longrightarrow>
     (\<forall>a b. b \<in> set (adj_of adj' a) \<longleftrightarrow> b \<in> set (adj_of adj a) \<or> (a, b) \<in> set es) \<and>
     set (hm_keys color') = set (hm_keys color) \<union> fst ` set es \<union> snd ` set es \<and>
     ((\<forall>n. hc_colour color n = White) \<longrightarrow> (\<forall>n. hc_colour color' n = White))"
proof (induction es adj color rule: hc_build.induct)
  case (2 p c es adj color)
  from 2 show ?case by (auto split: if_splits)
qed simp

lemma has_cycle_iff:
  assumes "\<And>xs. set (ord xs) = set xs"
  shows "has_cycle ord es \<longleftrightarrow> \<not> acyclic (set es)"
proof -
  obtain adj color where b: "hc_build es [] [] = (adj, color)" by fastforce
  note spec = hc_build_spec [OF b]
  have E: "hc.edges adj = set es"
    using spec by (auto simp: hc.edges_def adj_of_def)
  have "hc_colour color = (\<lambda>n. White)"
    using spec by (auto simp: hc_colour_def fun_eq_iff)
  then have inv: "hc.dfs_inv adj (hc_colour color, [])"
    using hc.dfs_inv_init by simp
  have "n \<in> set (ord (hm_keys color))" if "(n, n) \<in> (set es)\<^sup>+" for n
    using trancl_in_nodes [OF that] spec by (auto simp: assms)
  with hc_starts_sound [OF inv, of "ord (hm_keys color)"] b E show ?thesis
    by (auto simp: has_cycle_def acyclic_def split: if_splits)
qed

lemma all_new_iff: "all_new ks seen \<longleftrightarrow> distinct ks \<and> set ks \<inter> seen = {}"
  by (induction ks seen rule: all_new.induct) auto

lemma non_decreasing_iff: "non_decreasing es \<longleftrightarrow> sorted (map snd es)"
  by (induction es rule: non_decreasing.induct) (auto simp: not_less)

section \<open>Properties\<close>

text \<open>The two cycle detectors of the repository, written differently and
  used in different places, decide the same thing: the pre-commit check refuses a batch exactly when
  the observability check finds a cycle among the same edges, whatever orders the hash containers
  are iterated in.\<close>

theorem cycle_checks_agree:
  assumes "\<And>xs. set (ord xs) = set xs" and "\<And>xs. set (ord' xs) = set xs"
  shows "has_cycle ord (map (\<lambda>e. (es_src e, es_dst e)) es) = (validate_acyclic ord' es \<noteq> Inr ())"
proof -
  have "case validate_acyclic ord' es of
      Inr _ \<Rightarrow> acyclic (spec_edges es)
    | Inl (CycleError z x) \<Rightarrow> (x, z) \<in> spec_edges es \<and> (z, z) \<in> (spec_edges es)\<^sup>+"
    by (rule validate_acyclic_spec) (rule assms)
  then have "(validate_acyclic ord' es = Inr ()) = acyclic (spec_edges es)"
    by (auto simp: acyclic_def split: sum.splits cycle_error.splits)
  moreover have "set (map (\<lambda>e. (es_src e, es_dst e)) es) = spec_edges es"
    by (simp add: spec_edges_def)
  ultimately show ?thesis
    using has_cycle_iff [of ord "map (\<lambda>e. (es_src e, es_dst e)) es"] assms by simp
qed

theorem cycle_checks_agree_witness:
  "has_cycle rev [(''a'', ''b''), (''b'', ''a'')] \<and>
   validate_acyclic (\<lambda>xs. xs) [edge_spec_new ''a'' ''b'' ''CHILD'', edge_spec_new ''b'' ''a'' ''CHILD''] \<noteq> Inr ()"
proof -
  let ?es = "[edge_spec_new ''a'' ''b'' ''CHILD'', edge_spec_new ''b'' ''a'' ''CHILD'']"
  have "has_cycle rev [(''a'', ''b''), (''b'', ''a'')]"
    by (simp add: has_cycle_def hc_colour_def adj_of_def hm_defs)
  then show ?thesis
    using cycle_checks_agree [of rev "\<lambda>xs. xs" ?es] by (simp add: edge_spec_new_def)
qed

text \<open>Property C21 (check_invariants_correct). The invariant checker accepts exactly the states that satisfy all
  five checks, and otherwise reports the first that fails: node keys unique (I4), epochs never
  decreasing (I5), as many Loro containers as grafeo nodes, the latter distinct (I11), no child epoch before its
  parent's (I12), and an acyclic parent relation (I14). I11 passes on two empty lists; when exactly one of them is empty it
  is reported as violated, although the docs of the input say that it is skipped if either is empty.\<close>

theorem check_invariants_correct:
  assumes "\<And>xs. set (ord xs) = set xs"
  shows "check_invariants ord st =
    (if \<not> distinct (ii_node_keys st) then Inl I4Uniqueness
     else if \<not> sorted (map snd (ii_epochs st)) then Inl I5Monotonicity
     else if length (ii_grafeo_nodes st) \<noteq> length (ii_loro_containers st) \<or> \<not> distinct (ii_grafeo_nodes st)
       then Inl I11BridgeBijection
     else if \<exists>(p, c) \<in> set (ii_parent_child_epochs st). c < p then Inl I12EpochOrdering
     else if \<not> acyclic (set (ii_parent_child_pairs st)) then Inl I14TreeAcyclicity
     else Inr ())"
proof -
  have "length (ii_epochs st) > 1" if "\<not> sorted (map snd (ii_epochs st))"
    using that by (cases "ii_epochs st"; cases "tl (ii_epochs st)") auto
  moreover have "acyclic (set (ii_parent_child_pairs st))" if "ii_parent_child_pairs st = []"
    using that by (simp add: acyclic_def)
  ultimately show ?thesis
    using has_cycle_iff [of ord "ii_parent_child_pairs st"] assms
    by (auto simp: check_invariants_def all_new_iff non_decreasing_iff list_all_iff)
qed

theorem check_invariants_correct_witness:
  "check_invariants rev \<lparr>ii_node_keys = [''a'', ''b''], ii_epochs = [(''a'', 1), (''b'', 1)],
     ii_parent_child_pairs = [(''a'', ''b'')], ii_grafeo_nodes = [''a''], ii_loro_containers = [''c''],
     ii_parent_child_epochs = [(2, 1)]\<rparr> = Inl I12EpochOrdering"
  using check_invariants_correct [of rev "\<lparr>ii_node_keys = [''a'', ''b''], ii_epochs = [(''a'', 1), (''b'', 1)],
     ii_parent_child_pairs = [(''a'', ''b'')], ii_grafeo_nodes = [''a''], ii_loro_containers = [''c''],
     ii_parent_child_epochs = [(2, 1)]\<rparr>"]
  by simp

end
