(* ===== verification/Sync_Tree.thy ===== *)
theory Sync_Tree
  imports Batcher
begin

text \<open>
  \<^verbatim>\<open>sync_tree_move_to_grafeo\<close> of \<^verbatim>\<open>src/schema/tree.rs\<close>: reparenting inside one grafeo transaction, with the
  breadth-first pre-check \<^verbatim>\<open>would_create_cycle_in_tx\<close>. Node ids are 64-bit words, so the search space is
  finite and the search ends whatever the database answers.
\<close>

section \<open>The pre-check\<close>

text \<open>The loop over the incoming neighbours of one node: \<open>None\<close> is the early \<^verbatim>\<open>return true\<close>.\<close>

fun scan_parents ::
  "node_id \<Rightarrow> node_id list \<Rightarrow> node_id list \<Rightarrow> node_id set \<Rightarrow> (node_id list \<times> node_id set) option" where
  "scan_parents nid [] queue visited = Some (queue, visited)"
| "scan_parents nid (p # ps) queue visited =
     (if p = nid then None
      else if p \<notin> visited then scan_parents nid ps (queue @ [p]) (insert p visited)
      else scan_parents nid ps queue visited)"

lemma scan_parents_Some:
  "scan_parents nid ps q v = Some (q', v') \<Longrightarrow>
     nid \<notin> set ps \<and> v' = v \<union> set ps \<and> (\<exists>new. q' = q @ new \<and> set new = set ps - v)"
proof (induction nid ps q v rule: scan_parents.induct)
  case (2 nid p ps queue visited)
  show ?case
  proof (cases "p \<in> visited")
    case True
    with 2 show ?thesis by (auto split: if_splits)
  next
    case False
    with 2(3) have ne: "p \<noteq> nid" and rec: "scan_parents nid ps (queue @ [p]) (insert p visited) = Some (q', v')"
      by (auto split: if_splits)
    from 2(1) [OF ne False rec] obtain new where "nid \<notin> set ps" "v' = insert p visited \<union> set ps"
      "q' = (queue @ [p]) @ new" "set new = set ps - insert p visited"
      by blast
    with ne False show ?thesis
      by (intro conjI exI [of _ "p # new"]) auto
  qed
qed simp

lemma scan_parents_None: "scan_parents nid ps q v = None \<longleftrightarrow> nid \<in> set ps"
  by (induction nid ps q v rule: scan_parents.induct) auto

function bfs_up :: "(node_id \<Rightarrow> node_id list) \<Rightarrow> node_id \<Rightarrow> node_id list \<Rightarrow> node_id set \<Rightarrow> bool" where
  "bfs_up inc nid [] visited = False"
| "bfs_up inc nid (cur # queue) visited =
     (case scan_parents nid (inc cur) queue visited of
        None \<Rightarrow> True
      | Some (queue, visited) \<Rightarrow> bfs_up inc nid queue visited)"
  by pat_completeness auto
termination
proof (relation "measures [\<lambda>(inc, nid, q, v). card (- v), \<lambda>(inc, nid, q, v). length q]", goal_cases)
  case 1
  show ?case by simp
next
  case (2 inc nid cur queue visited r q' v')
  then obtain new where v': "v' = visited \<union> set (inc cur)" and q': "q' = queue @ new"
    and new: "set new = set (inc cur) - visited"
    using scan_parents_Some [of nid "inc cur" queue visited q' v'] by auto
  show ?case
  proof (cases "set (inc cur) \<subseteq> visited")
    case True
    then have "new = []"
      using new by (metis Diff_eq_empty_iff set_empty)
    with True v' q' show ?thesis by (simp add: Un_absorb2)
  next
    case False
    with v' have "- v' \<subset> - visited" by auto
    then have "card (- v') < card (- visited)" by (intro psubset_card_mono) simp_all
    then show ?thesis by simp
  qed
qed

definition would_create_cycle_in_tx :: "(node_id \<Rightarrow> node_id list) \<Rightarrow> node_id \<Rightarrow> node_id \<Rightarrow> bool" where
  "would_create_cycle_in_tx inc nid new_parent =
     (if nid = new_parent then True else bfs_up inc nid [new_parent] {new_parent})"

section \<open>The move\<close>

record 's tree_api =
  t_db :: "'s db_api"
  t_node_exists :: "node_id \<Rightarrow> 's \<Rightarrow> bool"
  t_begin_serializable :: "'s \<Rightarrow> (string + unit) \<times> 's"
  t_incoming :: "node_id \<Rightarrow> 's \<Rightarrow> (node_id \<times> edge_id) list"
  t_outgoing_by_type :: "node_id \<Rightarrow> string \<Rightarrow> 's \<Rightarrow> (node_id \<times> edge_id) list"

definition unknown_node_id :: "node_id \<Rightarrow> grafeo_loro_error" where
  "unknown_node_id nid = Bridge (Msg ''unknown node_id: {node_id:?}'' [A_Num (unat nid)])"

definition unknown_new_parent :: "node_id \<Rightarrow> grafeo_loro_error" where
  "unknown_new_parent nid = Bridge (Msg ''unknown new_parent: {new_parent:?}'' [A_Num (unat nid)])"

definition find_child_edge :: "node_id \<Rightarrow> (node_id \<times> edge_id) list \<Rightarrow> edge_id option" where
  "find_child_edge nid xs = map_option snd (find (\<lambda>(dst, eid). dst = nid) xs)"

definition sync_tree_move_to_grafeo ::
  "'s tree_api \<Rightarrow> node_id \<Rightarrow> node_id \<Rightarrow> node_id \<Rightarrow> 's \<Rightarrow> unit result \<times> 's" where
  "sync_tree_move_to_grafeo api nid old_parent new_parent s =
     (if \<not> t_node_exists api nid s then (Inl (unknown_node_id nid), s)
      else if \<not> t_node_exists api new_parent s then (Inl (unknown_new_parent new_parent), s)
      else if old_parent = new_parent then (Inr (), s)
      else case t_begin_serializable api s of
        (Inl e, s) \<Rightarrow> (Inl (Grafeo e), d_drop_session (t_db api) s)
      | (Inr _, s) \<Rightarrow>
          (if would_create_cycle_in_tx (\<lambda>n. map fst (t_incoming api n s)) nid new_parent
           then (Inl (TreeMoveCreatesCycle nid new_parent), d_drop_session (t_db api) s)
           else
             let s = (case find_child_edge nid (t_outgoing_by_type api old_parent TREE_EDGE_LABEL s) of
                        Some eid \<Rightarrow> s_delete_edge (d_session (t_db api)) eid s
                      | None \<Rightarrow> s)
             in case s_create_edge (d_session (t_db api)) new_parent nid TREE_EDGE_LABEL s of
                  (eid, s) \<Rightarrow>
             (case d_prepare_commit (t_db api) s of
                (Inl e, s) \<Rightarrow> (Inl (Grafeo e), d_drop_session (t_db api) s)
              | (Inr _, s) \<Rightarrow>
             (case d_commit (t_db api) s of
                (Inl e, s) \<Rightarrow> (Inl (Grafeo e), d_drop_session (t_db api) s)
              | (Inr epoch, s) \<Rightarrow> (Inr (), s)))))"

section \<open>Correctness of the search\<close>

definition up :: "(node_id \<Rightarrow> node_id list) \<Rightarrow> (node_id \<times> node_id) set" where
  "up inc = {(c, p). p \<in> set (inc c)}"

text \<open>The nodes visited and no longer queued have all their parents visited, and \<open>nid\<close> is not among those
  parents.\<close>

lemma closed_reaches_queue:
  assumes "(x, nid) \<in> (up inc)\<^sup>+" and "x \<in> V - set q"
    and "\<forall>c \<in> V - set q. set (inc c) \<subseteq> V \<and> nid \<notin> set (inc c)"
  shows "\<exists>c \<in> set q. (c, nid) \<in> (up inc)\<^sup>+"
  using assms(1,2)
proof (induction rule: converse_trancl_induct)
  case (base y)
  with assms(3) show ?case by (auto simp: up_def)
next
  case (step y z)
  then have "z \<in> V" using assms(3) by (auto simp: up_def)
  with step show ?case by blast
qed

lemma bfs_up_correct:
  assumes "set queue \<subseteq> visited"
    and "\<forall>c \<in> visited - set queue. set (inc c) \<subseteq> visited \<and> nid \<notin> set (inc c)"
  shows "bfs_up inc nid queue visited \<longleftrightarrow> (\<exists>c \<in> set queue. (c, nid) \<in> (up inc)\<^sup>+)"
  using assms
proof (induction inc nid queue visited rule: bfs_up.induct)
  case (1 inc nid visited)
  then show ?case by simp
next
  case (2 inc nid cur queue visited)
  show ?case
  proof (cases "scan_parents nid (inc cur) queue visited")
    case None
    then have "(cur, nid) \<in> up inc" by (simp add: scan_parents_None up_def)
    with None show ?thesis by auto
  next
    case (Some r)
    obtain q' v' where r: "r = (q', v')" by (cases r)
    then obtain new where n: "nid \<notin> set (inc cur)" "v' = visited \<union> set (inc cur)" "q' = queue @ new"
      "set new = set (inc cur) - visited"
      using scan_parents_Some Some by blast
    have inv: "set q' \<subseteq> v'" "\<forall>c \<in> v' - set q'. set (inc c) \<subseteq> v' \<and> nid \<notin> set (inc c)"
      using 2(2,3) n by auto
    have "bfs_up inc nid (cur # queue) visited = bfs_up inc nid q' v'"
      using Some r by simp
    also have "\<dots> \<longleftrightarrow> (\<exists>c \<in> set q'. (c, nid) \<in> (up inc)\<^sup>+)"
      using 2(1) [OF Some r [symmetric] inv] .
    also have "\<dots> \<longleftrightarrow> (\<exists>c \<in> set (cur # queue). (c, nid) \<in> (up inc)\<^sup>+)" (is "?L \<longleftrightarrow> ?R")
    proof
      assume ?L
      then obtain c where c: "c \<in> set q'" "(c, nid) \<in> (up inc)\<^sup>+" by blast
      with n consider "c \<in> set queue" | "(cur, c) \<in> up inc" by (auto simp: up_def)
      then show ?R
        using c(2) by cases (auto intro: trancl_into_trancl2)
    next
      assume ?R
      then obtain c where c: "c \<in> set (cur # queue)" "(c, nid) \<in> (up inc)\<^sup>+" by blast
      show ?L
      proof (cases "c \<in> set q'")
        case True
        with c(2) show ?thesis by blast
      next
        case False
        with c(1) 2(2) n have "c \<in> v' - set q'" by auto
        from closed_reaches_queue [OF c(2) this inv(2)] show ?thesis .
      qed
    qed
    finally show ?thesis .
  qed
qed

lemma would_create_cycle_in_tx_iff:
  "would_create_cycle_in_tx inc nid new_parent \<longleftrightarrow> (new_parent, nid) \<in> (up inc)\<^sup>*"
  using bfs_up_correct [of "[new_parent]" "{new_parent}" inc nid]
  by (auto simp: would_create_cycle_in_tx_def rtrancl_eq_or_trancl simp del: bfs_up.simps)

section \<open>The edges of the database\<close>

text \<open>What the move relies on: transactions work on a copy of the committed edges and publish it when they commit. An
  edge is its source, its destination and its label.\<close>

type_synonym edge_graph = "edge_id \<Rightarrow> (node_id \<times> node_id \<times> string) option"

definition tree_db :: "'s tree_api \<Rightarrow> ('s \<Rightarrow> edge_graph) \<Rightarrow> ('s \<Rightarrow> edge_graph) \<Rightarrow> bool" where
  "tree_db api committed working \<longleftrightarrow>
     (\<forall>s r s'. t_begin_serializable api s = (r, s') \<longrightarrow>
        committed s' = committed s \<and> (r = Inr () \<longrightarrow> working s' = committed s)) \<and>
     (\<forall>eid s. committed (s_delete_edge (d_session (t_db api)) eid s) = committed s \<and>
        working (s_delete_edge (d_session (t_db api)) eid s) = (working s)(eid := None)) \<and>
     (\<forall>a b l s eid s'. s_create_edge (d_session (t_db api)) a b l s = (eid, s') \<longrightarrow> committed s' = committed s \<and>
        (dom (working s) \<noteq> UNIV \<longrightarrow> working s eid = None \<and> working s' = (working s)(eid \<mapsto> (a, b, l)))) \<and>
     (\<forall>s r s'. d_prepare_commit (t_db api) s = (r, s') \<longrightarrow> committed s' = committed s \<and> working s' = working s) \<and>
     (\<forall>s e s'. d_commit (t_db api) s = (Inl e, s') \<longrightarrow> committed s' = committed s) \<and>
     (\<forall>s n s'. d_commit (t_db api) s = (Inr n, s') \<longrightarrow> committed s' = working s \<and> working s' = working s) \<and>
     (\<forall>s. committed (d_drop_session (t_db api) s) = committed s \<and> working (d_drop_session (t_db api) s) = committed s) \<and>
     (\<forall>n s. fst ` set (t_incoming api n s) = {a. \<exists>e l. working s e = Some (a, n, l)}) \<and>
     (\<forall>n l s. set (t_outgoing_by_type api n l s) = {(b, e). working s e = Some (n, b, l)})"

lemma tree_dbD:
  assumes "tree_db api committed working"
  shows "t_begin_serializable api s = (r, s') \<Longrightarrow> committed s' = committed s"
    and "t_begin_serializable api s = (Inr (), s') \<Longrightarrow> working s' = committed s"
    and "committed (s_delete_edge (d_session (t_db api)) eid s) = committed s"
    and "working (s_delete_edge (d_session (t_db api)) eid s) = (working s)(eid := None)"
    and "d_prepare_commit (t_db api) s = (r, s') \<Longrightarrow> committed s' = committed s \<and> working s' = working s"
    and "d_commit (t_db api) s = (Inl msg, s') \<Longrightarrow> committed s' = committed s"
    and "d_commit (t_db api) s = (Inr n, s') \<Longrightarrow> committed s' = working s \<and> working s' = working s"
    and "committed (d_drop_session (t_db api) s) = committed s"
    and "working (d_drop_session (t_db api) s) = committed s"
    and "fst ` set (t_incoming api m s) = {a. \<exists>e l. working s e = Some (a, m, l)}"
    and "set (t_outgoing_by_type api m l s) = {(b, e). working s e = Some (m, b, l)}"
    and "s_create_edge (d_session (t_db api)) a b l s = (eid, s') \<Longrightarrow> committed s' = committed s"
    and "s_create_edge (d_session (t_db api)) a b l s = (eid, s') \<Longrightarrow> dom (working s) \<noteq> UNIV \<Longrightarrow>
      working s eid = None \<and> working s' = (working s)(eid \<mapsto> (a, b, l))"
proof -
  note r0 = assms [unfolded tree_db_def]
  note r1 = r0 [THEN conjunct2] and r2 = r0 [THEN conjunct2, THEN conjunct2]
  note r3 = r2 [THEN conjunct2] and r4 = r2 [THEN conjunct2, THEN conjunct2]
  note r5 = r4 [THEN conjunct2] and r6 = r4 [THEN conjunct2, THEN conjunct2]
  note r7 = r6 [THEN conjunct2]
  show "t_begin_serializable api s = (r, s') \<Longrightarrow> committed s' = committed s"
    and "t_begin_serializable api s = (Inr (), s') \<Longrightarrow> working s' = committed s"
    using r0 [THEN conjunct1] by blast+
  show "committed (s_delete_edge (d_session (t_db api)) eid s) = committed s"
    and "working (s_delete_edge (d_session (t_db api)) eid s) = (working s)(eid := None)"
    using r1 [THEN conjunct1] by blast+
  show "s_create_edge (d_session (t_db api)) a b l s = (eid, s') \<Longrightarrow> committed s' = committed s"
    and "s_create_edge (d_session (t_db api)) a b l s = (eid, s') \<Longrightarrow> dom (working s) \<noteq> UNIV \<Longrightarrow>
      working s eid = None \<and> working s' = (working s)(eid \<mapsto> (a, b, l))"
    using r2 [THEN conjunct1] by blast+
  show "d_prepare_commit (t_db api) s = (r, s') \<Longrightarrow> committed s' = committed s \<and> working s' = working s" for r :: "string + unit"
    using r3 [THEN conjunct1] by blast
  show "d_commit (t_db api) s = (Inl msg, s') \<Longrightarrow> committed s' = committed s"
    using r4 [THEN conjunct1] by blast
  show "d_commit (t_db api) s = (Inr n, s') \<Longrightarrow> committed s' = working s \<and> working s' = working s"
    using r5 [THEN conjunct1] by blast
  show "committed (d_drop_session (t_db api) s) = committed s" "working (d_drop_session (t_db api) s) = committed s"
    using r6 [THEN conjunct1] by blast+
  show "fst ` set (t_incoming api m s) = {a. \<exists>e l. working s e = Some (a, m, l)}"
    using r7 [THEN conjunct1] by blast
  show "set (t_outgoing_by_type api m l s) = {(b, e). working s e = Some (m, b, l)}"
    using r7 [THEN conjunct2] by blast
qed

definition parents :: "edge_graph \<Rightarrow> (node_id \<times> node_id) set" where
  "parents g = {(c, p). \<exists>e l. g e = Some (p, c, l)}"

lemma tree_db_up:
  assumes "tree_db api committed working"
  shows "up (\<lambda>n. map fst (t_incoming api n s)) = parents (working s)"
  using tree_dbD(10) [OF assms] by (auto simp: up_def parents_def)

definition tx_call_fails :: "'s tree_api \<Rightarrow> string \<Rightarrow> bool" where
  "tx_call_fails api msg \<longleftrightarrow> (\<exists>s s'. t_begin_serializable api s = (Inl msg, s') \<or>
     d_prepare_commit (t_db api) s = (Inl msg, s') \<or> d_commit (t_db api) s = (Inl msg, s'))"

text \<open>The edges after a move: at most one tree edge of the old parent gone, one of the new parent added under a free
  id.\<close>

definition reparented :: "node_id \<Rightarrow> node_id \<Rightarrow> node_id \<Rightarrow> edge_graph \<Rightarrow> edge_graph \<Rightarrow> bool" where
  "reparented nid old_parent new_parent g g' \<longleftrightarrow> (\<exists>g1 eid.
     (if \<exists>e. g e = Some (old_parent, nid, TREE_EDGE_LABEL)
      then \<exists>e. g e = Some (old_parent, nid, TREE_EDGE_LABEL) \<and> g1 = g(e := None) else g1 = g) \<and>
     g1 eid = None \<and> g' = g1(eid \<mapsto> (new_parent, nid, TREE_EDGE_LABEL)))"

lemma reparented_acyclic:
  assumes "reparented nid old_parent new_parent g g'" and "(new_parent, nid) \<notin> (parents g)\<^sup>*" and "acyclic (parents g)"
  shows "acyclic (parents g')"
proof (rule acyclic_subset)
  show "acyclic (insert (nid, new_parent) (parents g))" using assms(2,3) by (simp add: acyclic_insert)
  show "parents g' \<subseteq> insert (nid, new_parent) (parents g)"
    using assms(1) by (fastforce simp: reparented_def parents_def split: if_splits)
qed

text \<open>The steps of the move after the pre-check.\<close>

definition delete_old :: "'s tree_api \<Rightarrow> node_id \<Rightarrow> node_id \<Rightarrow> 's \<Rightarrow> 's" where
  "delete_old api nid old_parent s = (case find_child_edge nid (t_outgoing_by_type api old_parent TREE_EDGE_LABEL s) of
     Some eid \<Rightarrow> s_delete_edge (d_session (t_db api)) eid s | None \<Rightarrow> s)"

definition create_child :: "'s tree_api \<Rightarrow> node_id \<Rightarrow> node_id \<Rightarrow> 's \<Rightarrow> 's" where
  "create_child api nid new_parent s = snd (s_create_edge (d_session (t_db api)) new_parent nid TREE_EDGE_LABEL s)"

definition finish_move :: "'s tree_api \<Rightarrow> 's \<Rightarrow> unit result \<times> 's" where
  "finish_move api s = (case d_prepare_commit (t_db api) s of
     (Inl e, s) \<Rightarrow> (Inl (Grafeo e), d_drop_session (t_db api) s)
   | (Inr _, s) \<Rightarrow> (case d_commit (t_db api) s of
       (Inl e, s) \<Rightarrow> (Inl (Grafeo e), d_drop_session (t_db api) s)
     | (Inr epoch, s) \<Rightarrow> (Inr (), s)))"

lemma find_child_edge_iff:
  "find_child_edge nid xs = None \<longleftrightarrow> (\<forall>e. (nid, e) \<notin> set xs)"
  "find_child_edge nid xs = Some e \<Longrightarrow> (nid, e) \<in> set xs"
  by (auto simp: find_child_edge_def find_None_iff find_Some_iff) (metis nth_mem)

lemma delete_old_edges:
  assumes "tree_db api committed working"
  shows "committed (delete_old api nid old_parent s) = committed s"
    and "if \<exists>e. working s e = Some (old_parent, nid, TREE_EDGE_LABEL)
      then \<exists>e. working s e = Some (old_parent, nid, TREE_EDGE_LABEL) \<and>
        working (delete_old api nid old_parent s) = (working s)(e := None)
      else working (delete_old api nid old_parent s) = working s"
    and "dom (working (delete_old api nid old_parent s)) \<subseteq> dom (working s)"
proof -
  let ?out = "t_outgoing_by_type api old_parent TREE_EDGE_LABEL s"
  note laws = tree_dbD [OF assms]
  have out: "(b, e) \<in> set ?out \<longleftrightarrow> working s e = Some (old_parent, b, TREE_EDGE_LABEL)" for b e
    by (simp add: laws(11))
  show "committed (delete_old api nid old_parent s) = committed s"
    by (simp add: delete_old_def laws(3) split: option.split)
  show "dom (working (delete_old api nid old_parent s)) \<subseteq> dom (working s)"
    by (auto simp: delete_old_def laws(4) split: option.splits if_splits)
  show "if \<exists>e. working s e = Some (old_parent, nid, TREE_EDGE_LABEL)
      then \<exists>e. working s e = Some (old_parent, nid, TREE_EDGE_LABEL) \<and>
        working (delete_old api nid old_parent s) = (working s)(e := None)
      else working (delete_old api nid old_parent s) = working s"
  proof (cases "find_child_edge nid ?out")
    case None
    then show ?thesis using find_child_edge_iff(1) [of nid ?out] by (simp add: delete_old_def out)
  next
    case (Some e)
    from find_child_edge_iff(2) [OF Some] Some show ?thesis by (auto simp: delete_old_def out laws(4))
  qed
qed

lemma edges_of_move:
  assumes "tree_db api committed working" and "dom (working s) \<noteq> UNIV"
    and "s2 = create_child api nid new_parent (delete_old api nid old_parent s)"
  shows "committed s2 = committed s" and "reparented nid old_parent new_parent (working s) (working s2)"
proof -
  let ?s1 = "delete_old api nid old_parent s"
  obtain eid where c: "s_create_edge (d_session (t_db api)) new_parent nid TREE_EDGE_LABEL ?s1 = (eid, s2)"
    unfolding assms(3) create_child_def by (metis prod.collapse)
  note d = delete_old_edges [OF assms(1), where nid = nid and old_parent = old_parent and s = s]
  from d(3) assms(2) have "dom (working ?s1) \<noteq> UNIV" by blast
  with tree_dbD(13) [OF assms(1) c] d(2) show "reparented nid old_parent new_parent (working s) (working s2)"
    unfolding reparented_def by (intro exI [of _ "working ?s1"] exI [of _ eid]) simp
  show "committed s2 = committed s" using tree_dbD(12) [OF assms(1) c] d(1) by simp
qed

lemma finish_move_cases:
  assumes "tree_db api committed working"
  shows "case finish_move api s of
      (Inl e, s') \<Rightarrow> committed s' = committed s \<and> working s' = committed s' \<and> (\<exists>msg. e = Grafeo msg \<and> tx_call_fails api msg)
    | (Inr _, s') \<Rightarrow> committed s' = working s \<and> working s' = committed s'"
proof -
  note laws = tree_dbD [OF assms]
  obtain r s1 where p: "d_prepare_commit (t_db api) s = (r, s1)" by fastforce
  obtain r' s2 where c: "d_commit (t_db api) s1 = (r', s2)" by fastforce
  show ?thesis
    using p c laws(5) [OF p] laws(6) [of s1 _ s2] laws(7) [of s1 _ s2]
    by (cases r; cases r') (auto simp: finish_move_def tx_call_fails_def laws(8,9))
qed

section \<open>Properties\<close>

text \<open>Property C8 (tree_move_precheck_correct). The search always ends, answers whether the node lies at or
  above the proposed parent (along the incoming edges the session reports), and thereby protects the
  transaction: from an acyclic graph, adding the new parent edge of an accepted move, whatever edge
  of the old parent is removed, leaves an acyclic graph.\<close>

theorem tree_move_precheck_correct:
  "would_create_cycle_in_tx inc nid new_parent = ((new_parent, nid) \<in> (up inc)\<^sup>*) \<and>
   (acyclic (up inc) \<and> \<not> would_create_cycle_in_tx inc nid new_parent \<longrightarrow>
      acyclic (insert (nid, new_parent) (up inc - removed)))"
proof -
  have "acyclic (insert (nid, new_parent) (up inc - removed))"
    if "acyclic (up inc)" and "(new_parent, nid) \<notin> (up inc)\<^sup>*"
  proof (rule acyclic_subset)
    show "acyclic (insert (nid, new_parent) (up inc))"
      using that by (simp add: acyclic_insert)
  qed auto
  then show ?thesis by (simp add: would_create_cycle_in_tx_iff)
qed

theorem tree_move_precheck_correct_witness:
  "let inc = (\<lambda>n. if n = 3 then [2] else if n = 2 then [1] else []) in
   would_create_cycle_in_tx inc 1 3 \<and> \<not> would_create_cycle_in_tx inc 3 1 \<and>
   acyclic (insert (3, 1) (up inc - {(3, 2)}))"
proof -
  let ?inc = "\<lambda>n :: node_id. if n = 3 then [2] else if n = 2 then [1] else [] :: node_id list"
  have "up ?inc = {(3, 2), (2, 1)}"
    by (auto simp: up_def split: if_splits)
  moreover have "acyclic {(3 :: node_id, 2), (2, 1)}"
    by (rule acyclicI_order [where f = unat]) auto
  moreover have "would_create_cycle_in_tx ?inc 1 3" "\<not> would_create_cycle_in_tx ?inc 3 1"
    by (simp_all add: would_create_cycle_in_tx_def)
  ultimately show ?thesis
    using tree_move_precheck_correct [of ?inc 3 1 "{(3, 2)}"] by simp
qed

text \<open>Property C22 (sync_tree_move_outcomes). The move is atomic. It returns Ok only for known nodes; then either the
  parents are equal and nothing changed, or the new parent is not at or below the node, and the committed edges lost one
  tree edge from the old parent to the node (if there was one) and gained exactly one tree edge from the new parent, which
  keeps an acyclic graph acyclic. Every error leaves the committed edges as they were and no uncommitted change behind:
  an unknown node, an unknown new parent and a move that closes a cycle are reported as such, and any other error is one
  that a transaction call of the database returned. On a database whose transactions do not fail the accepted moves are
  therefore exactly those between known nodes that close no cycle.\<close>

theorem sync_tree_move_outcomes:
  assumes "tree_db api committed working" and "working s = committed s" and "dom (committed s) \<noteq> UNIV"
  shows "case sync_tree_move_to_grafeo api nid old_parent new_parent s of
      (Inl e, s') \<Rightarrow> committed s' = committed s \<and> working s' = committed s' \<and>
        (if \<not> t_node_exists api nid s then e = unknown_node_id nid
         else if \<not> t_node_exists api new_parent s then e = unknown_new_parent new_parent
         else old_parent \<noteq> new_parent \<and>
           (e = TreeMoveCreatesCycle nid new_parent \<and> (new_parent, nid) \<in> (parents (committed s))\<^sup>* \<or>
            (\<exists>msg. e = Grafeo msg \<and> tx_call_fails api msg)))
    | (Inr _, s') \<Rightarrow> t_node_exists api nid s \<and> t_node_exists api new_parent s \<and> working s' = committed s' \<and>
        (if old_parent = new_parent then committed s' = committed s
         else (new_parent, nid) \<notin> (parents (committed s))\<^sup>* \<and>
           reparented nid old_parent new_parent (committed s) (committed s') \<and>
           (acyclic (parents (committed s)) \<longrightarrow> acyclic (parents (committed s'))))"
proof (cases "t_node_exists api nid s \<and> t_node_exists api new_parent s \<and> old_parent \<noteq> new_parent")
  case False
  then show ?thesis using assms(2) by (auto simp: sync_tree_move_to_grafeo_def)
next
  case True
  note laws = tree_dbD [OF assms(1)]
  obtain r s1 where b: "t_begin_serializable api s = (r, s1)" by fastforce
  show ?thesis
  proof (cases r)
    case (Inl e)
    with True b show ?thesis
      by (auto simp: sync_tree_move_to_grafeo_def laws tx_call_fails_def laws(1) [OF b])
  next
    case (Inr u)
    then have b1: "t_begin_serializable api s = (Inr (), s1)" using b by simp
    have w1: "committed s1 = committed s" "working s1 = committed s" using laws(1,2) b1 by blast+
    have inc: "up (\<lambda>n. map fst (t_incoming api n s1)) = parents (committed s)"
      unfolding w1(2) [symmetric] by (rule tree_db_up [OF assms(1)])
    have old: "sync_tree_move_to_grafeo api nid old_parent new_parent s =
        (if (new_parent, nid) \<in> (parents (committed s))\<^sup>*
         then (Inl (TreeMoveCreatesCycle nid new_parent), d_drop_session (t_db api) s1)
         else finish_move api (create_child api nid new_parent (delete_old api nid old_parent s1)))"
      using True b1 by (simp add: sync_tree_move_to_grafeo_def would_create_cycle_in_tx_iff inc Let_def
          finish_move_def create_child_def delete_old_def split: prod.splits)
    show ?thesis
    proof (cases "(new_parent, nid) \<in> (parents (committed s))\<^sup>*")
      case True
      with old w1 \<open>t_node_exists api nid s \<and> _\<close> show ?thesis by (simp add: laws(8,9))
    next
      case False
      let ?s2 = "create_child api nid new_parent (delete_old api nid old_parent s1)"
      have s2: "committed ?s2 = committed s" "reparented nid old_parent new_parent (committed s) (working ?s2)"
        using edges_of_move [OF assms(1), of s1 ?s2 nid new_parent old_parent] w1 assms(3) by simp_all
      from reparented_acyclic [OF s2(2) False] s2 finish_move_cases [OF assms(1), of ?s2]
        old False \<open>t_node_exists api nid s \<and> _\<close>
      show ?thesis by (auto split: prod.splits sum.splits)
    qed
  qed
qed

text \<open>The database of the witness: nodes below a bound, and the committed and the working edges as lists of slots, the
  index of a slot being the id of its edge.\<close>

type_synonym slots = "(node_id \<times> node_id \<times> string) option list"

definition edge_at :: "slots \<Rightarrow> edge_graph" where
  "edge_at es e = (if unat e < length es then es ! unat e else None)"

definition slot_edges :: "slots \<Rightarrow> (edge_id \<times> node_id \<times> node_id \<times> string) list" where
  "slot_edges es = concat (map (\<lambda>(i, x). case x of Some e \<Rightarrow> if i < 2 ^ 64 then [(of_nat i, e)] else [] | None \<Rightarrow> [])
     (enumerate 0 es))"

definition free_slot :: "slots \<Rightarrow> nat" where
  "free_slot es = length (takeWhile (\<lambda>x. x \<noteq> None) es)"

definition fill_slot :: "node_id \<times> node_id \<times> string \<Rightarrow> slots \<Rightarrow> slots" where
  "fill_slot x es = (if free_slot es < length es then es[free_slot es := Some x] else es @ [Some x])"

definition slot_db :: "(slots \<times> slots) tree_api" where
  "slot_db = \<lparr>
     t_db = \<lparr>d_session = \<lparr>s_set_node_property = (\<lambda>n k v s. (Inr (), s)), s_set_edge_property = (\<lambda>n k v s. (Inr (), s)),
         s_create_node_with_props = (\<lambda>ls ps s. (Inl ''not used'', s)),
         s_create_edge_with_props = (\<lambda>a b l ps s. (Inl ''not used'', s)),
         s_create_edge = (\<lambda>a b l (c, w). (of_nat (free_slot w), (c, fill_slot (a, b, l) w))),
         s_delete_node = (\<lambda>n s. s), s_delete_edge = (\<lambda>e (c, w). (c, w[unat e := None]))\<rparr>,
       d_begin_transaction = (\<lambda>(c, w). (Inr (), (c, c))), d_prepare_commit = (\<lambda>s. (Inr (), s)),
       d_commit = (\<lambda>(c, w). (Inr 1, (w, w))), d_drop_session = (\<lambda>(c, w). (c, c))\<rparr>,
     t_node_exists = (\<lambda>n s. n < 10), t_begin_serializable = (\<lambda>(c, w). (Inr (), (c, c))),
     t_incoming = (\<lambda>n (c, w). map (\<lambda>(e, a, b, l). (a, e)) (filter (\<lambda>(e, a, b, l). b = n) (slot_edges w))),
     t_outgoing_by_type = (\<lambda>n t (c, w). map (\<lambda>(e, a, b, l). (b, e)) (filter (\<lambda>(e, a, b, l). a = n \<and> l = t) (slot_edges w)))\<rparr>"

lemma set_slot_edges: "(e, x) \<in> set (slot_edges es) \<longleftrightarrow> edge_at es e = Some x"
proof
  assume "(e, x) \<in> set (slot_edges es)"
  then obtain i where "i < length es" "es ! i = Some x" "i < 2 ^ 64" "e = of_nat i"
    by (auto simp: slot_edges_def in_set_enumerate_eq split: option.splits if_splits)
  then show "edge_at es e = Some x" by (simp add: edge_at_def unat_of_nat take_bit_nat_eq_self)
next
  assume "edge_at es e = Some x"
  then have "unat e < length es" "es ! unat e = Some x" by (auto simp: edge_at_def split: if_splits)
  moreover have "unat e < 2 ^ 64" using unsigned_less [of e] by simp
  moreover from calculation have slot: "(unat e, Some x) \<in> set (enumerate 0 es)" by (simp add: in_set_enumerate_eq)
  ultimately show "(e, x) \<in> set (slot_edges es)"
    unfolding slot_edges_def set_concat set_map by (intro UnionI [OF imageI [OF imageI [OF slot]]]) simp
qed

lemma edge_at_clear: "edge_at (es[unat e := None]) = (edge_at es)(e := None)"
  by (auto simp: edge_at_def fun_eq_iff nth_list_update word_unat_eq_iff)

lemma edge_at_fill:
  assumes "dom (edge_at es) \<noteq> UNIV"
  shows "edge_at es (of_nat (free_slot es)) = None \<and>
    edge_at (fill_slot x es) = (edge_at es)(of_nat (free_slot es) \<mapsto> x)"
proof -
  let ?n = "free_slot es"
  have used: "es ! i \<noteq> None" if "i < ?n" for i
  proof -
    have "takeWhile (\<lambda>x. x \<noteq> None) es ! i \<in> set (takeWhile (\<lambda>x. x \<noteq> None) es)"
      using that by (intro nth_mem) (simp add: free_slot_def)
    then have "takeWhile (\<lambda>x. x \<noteq> None) es ! i \<noteq> None" by (rule set_takeWhileD [THEN conjunct2])
    then show ?thesis using that by (simp add: free_slot_def takeWhile_nth)
  qed
  have le: "?n \<le> length es" by (simp add: free_slot_def length_takeWhile_le)
  have "\<not> 2 ^ 64 \<le> ?n"
  proof
    assume full: "2 ^ 64 \<le> ?n"
    have "edge_at es e \<noteq> None" for e
    proof -
      have "unat e < 2 ^ 64" using unsigned_less [of e] by simp
      with full have "unat e < ?n" by linarith
      then show ?thesis using used le by (simp add: edge_at_def)
    qed
    then have "dom (edge_at es) = UNIV" by auto
    with assms show False ..
  qed
  then have u: "unat (of_nat ?n :: edge_id) = ?n" by (simp add: unat_of_nat take_bit_nat_eq_self)
  have id: "e = of_nat ?n \<longleftrightarrow> unat e = ?n" for e :: edge_id using u by (metis word_unat_eq_iff)
  have "?n < length es \<Longrightarrow> es ! ?n = None"
    using nth_length_takeWhile [of "\<lambda>x. x \<noteq> None" es] unfolding free_slot_def by metis
  then have "edge_at es (of_nat ?n) = None" by (simp add: edge_at_def u)
  moreover have "edge_at (fill_slot x es) e = ((edge_at es)(of_nat ?n \<mapsto> x)) e" for e
    using le by (auto simp: edge_at_def fill_slot_def id nth_append nth_list_update)
  ultimately show ?thesis by blast
qed

lemma slot_db_laws: "tree_db slot_db (edge_at \<circ> fst) (edge_at \<circ> snd)"
  unfolding tree_db_def
  by (auto simp: slot_db_def edge_at_clear edge_at_fill set_slot_edges [symmetric] image_iff split: prod.splits) blast+

definition two_edges :: slots where
  "two_edges = [Some (2, 1, TREE_EDGE_LABEL), Some (1, 3, TREE_EDGE_LABEL)]"

theorem sync_tree_move_outcomes_witness:
  "(case sync_tree_move_to_grafeo slot_db 1 2 3 (two_edges, two_edges) of (r, s') \<Rightarrow>
      r = Inl (TreeMoveCreatesCycle 1 3) \<and> edge_at (fst s') = edge_at two_edges) \<and>
   (case sync_tree_move_to_grafeo slot_db 3 1 2 (two_edges, two_edges) of (r, s') \<Rightarrow>
      r = Inr () \<and> reparented 3 1 2 (edge_at two_edges) (edge_at (fst s')) \<and> edge_at (snd s') = edge_at (fst s'))"
proof -
  let ?g = "edge_at two_edges"
  have "?g 5 = None" by (simp add: edge_at_def two_edges_def)
  then have room: "dom ((edge_at \<circ> fst) (two_edges, two_edges)) \<noteq> UNIV" by auto
  have same: "(edge_at \<circ> snd) (two_edges, two_edges) = (edge_at \<circ> fst) (two_edges, two_edges)" by simp
  have ok: "\<not> tx_call_fails slot_db msg" for msg by (auto simp: tx_call_fails_def slot_db_def)
  have ex: "t_node_exists slot_db n (two_edges, two_edges)" if "n < 10" for n using that by (simp add: slot_db_def)
  have "?g 1 = Some (1, 3, TREE_EDGE_LABEL)" by (simp add: edge_at_def two_edges_def)
  then have "(3, 1) \<in> parents ?g" unfolding parents_def by blast
  then have below: "(3, 1) \<in> (parents ?g)\<^sup>*" ..
  have "(2, y) \<notin> parents ?g" for y
    by (auto simp: parents_def edge_at_def two_edges_def less_Suc_eq nth_Cons split: if_splits nat.splits)
  then have apart: "(2, 3) \<notin> (parents ?g)\<^sup>*" by (auto elim: converse_rtranclE)
  obtain r s' where r: "sync_tree_move_to_grafeo slot_db 1 2 3 (two_edges, two_edges) = (r, s')" by (metis surj_pair)
  obtain q t where q: "sync_tree_move_to_grafeo slot_db 3 1 2 (two_edges, two_edges) = (q, t)" by (metis surj_pair)
  have "r = Inl (TreeMoveCreatesCycle 1 3) \<and> edge_at (fst s') = ?g"
    using sync_tree_move_outcomes [OF slot_db_laws same room, of 1 3 2] ok ex below unfolding r by (cases r) simp_all
  moreover have "q = Inr () \<and> reparented 3 1 2 ?g (edge_at (fst t)) \<and> edge_at (snd t) = edge_at (fst t)"
    using sync_tree_move_outcomes [OF slot_db_laws same room, of 3 2 1] ok ex apart unfolding q by (cases q) simp_all
  ultimately show ?thesis by (simp add: r q)
qed

text \<open>The pre-check does not protect two moves that run at the same
  time: for any two unrelated nodes of an acyclic graph, moving each under the other is accepted
  against the common snapshot, and both edges together form a cycle. With no conflict detection
  between the transactions, the committed graph is then cyclic.\<close>

theorem concurrent_moves_close_cycle:
  assumes "(a, b) \<notin> (up inc)\<^sup>*" and "(b, a) \<notin> (up inc)\<^sup>*"
  shows "\<not> would_create_cycle_in_tx inc a b \<and> \<not> would_create_cycle_in_tx inc b a \<and>
    \<not> acyclic (insert (b, a) (insert (a, b) (up inc)))"
proof -
  have "(a, a) \<in> (insert (b, a) (insert (a, b) (up inc)))\<^sup>+"
    by (rule trancl_trans [of a b]) auto
  with assms show ?thesis
    by (auto simp: would_create_cycle_in_tx_iff acyclic_def)
qed

theorem concurrent_moves_close_cycle_witness:
  "\<not> would_create_cycle_in_tx (\<lambda>n. []) 1 2 \<and> \<not> would_create_cycle_in_tx (\<lambda>n. []) 2 1 \<and>
   acyclic (up (\<lambda>n. [])) \<and> \<not> acyclic (insert (2, 1) (insert (1, 2) (up (\<lambda>n. []))))"
proof -
  have "up (\<lambda>n. []) = {}" by (simp add: up_def)
  then show ?thesis
    using concurrent_moves_close_cycle [of 1 2 "\<lambda>n. []"] by (simp add: acyclic_def)
qed

end
