(* ===== verification/Tree_Adapter.thy ===== *)
theory Tree_Adapter
  imports Grafeo_Tx
begin

text \<open>
  The tree view over the bridge maps (\<^verbatim>\<open>src/tree_adapter/mod.rs\<close>): parent and children read from the
  \<^verbatim>\<open>CHILD\<close> edges of the edge table, the traversals built on them, and the operations the adapter hands
  to the bridge. The order of siblings is the iteration order of the edge table. Node ids are 64-bit
  words, so both traversals end on every table, also on a corrupted one with cycles.
\<close>

section \<open>The adapter\<close>

record ta_cycle_error =
  tce_node :: node_id
  tce_new_parent :: node_id

record tree_node =
  tn_id :: node_id
  tn_parent :: "node_id option"
  tn_children :: "node_id list"

definition ta_node_key :: "bridge_maps \<Rightarrow> node_id \<Rightarrow> string result" where
  "ta_node_key maps node = (case hm_get (node_key_map maps) node of
     Some key \<Rightarrow> Inr key
   | None \<Rightarrow> Inl (Bridge (Msg ''unknown node id: {node:?}'' [A_Num (unat node)])))"

definition ta_node_id :: "bridge_maps \<Rightarrow> string \<Rightarrow> node_id result" where
  "ta_node_id maps loro_key = (case hm_get (node_id_map maps) loro_key of
     Some nid \<Rightarrow> Inr nid
   | None \<Rightarrow> Inl (Bridge (Msg ''unknown node key: {loro_key:?}'' [A_Str loro_key])))"

definition ta_parent :: "bridge_maps \<Rightarrow> node_id \<Rightarrow> node_id option result" where
  "ta_parent maps node = (case ta_node_key maps node of
     Inl e \<Rightarrow> Inl e
   | Inr node_key \<Rightarrow>
       (case map_option (\<lambda>(src_key, _, _). src_key)
          (find (\<lambda>(_, dst_key, label). label = TREE_EDGE_LABEL \<and> dst_key = node_key)
             (hm_keys (edge_id_map maps))) of
          Some pk \<Rightarrow> (case ta_node_id maps pk of Inl e \<Rightarrow> Inl e | Inr p \<Rightarrow> Inr (Some p))
        | None \<Rightarrow> Inr None))"

definition child_keys :: "bridge_maps \<Rightarrow> string \<Rightarrow> string list" where
  "child_keys maps node_key =
     List.map_filter (\<lambda>(src_key, dst_key, label).
         if label = TREE_EDGE_LABEL \<and> src_key = node_key then Some dst_key else None)
       (hm_keys (edge_id_map maps))"

text \<open>The loop that translates the keys back; a key without a binding is skipped.\<close>

fun bound_ids :: "bridge_maps \<Rightarrow> string list \<Rightarrow> node_id list" where
  "bound_ids maps [] = []"
| "bound_ids maps (ck # cks) = (case ta_node_id maps ck of
     Inr cid \<Rightarrow> cid # bound_ids maps cks
   | Inl _ \<Rightarrow> bound_ids maps cks)"

definition ta_children :: "bridge_maps \<Rightarrow> node_id \<Rightarrow> node_id list result" where
  "ta_children maps node = (case ta_node_key maps node of
     Inl e \<Rightarrow> Inl e
   | Inr node_key \<Rightarrow> Inr (bound_ids maps (child_keys maps node_key)))"

definition ta_view :: "bridge_maps \<Rightarrow> node_id \<Rightarrow> tree_node result" where
  "ta_view maps node = (case ta_parent maps node of
     Inl e \<Rightarrow> Inl e
   | Inr p \<Rightarrow> (case ta_children maps node of
       Inl e \<Rightarrow> Inl e
     | Inr cs \<Rightarrow> Inr \<lparr>tn_id = node, tn_parent = p, tn_children = cs\<rparr>))"

text \<open>The stack of \<^verbatim>\<open>descendants\<close>: the head of the list is the top. Children are pushed in reverse, so that
  the first child ends on top.\<close>

function desc_loop :: "bridge_maps \<Rightarrow> node_id list \<Rightarrow> node_id set \<Rightarrow> node_id list \<Rightarrow> node_id list" where
  "desc_loop maps [] visited out = out"
| "desc_loop maps (n # stack) visited out =
     (if n \<in> visited then desc_loop maps stack visited out
      else desc_loop maps
        (case ta_children maps n of Inr cs \<Rightarrow> fold (#) (rev cs) stack | Inl _ \<Rightarrow> stack)
        (insert n visited) (out @ [n]))"
  by pat_completeness auto
termination
proof (relation "measures [\<lambda>(m, st, v, out). card (- v), \<lambda>(m, st, v, out). length st]", goal_cases)
  case (3 maps n stack visited out)
  then have "- insert n visited \<subset> - visited" by auto
  then have "card (- insert n visited) < card (- visited)" by (intro psubset_card_mono) simp_all
  then show ?case by simp
qed simp_all

definition descendants :: "bridge_maps \<Rightarrow> node_id \<Rightarrow> node_id list" where
  "descendants maps node = (case ta_children maps node of
     Inl _ \<Rightarrow> []
   | Inr cs \<Rightarrow> desc_loop maps cs {node} [])"

function anc_loop :: "bridge_maps \<Rightarrow> node_id \<Rightarrow> node_id set \<Rightarrow> node_id list \<Rightarrow> node_id list" where
  "anc_loop maps current visited out = (case ta_parent maps current of
     Inr (Some p) \<Rightarrow>
       (if p \<in> visited then out else anc_loop maps p (insert p visited) (out @ [p]))
   | _ \<Rightarrow> out)"
  by pat_completeness auto
termination
proof (relation "measure (\<lambda>(m, c, v, out). card (- v))", goal_cases)
  case (2 maps current visited out r q)
  then have "- insert q visited \<subset> - visited" by auto
  then have "card (- insert q visited) < card (- visited)" by (intro psubset_card_mono) simp_all
  then show ?case by simp
qed simp

declare anc_loop.simps [simp del]

definition ancestors :: "bridge_maps \<Rightarrow> node_id \<Rightarrow> node_id list" where
  "ancestors maps node = anc_loop maps node {node} []"

definition create_child_op :: "node_id \<Rightarrow> string \<Rightarrow> string \<Rightarrow> loro_op" where
  "create_child_op parent child_loro_key label = UpsertNode child_loro_key [label] []"

definition move_op :: "string \<Rightarrow> string \<Rightarrow> string \<Rightarrow> loro_op" where
  "move_op node_loro_key old_parent_loro_key new_parent_loro_key =
     TreeMove node_loro_key old_parent_loro_key new_parent_loro_key"

definition indent_op :: "string \<Rightarrow> string \<Rightarrow> string \<Rightarrow> loro_op" where
  "indent_op node_loro_key parent_loro_key previous_sibling_loro_key =
     move_op node_loro_key parent_loro_key previous_sibling_loro_key"

definition outdent_op :: "string \<Rightarrow> string \<Rightarrow> string \<Rightarrow> loro_op" where
  "outdent_op node_loro_key parent_loro_key grandparent_loro_key =
     move_op node_loro_key parent_loro_key grandparent_loro_key"

section \<open>Children and parents\<close>

definition kids :: "bridge_maps \<Rightarrow> node_id \<Rightarrow> node_id list" where
  "kids maps n = (case ta_children maps n of Inr cs \<Rightarrow> cs | Inl _ \<Rightarrow> [])"

definition child_rel :: "bridge_maps \<Rightarrow> (node_id \<times> node_id) set" where
  "child_rel maps = {(p, c). c \<in> set (kids maps p)}"

text \<open>The keys under which the table has a tree edge, and the tables in which every key has at most one
  parent key.\<close>

definition tree_edge :: "bridge_maps \<Rightarrow> string \<Rightarrow> string \<Rightarrow> bool" where
  "tree_edge maps a b \<longleftrightarrow> edge_fwd maps (a, b, TREE_EDGE_LABEL) \<noteq> None"

definition single_parent :: "bridge_maps \<Rightarrow> bool" where
  "single_parent maps \<longleftrightarrow> (\<forall>a b c. tree_edge maps a c \<longrightarrow> tree_edge maps b c \<longrightarrow> a = b)"

lemma tree_edge_in: "tree_edge maps a b \<longleftrightarrow> (a, b, TREE_EDGE_LABEL) \<in> set (hm_keys (edge_id_map maps))"
  by (auto simp: tree_edge_def edge_fwd_def hm_keys_get)

lemma set_child_keys: "set (child_keys maps a) = {b. tree_edge maps a b}"
  by (force simp: child_keys_def List.map_filter_def tree_edge_in split: if_splits)

lemma distinct_child_keys:
  assumes "hm_ok (edge_id_map maps)"
  shows "distinct (child_keys maps a)"
proof -
  have "distinct xs \<Longrightarrow> distinct (List.map_filter (\<lambda>(src_key, dst_key, label).
         if label = t \<and> src_key = a then Some dst_key else None) xs)" for xs t
    by (induction xs) (auto simp: List.map_filter_def split: if_splits)
  with assms show ?thesis by (simp add: child_keys_def hm_ok_def hm_keys_def)
qed

lemma set_bound_ids: "set (bound_ids maps ks) = {i. \<exists>k \<in> set ks. node_fwd maps k = Some i}"
  by (induction ks) (auto simp: ta_node_id_def node_fwd_def split: option.splits)

lemma distinct_bound_ids:
  assumes "nodes.agree maps" and "distinct ks"
  shows "distinct (bound_ids maps ks)"
  using assms(2)
proof (induction ks)
  case (Cons k ks)
  have "i \<notin> set (bound_ids maps ks)" if i: "node_fwd maps k = Some i" for i
  proof
    assume "i \<in> set (bound_ids maps ks)"
    then obtain k' where k': "k' \<in> set ks" "node_fwd maps k' = Some i" by (auto simp: set_bound_ids)
    with i assms(1) have "k = k'" unfolding nodes.agree_def by (metis option.inject)
    with k' Cons.prems show False by simp
  qed
  with Cons show ?case by (auto simp: ta_node_id_def node_fwd_def split: option.splits)
qed simp

lemma kids_conv: "kids maps n = (case node_inv maps n of None \<Rightarrow> [] | Some k \<Rightarrow> bound_ids maps (child_keys maps k))"
  by (simp add: kids_def ta_children_def ta_node_key_def node_inv_def split: option.splits)

lemma child_rel_alt: "child_rel maps = {(p, c). \<exists>cs. ta_children maps p = Inr cs \<and> c \<in> set cs}"
proof -
  have "c \<in> set (kids maps p) \<longleftrightarrow> (\<exists>cs. ta_children maps p = Inr cs \<and> c \<in> set cs)" for p c
    by (cases "ta_children maps p") (simp_all add: kids_def)
  then show ?thesis by (simp add: child_rel_def)
qed

lemma child_rel_iff:
  "(p, c) \<in> child_rel maps \<longleftrightarrow>
     (\<exists>a b. node_inv maps p = Some a \<and> node_fwd maps b = Some c \<and> tree_edge maps a b)"
  by (cases "node_inv maps p") (auto simp: child_rel_def kids_conv set_bound_ids set_child_keys)

lemma distinct_kids: "maps_ok maps \<Longrightarrow> distinct (kids maps n)"
  by (simp add: kids_conv maps_ok_def distinct_bound_ids distinct_child_keys split: option.splits)

lemma ta_parent_iff:
  assumes "nodes.agree maps" and "single_parent maps"
  shows "ta_parent maps n = Inr (Some p) \<longleftrightarrow> (p, n) \<in> child_rel maps"
proof (cases "node_inv maps n")
  case None
  with assms(1) have "node_fwd maps b \<noteq> Some n" for b unfolding nodes.agree_def by (metis option.distinct(1))
  with None show ?thesis by (auto simp: child_rel_iff ta_parent_def ta_node_key_def node_inv_def)
next
  case (Some k)
  let ?P = "\<lambda>(_, dst_key, label). label = TREE_EDGE_LABEL \<and> dst_key = k"
  have one: "node_fwd maps b = Some n \<longleftrightarrow> b = k" for b
    using assms(1) Some unfolding nodes.agree_def by (metis option.inject)
  have inv: "node_inv maps p = Some a \<longleftrightarrow> node_fwd maps a = Some p" for a
    using assms(1) unfolding nodes.agree_def by blast
  show ?thesis
  proof (cases "find ?P (hm_keys (edge_id_map maps))")
    case None
    then have "\<not> tree_edge maps a k" for a
      unfolding find_None_iff by (auto simp: tree_edge_in)
    with None Some one show ?thesis
      by (auto simp: child_rel_iff ta_parent_def ta_node_key_def node_inv_def)
  next
    case (Some e)
    obtain a b l where e: "e = (a, b, l)" by (cases e)
    with Some have "tree_edge maps a k"
      by (auto simp: find_Some_iff tree_edge_in in_set_conv_nth)
    then have "tree_edge maps a' k \<longleftrightarrow> a' = a" for a'
      using assms(2) unfolding single_parent_def by blast
    then have "(p, n) \<in> child_rel maps \<longleftrightarrow> node_fwd maps a = Some p"
      using one inv by (auto simp: child_rel_iff)
    with Some \<open>node_inv maps n = Some k\<close> e show ?thesis
      by (auto simp: ta_parent_def ta_node_key_def ta_node_id_def node_inv_def node_fwd_def split: option.splits)
  qed
qed

section \<open>The traversals\<close>

lemma push_kids:
  "(case ta_children maps n of Inr cs \<Rightarrow> fold (#) (rev cs) st | Inl _ \<Rightarrow> st) = kids maps n @ st"
  by (simp add: kids_def fold_Cons_rev split: sum.splits)

lemma desc_loop_Cons:
  "desc_loop maps (n # st) V out =
     (if n \<in> V then desc_loop maps st V out else desc_loop maps (kids maps n @ st) (insert n V) (out @ [n]))"
  by (simp add: push_kids)

declare desc_loop.simps(2) [simp del]

lemma descendants_conv: "descendants maps n = desc_loop maps (kids maps n) {n} []"
  by (simp add: descendants_def kids_def split: sum.splits)

lemma reach_step: "(child_rel maps)\<^sup>* `` {n} = insert n ((child_rel maps)\<^sup>* `` set (kids maps n))"
  by (auto simp: child_rel_def elim: converse_rtranclE intro: converse_rtrancl_into_rtrancl)

lemma desc_loop_set:
  assumes "\<forall>v \<in> V. set (kids maps v) \<subseteq> V \<union> set st"
  shows "set (desc_loop maps st V out) = set out \<union> ((child_rel maps)\<^sup>* `` set st - V)"
  using assms
proof (induction maps st V out rule: desc_loop.induct)
  case (2 maps n st V out)
  let ?R = "(child_rel maps)\<^sup>*"
  show ?case
  proof (cases "n \<in> V")
    case True
    have "m \<in> V \<union> ?R `` set st" if "(n, m) \<in> ?R" for m
      using that
    proof (induction rule: rtrancl_induct)
      case (step y z)
      with 2(3) True show ?case
        by (auto simp: child_rel_def intro: rtrancl_into_rtrancl)
    qed (simp add: True)
    then have "?R `` set (n # st) - V = ?R `` set st - V" by auto
    moreover have "set (desc_loop maps st V out) = set out \<union> (?R `` set st - V)"
      using 2(1) [OF True] 2(3) True by auto
    ultimately show ?thesis using True by (simp add: desc_loop_Cons)
  next
    case False
    have "?R `` set (n # st) = insert n (?R `` set (kids maps n @ st))"
      using reach_step [of maps n] by auto
    moreover have "set (desc_loop maps (kids maps n @ st) (insert n V) (out @ [n])) =
        set (out @ [n]) \<union> (?R `` set (kids maps n @ st) - insert n V)"
      using 2(2) [OF False, unfolded push_kids] 2(3) by fastforce
    ultimately show ?thesis using False by (auto simp: desc_loop_Cons)
  qed
qed simp

lemma set_descendants: "set (descendants maps n) = (child_rel maps)\<^sup>* `` {n} - {n}"
  using desc_loop_set [of "{n}" maps "kids maps n" "[]"] reach_step [of maps n]
  by (auto simp: descendants_conv)

lemma desc_loop_distinct:
  "distinct out \<Longrightarrow> set out \<subseteq> V \<Longrightarrow> distinct (desc_loop maps st V out)"
proof (induction maps st V out rule: desc_loop.induct)
  case (2 maps n st V out)
  show ?case
  proof (cases "n \<in> V")
    case True
    with 2 show ?thesis by (simp add: desc_loop_Cons)
  next
    case False
    with 2(2) [OF False, unfolded push_kids] 2(3,4) show ?thesis
      by (auto simp: desc_loop_Cons)
  qed
qed simp

lemma distinct_descendants: "distinct (descendants maps n)"
  by (simp add: descendants_conv desc_loop_distinct)

text \<open>In a table with single parents the nodes above a node form a chain; without cycles the children of a
  node have disjoint subtrees.\<close>

lemma single_valued_up:
  assumes "nodes.agree maps" and "single_parent maps"
  shows "single_valued ((child_rel maps)\<inverse>)"
  using ta_parent_iff [OF assms] by (auto intro!: single_valuedI simp flip: ta_parent_iff [OF assms])

lemma siblings_disjoint:
  assumes "nodes.agree maps" and "single_parent maps" and acy: "acyclic (child_rel maps)"
    and c: "(c, d) \<in> child_rel maps" "(c, d') \<in> child_rel maps" "d \<noteq> d'"
  shows "(child_rel maps)\<^sup>* `` {d} \<inter> (child_rel maps)\<^sup>* `` {d'} = {}"
proof -
  let ?R = "child_rel maps"
  have sv: "single_valued (?R\<inverse>)" by (rule single_valued_up) fact+
  have no: "(a, b) \<notin> ?R\<^sup>*" if ab: "(c, a) \<in> ?R" "(c, b) \<in> ?R" "a \<noteq> b" for a b
  proof
    assume "(a, b) \<in> ?R\<^sup>*"
    then obtain p where p: "(a, p) \<in> ?R\<^sup>*" "(p, b) \<in> ?R"
      using ab(3) by (auto elim: rtranclE)
    with ab(2) sv have "p = c" by (auto dest: single_valuedD)
    with p(1) ab(1) have "(c, c) \<in> ?R\<^sup>+" by (simp add: rtrancl_into_trancl2)
    with acy show False by (simp add: acyclic_def)
  qed
  have "False" if "(d, x) \<in> ?R\<^sup>*" "(d', x) \<in> ?R\<^sup>*" for x
  proof -
    from that have "(x, d) \<in> (?R\<inverse>)\<^sup>*" "(x, d') \<in> (?R\<inverse>)\<^sup>*" by (simp_all add: rtrancl_converseI)
    from single_valued_confluent [OF sv this] have "(d', d) \<in> ?R\<^sup>* \<or> (d, d') \<in> ?R\<^sup>*"
      by (auto dest: rtrancl_converseD)
    with no c show False by blast
  qed
  then show ?thesis by blast
qed

definition pre :: "bridge_maps \<Rightarrow> node_id \<Rightarrow> node_id list" where
  "pre maps c = c # descendants maps c"

lemma set_pre: "set (pre maps c) = (child_rel maps)\<^sup>* `` {c}"
  by (auto simp: pre_def set_descendants)

definition visits :: "bridge_maps \<Rightarrow> node_id \<Rightarrow> bool" where
  "visits maps c \<longleftrightarrow> (\<forall>st V out. set (pre maps c) \<inter> V = {} \<longrightarrow>
     desc_loop maps (c # st) V out = desc_loop maps st (V \<union> set (pre maps c)) (out @ pre maps c))"

lemma visits_list:
  assumes "\<forall>d \<in> set ds. visits maps d" and "distinct ds"
    and "\<And>d d'. d \<in> set ds \<Longrightarrow> d' \<in> set ds \<Longrightarrow> d \<noteq> d' \<Longrightarrow> set (pre maps d) \<inter> set (pre maps d') = {}"
    and "\<forall>d \<in> set ds. set (pre maps d) \<inter> V = {}"
  shows "desc_loop maps (ds @ st) V out =
    desc_loop maps st (V \<union> (\<Union>d \<in> set ds. set (pre maps d))) (out @ concat (map (pre maps) ds))"
  using assms
proof (induction ds arbitrary: V out)
  case (Cons d ds)
  have step: "desc_loop maps (d # ds @ st) V out =
      desc_loop maps (ds @ st) (V \<union> set (pre maps d)) (out @ pre maps d)"
    using Cons.prems(1,4) by (simp add: visits_def)
  have "set (pre maps d') \<inter> (V \<union> set (pre maps d)) = {}" if "d' \<in> set ds" for d'
    using Cons.prems(2) Cons.prems(3) [of d' d] Cons.prems(4) that by auto
  then have "desc_loop maps (ds @ st) (V \<union> set (pre maps d)) (out @ pre maps d) =
      desc_loop maps st (V \<union> set (pre maps d) \<union> (\<Union>d \<in> set ds. set (pre maps d)))
        ((out @ pre maps d) @ concat (map (pre maps) ds))"
    using Cons.prems(1-3) by (intro Cons.IH) auto
  with step show ?case by (simp add: Un_assoc)
qed simp

lemma pre_unfold:
  assumes "maps_ok maps" and "single_parent maps" and acy: "acyclic (child_rel maps)"
  shows "visits maps c \<and> descendants maps c = concat (map (pre maps) (kids maps c))"
proof -
  let ?R = "child_rel maps"
  have "wf (?R\<inverse>)" by (rule finite_acyclic_wf_converse) (use acy in simp_all)
  then show ?thesis
  proof (induction c rule: wf_induct_rule)
    case (less c)
    have ag: "nodes.agree maps" using assms(1) by (simp add: maps_ok_def)
    have ks: "(c, d) \<in> ?R" if "d \<in> set (kids maps c)" for d using that by (simp add: child_rel_def)
    have nc: "c \<notin> set (pre maps d)" if "d \<in> set (kids maps c)" for d
      using acy ks [OF that] by (auto simp: set_pre acyclic_def dest: rtrancl_into_trancl2)
    note loop = visits_list [of "kids maps c" maps, OF _ distinct_kids [OF assms(1)]]
    have IH: "\<forall>d \<in> set (kids maps c). visits maps d" using less ks by auto
    have dis: "set (pre maps d) \<inter> set (pre maps d') = {}"
      if "d \<in> set (kids maps c)" "d' \<in> set (kids maps c)" "d \<noteq> d'" for d d'
      using siblings_disjoint [OF ag assms(2) acy ks ks] that by (simp add: set_pre)
    have desc: "descendants maps c = concat (map (pre maps) (kids maps c))"
      using loop [OF IH dis, of "{c}" "[]" "[]"] nc by (simp add: descendants_conv)
    have pc: "set (pre maps c) = insert c (\<Union>d \<in> set (kids maps c). set (pre maps d))"
      by (auto simp: pre_def [of maps c] desc)
    have "desc_loop maps (c # st) V out = desc_loop maps st (V \<union> set (pre maps c)) (out @ pre maps c)"
      if "set (pre maps c) \<inter> V = {}" for st V out
    proof -
      have "c \<notin> V" and "\<forall>d \<in> set (kids maps c). set (pre maps d) \<inter> insert c V = {}"
        using that nc by (auto simp: pc)
      with loop [OF IH dis, of "insert c V" st "out @ [c]"] show ?thesis
        by (simp add: desc_loop_Cons pc) (simp add: pre_def [of maps c] desc)
    qed
    with desc show ?case by (simp add: visits_def)
  qed
qed

lemma ta_parent_cases:
  assumes "nodes.agree maps" and "single_parent maps"
  obtains p where "ta_parent maps n = Inr (Some p)" "\<And>q. (q, n) \<in> child_rel maps \<longleftrightarrow> q = p"
    | "\<And>q. (q, n) \<notin> child_rel maps" "\<And>q. ta_parent maps n \<noteq> Inr (Some q)"
proof (cases "\<exists>p. (p, n) \<in> child_rel maps")
  case True
  then obtain p where "(p, n) \<in> child_rel maps" ..
  then have p: "ta_parent maps n = Inr (Some p)" by (simp add: ta_parent_iff [OF assms])
  show ?thesis by (rule that(1) [OF p]) (use p in \<open>auto simp flip: ta_parent_iff [OF assms]\<close>)
next
  case False
  then show ?thesis using that(2) by (simp add: ta_parent_iff [OF assms])
qed

lemma anc_loop_step:
  "ta_parent maps n = Inr (Some p) \<Longrightarrow>
     anc_loop maps n V out = (if p \<in> V then out else anc_loop maps p (insert p V) (out @ [p]))"
  by (subst anc_loop.simps) simp

lemma anc_loop_stop:
  "(\<And>q. ta_parent maps n \<noteq> Inr (Some q)) \<Longrightarrow> anc_loop maps n V out = out"
  by (subst anc_loop.simps) (auto split: sum.splits option.splits)

lemma up_step:
  assumes "\<And>q. (q, n) \<in> R \<longleftrightarrow> q = p"
  shows "{m. (m, n) \<in> R\<^sup>*} = insert n {m. (m, p) \<in> R\<^sup>*}"
proof -
  have "(p, n) \<in> R" using assms by blast
  then have "(m, n) \<in> R\<^sup>*" if "(m, p) \<in> R\<^sup>*" for m
    using that by (meson rtrancl_into_rtrancl)
  moreover have "m = n \<or> (m, p) \<in> R\<^sup>*" if "(m, n) \<in> R\<^sup>*" for m
    using that
  proof (cases rule: rtranclE)
    case (step y)
    then have "y = p" using assms [of y] by blast
    with step show ?thesis by simp
  qed simp
  ultimately have "(m, n) \<in> R\<^sup>* \<longleftrightarrow> m = n \<or> (m, p) \<in> R\<^sup>*" for m by blast
  then show ?thesis by blast
qed

lemma anc_loop_set:
  assumes "nodes.agree maps" and "single_parent maps" and "n \<in> V"
    and "\<forall>v \<in> V - {n}. \<forall>p. (p, v) \<in> child_rel maps \<longrightarrow> p \<in> V"
  shows "set (anc_loop maps n V out) = set out \<union> ({m. (m, n) \<in> (child_rel maps)\<^sup>*} - V)"
  using assms
proof (induction maps n V out rule: anc_loop.induct)
  case (1 maps n V out)
  let ?R = "child_rel maps"
  show ?case
  proof (cases rule: ta_parent_cases [OF 1(2,3), of n, case_names parent root])
    case (parent p)
    note up = up_step [OF parent(2)]
    show ?thesis
    proof (cases "p \<in> V")
      case True
      have "m \<in> V" if "(m, n) \<in> ?R\<^sup>*" for m
        using that
      proof (induction rule: converse_rtrancl_induct)
        case (step y z)
        show ?case
        proof (cases "z = n")
          case False
          with step 1(5) show ?thesis by blast
        qed (use step(1) parent(2) [of y] True in blast)
      qed (rule 1(4))
      with True show ?thesis by (auto simp: anc_loop_step [OF parent(1)])
    next
      case False
      have cl: "\<forall>v \<in> insert p V - {p}. \<forall>q. (q, v) \<in> ?R \<longrightarrow> q \<in> insert p V"
      proof (intro ballI allI impI)
        fix v q assume v: "v \<in> insert p V - {p}" "(q, v) \<in> ?R"
        show "q \<in> insert p V"
        proof (cases "v = n")
          case True
          with v parent(2) [of q] show ?thesis by simp
        next
          case False
          with v 1(5) show ?thesis by blast
        qed
      qed
      have "set (anc_loop maps p (insert p V) (out @ [p])) =
          set (out @ [p]) \<union> ({m. (m, p) \<in> ?R\<^sup>*} - insert p V)"
        by (rule 1(1) [OF parent(1) refl False 1(2,3) insertI1 cl])
      with False 1(4) show ?thesis unfolding anc_loop_step [OF parent(1)] up by auto
    qed
  next
    case root
    then have "{m. (m, n) \<in> ?R\<^sup>*} = {n}" by (auto elim: rtranclE)
    with root 1(4) show ?thesis by (simp add: anc_loop_stop)
  qed
qed

lemma set_ancestors:
  assumes "nodes.agree maps" and "single_parent maps"
  shows "set (ancestors maps n) = {m. (m, n) \<in> (child_rel maps)\<^sup>*} - {n}"
  using anc_loop_set [OF assms, of n "{n}" "[]"] by (simp add: ancestors_def)

text \<open>Without cycles the guard of the walk never fires.\<close>

lemma anc_loop_acyclic:
  assumes "nodes.agree maps" and "single_parent maps" and acy: "acyclic (child_rel maps)"
  shows "{m. (m, n) \<in> (child_rel maps)\<^sup>+} \<inter> (V \<union> W) = {} \<Longrightarrow>
    anc_loop maps n V out = out @ anc_loop maps n W []"
proof (induction n arbitrary: V W out rule: wf_induct_rule [OF finite_acyclic_wf [OF _ acy]])
  case (2 n)
  let ?R = "child_rel maps"
  show ?case
  proof (cases rule: ta_parent_cases [OF assms(1,2), of n, case_names parent root])
    case (parent p)
    have pn: "(p, n) \<in> ?R" using parent(2) by blast
    then have p: "p \<notin> V \<union> W" using 2(2) by blast
    have "(p, p) \<notin> ?R\<^sup>+" using acy by (simp add: acyclic_def)
    moreover have "(m, n) \<in> ?R\<^sup>+" if "(m, p) \<in> ?R\<^sup>+" for m by (rule trancl_into_trancl [OF that pn])
    ultimately have dis: "{m. (m, p) \<in> ?R\<^sup>+} \<inter> (insert p V \<union> insert p W) = {}"
      using 2(2) by blast
    then have dis': "{m. (m, p) \<in> ?R\<^sup>+} \<inter> (insert p W \<union> insert p W) = {}" by blast
    have "anc_loop maps p (insert p V) (out @ [p]) = (out @ [p]) @ anc_loop maps p (insert p W) []"
      by (rule 2(1) [OF pn]) (use dis in blast)
    also have "\<dots> = out @ anc_loop maps p (insert p W) [p]"
      using 2(1) [OF pn dis', of "[p]"] by simp
    finally show ?thesis using p by (simp add: anc_loop_step [OF parent(1)])
  next
    case root
    then show ?thesis by (simp add: anc_loop_stop)
  qed
qed simp

lemma ancestors_step:
  assumes "nodes.agree maps" and "single_parent maps" and acy: "acyclic (child_rel maps)"
    and p: "ta_parent maps n = Inr (Some p)"
  shows "ancestors maps n = p # ancestors maps p"
proof -
  have pn: "(p, n) \<in> child_rel maps" using p by (simp add: ta_parent_iff [OF assms(1,2)])
  have "{m. (m, p) \<in> (child_rel maps)\<^sup>+} \<inter> ({p, n} \<union> {p}) = {}"
    using acy pn by (auto simp: acyclic_def dest: trancl_into_trancl)
  then have "anc_loop maps p {p, n} [p] = [p] @ anc_loop maps p {p} []"
    by (rule anc_loop_acyclic [OF assms(1-3)])
  moreover have "p \<noteq> n" using acy pn by (auto simp: acyclic_def)
  ultimately show ?thesis by (simp add: ancestors_def anc_loop_step [OF p] insert_commute)
qed

section \<open>Moves\<close>

text \<open>The operation of \<open>move_op\<close>, applied by the bridge, on the tree edges of the table.\<close>

lemma edge_fwd_insert:
  "edge_fwd (insert_edge e i maps) e' = (if e' = e then Some i else edge_fwd maps e')"
  by (simp add: edge_fwd_def insert_edge_def Let_def)

lemma edge_fwd_drop: "edge_fwd (snd (drop_edge api e (s, maps))) e' = (if e' = e then None else edge_fwd maps e')"
  by (auto simp: drop_edge_def remove_edge_def edge_fwd_def Let_def split: option.splits)

lemma nodes_drop:
  "node_fwd (snd (drop_edge api e t)) = node_fwd (snd t)" "node_inv (snd (drop_edge api e t)) = node_inv (snd t)"
  by (auto simp: drop_edge_def remove_edge_def table_defs Let_def fun_eq_iff split: prod.splits option.splits)

lemma move_op_effect:
  assumes "node_fwd maps k = Some nid" and "node_fwd maps new = Some q"
    and "\<And>a. tree_edge maps a k \<Longrightarrow> a = old"
    and "apply_loro_op api (move_op k old new) (s, maps) = (r, (s', maps'))"
  shows "r = Inr ()" and "node_fwd maps' = node_fwd maps" and "node_inv maps' = node_inv maps"
    and "tree_edge maps' a b \<longleftrightarrow> (if b = k then a = new else tree_edge maps a b)"
proof -
  let ?e = "(old, k, TREE_EDGE_LABEL)" and ?new = "(new, k, TREE_EDGE_LABEL)"
  obtain s1 m1 where d: "drop_edge api ?e (s, maps) = (s1, m1)" by (cases "drop_edge api ?e (s, maps)")
  have fwd: "edge_fwd m1 e' = (if e' = ?e then None else edge_fwd maps e')" for e'
    using edge_fwd_drop [of api ?e s maps e'] d by simp
  have nod: "node_fwd m1 = node_fwd maps" "node_inv m1 = node_inv maps"
    using nodes_drop [of api ?e "(s, maps)"] d by simp_all
  have te: "tree_edge m1 a b \<longleftrightarrow> b \<noteq> k \<and> tree_edge maps a b" for a b
    using assms(3) fwd by (auto simp: tree_edge_def)
  have "hm_get (edge_id_map m1) ?new = None"
    using te [of new k] by (simp add: tree_edge_def edge_fwd_def)
  with assms(1,2,4) d obtain i where r: "r = Inr ()" and m: "maps' = insert_edge ?new i m1"
    by (auto simp: move_op_def apply_tree_move_def node_fwd_def split: prod.splits)
  show "r = Inr ()" by (rule r)
  show "node_fwd maps' = node_fwd maps" "node_inv maps' = node_inv maps"
    using nod by (simp_all add: m bridge_simps)
  show "tree_edge maps' a b \<longleftrightarrow> (if b = k then a = new else tree_edge maps a b)"
    using te [of a b] by (auto simp: m tree_edge_def edge_fwd_insert)
qed

section \<open>Properties\<close>

text \<open>A tree of four nodes for the witnesses.\<close>

definition tree_maps :: bridge_maps where
  "tree_maps = \<lparr>node_id_map = [(''a'', 1), (''b'', 2), (''c'', 3), (''d'', 4)],
     node_key_map = [(1, ''a''), (2, ''b''), (3, ''c''), (4, ''d'')],
     edge_id_map = [((''a'', ''b'', ''CHILD''), 10), ((''b'', ''c'', ''CHILD''), 11), ((''a'', ''d'', ''CHILD''), 12)],
     edge_key_map = [(10, (''a'', ''b'', ''CHILD'')), (11, (''b'', ''c'', ''CHILD'')), (12, (''a'', ''d'', ''CHILD''))]\<rparr>"

lemma tree_maps_edges: "tree_edge tree_maps a b \<longleftrightarrow> (a, b) \<in> {(''a'', ''b''), (''b'', ''c''), (''a'', ''d'')}"
  by (auto simp: tree_edge_in tree_maps_def hm_keys_def TREE_EDGE_LABEL_def)

lemma tree_maps_ok: "maps_ok tree_maps" "single_parent tree_maps"
proof -
  show "maps_ok tree_maps"
    by (auto simp: maps_ok_def tree_maps_def nodes.agree_def edges.agree_def table_defs hm_ok_def)
  show "single_parent tree_maps"
    by (auto simp: single_parent_def tree_maps_edges)
qed

lemmas tree_maps_eval = tree_maps_def ta_children_def ta_parent_def ta_node_key_def ta_node_id_def
  child_keys_def List.map_filter_def hm_keys_def TREE_EDGE_LABEL_def

lemma tree_maps_kids:
  "ta_children tree_maps n = (if n = 1 then Inr [2, 4] else if n = 2 then Inr [3] else if n = 3 then Inr []
     else if n = 4 then Inr [] else Inl (Bridge (Msg ''unknown node id: {node:?}'' [A_Num (unat n)])))"
  by (simp add: tree_maps_eval)

lemma tree_maps_parents:
  "ta_parent tree_maps 1 = Inr None" "ta_parent tree_maps 2 = Inr (Some 1)"
  "ta_parent tree_maps 3 = Inr (Some 2)" "ta_parent tree_maps 4 = Inr (Some 1)"
  by (simp_all add: tree_maps_eval)

lemma tree_maps_values:
  "descendants tree_maps 1 = [2, 3, 4]" "ancestors tree_maps 3 = [2, 1]"
  by (simp_all add: descendants_conv desc_loop_Cons kids_def tree_maps_kids ancestors_def
      anc_loop_step [OF tree_maps_parents(3)] anc_loop_step [OF tree_maps_parents(2)]
      anc_loop_stop tree_maps_parents(1))

lemma tree_maps_acyclic:
  "acyclic {(p, c). \<exists>cs. ta_children tree_maps p = Inr cs \<and> c \<in> set cs}"
proof (rule acyclicI_order [where f = "\<lambda>n. - int (unat n)"])
  fix a b
  assume "(a, b) \<in> {(p, c). \<exists>cs. ta_children tree_maps p = Inr cs \<and> c \<in> set cs}"
  then show "- int (unat b) < - int (unat a)"
    by (auto simp: tree_maps_kids split: if_splits)
qed

text \<open>Both traversals return on every table. The descendants of a
  node are listed once each and are exactly the nodes other than itself that are reachable over
  children, also on a corrupted table with cycles. When no key has two parent keys, the ancestors are
  the converse: a node is among the ancestors of another exactly when the other is among its
  descendants.
\<close>

theorem tree_traversals_correct:
  assumes "nodes.agree maps" and "single_parent maps"
  shows "distinct (descendants maps n) \<and>
    set (descendants maps n) = {m. (n, m) \<in> {(p, c). \<exists>cs. ta_children maps p = Inr cs \<and> c \<in> set cs}\<^sup>+} - {n} \<and>
    (a \<in> set (ancestors maps n)) = (n \<in> set (descendants maps a))"
proof -
  have "set (descendants maps n) = {m. (n, m) \<in> (child_rel maps)\<^sup>+} - {n}"
  proof (rule set_eqI)
    fix m
    have "(n, m) \<in> (child_rel maps)\<^sup>* \<and> m \<noteq> n \<longleftrightarrow> (n, m) \<in> (child_rel maps)\<^sup>+ \<and> m \<noteq> n"
      unfolding rtrancl_eq_or_trancl by blast
    then show "m \<in> set (descendants maps n) \<longleftrightarrow> m \<in> {m. (n, m) \<in> (child_rel maps)\<^sup>+} - {n}"
      by (simp add: set_descendants)
  qed
  moreover have "a \<in> set (ancestors maps n) \<longleftrightarrow> n \<in> set (descendants maps a)"
    using set_ancestors [OF assms, of n] set_descendants [of maps a] by auto
  ultimately show ?thesis by (simp add: distinct_descendants child_rel_alt)
qed

theorem tree_traversals_correct_witness:
  "descendants tree_maps 1 = [2, 3, 4] \<and> ancestors tree_maps 3 = [2, 1] \<and>
   ((1::node_id) \<in> set (ancestors tree_maps 3)) = ((3::node_id) \<in> set (descendants tree_maps 1))"
proof -
  have "nodes.agree tree_maps" using tree_maps_ok(1) by (simp add: maps_ok_def)
  from tree_traversals_correct [OF this tree_maps_ok(2), of 3 1] show ?thesis
    by (simp only: tree_maps_values simp_thms)
qed

text \<open>Property C25 (tree_traversals_ordered). On a forest the descendants come in pre-order, each child
  followed by its own descendants before the next child, and the ancestors come from the parent to
  the root.
\<close>

theorem tree_traversals_ordered:
  assumes "maps_ok maps" and "single_parent maps"
    and "acyclic {(p, c). \<exists>cs. ta_children maps p = Inr cs \<and> c \<in> set cs}"
  shows "(\<forall>cs. ta_children maps n = Inr cs \<longrightarrow>
      descendants maps n = concat (map (\<lambda>c. c # descendants maps c) cs)) \<and>
    (\<forall>p. ta_parent maps n = Inr (Some p) \<longrightarrow> ancestors maps n = p # ancestors maps p)"
proof -
  from assms have acy: "acyclic (child_rel maps)" and ag: "nodes.agree maps"
    by (simp_all add: maps_ok_def child_rel_alt)
  show ?thesis
    using pre_unfold [OF assms(1,2) acy, of n] ancestors_step [OF ag assms(2) acy]
    by (simp add: kids_def pre_def [abs_def])
qed

theorem tree_traversals_ordered_witness:
  "descendants tree_maps 1 = concat (map (\<lambda>c. c # descendants tree_maps c) [2, 4]) \<and>
   ancestors tree_maps 3 = 2 # ancestors tree_maps 2"
  using tree_traversals_ordered [OF tree_maps_ok tree_maps_acyclic, of 1]
    tree_traversals_ordered [OF tree_maps_ok tree_maps_acyclic, of 3]
  by (simp add: tree_maps_kids tree_maps_parents)

text \<open>A move built by the adapter and applied by the bridge does what
  the tree view promises: in a table with single parents, moving a bound node away from its parent
  succeeds, the node's parent is the new one, every other node keeps its parent, and the table still
  has single parents.
\<close>

theorem tree_move_reparents:
  assumes "nodes.agree maps" and "single_parent maps"
    and "node_fwd maps k = Some nid" and "node_fwd maps new = Some q" and "node_fwd maps old = Some p"
    and "ta_parent maps nid = Inr (Some p)"
    and "apply_loro_op api (move_op k old new) (s, maps) = (r, (s', maps'))"
  shows "r = Inr () \<and> single_parent maps' \<and> ta_parent maps' nid = Inr (Some q) \<and>
    (\<forall>n c. n \<noteq> nid \<longrightarrow> (ta_parent maps' n = Inr (Some c)) = (ta_parent maps n = Inr (Some c)))"
proof -
  have inv: "node_inv maps i = Some a \<longleftrightarrow> node_fwd maps a = Some i" for a i
    using assms(1) unfolding nodes.agree_def by blast
  have inj: "node_fwd maps a = Some i \<Longrightarrow> node_fwd maps b = Some i \<Longrightarrow> a = b" for a b i
    by (simp flip: inv)
  from assms(6) obtain a b where "node_fwd maps a = Some p" "node_fwd maps b = Some nid" "tree_edge maps a b"
    by (auto simp: ta_parent_iff [OF assms(1,2)] child_rel_iff inv)
  with inj assms(3,5) have "tree_edge maps old k" by blast
  then have "\<And>a. tree_edge maps a k \<Longrightarrow> a = old"
    using assms(2) unfolding single_parent_def by blast
  note eff = move_op_effect [OF assms(3,4) this assms(7)]
  have sp: "single_parent maps'"
    using assms(2) by (auto simp: single_parent_def eff(4))
  have ag: "nodes.agree maps'" using assms(1) by (simp add: nodes.agree_def eff(2,3))
  have "(c, n) \<in> child_rel maps' \<longleftrightarrow> (if n = nid then c = q else (c, n) \<in> child_rel maps)" for c n
  proof (cases "n = nid")
    case True
    have "node_fwd maps b = Some nid \<longleftrightarrow> b = k" for b using inj assms(3) by blast
    then have "(c, nid) \<in> child_rel maps' \<longleftrightarrow> (\<exists>a. node_fwd maps a = Some c \<and> tree_edge maps' a k)"
      by (simp add: child_rel_iff eff(2,3) inv)
    with True assms(4) show ?thesis by (auto simp: eff(4))
  next
    case False
    with assms(3) have "node_fwd maps b = Some n \<and> tree_edge maps' a b \<longleftrightarrow>
        node_fwd maps b = Some n \<and> tree_edge maps a b" for a b
      by (auto simp: eff(4))
    with False show ?thesis by (simp add: child_rel_iff eff(2,3) inv)
  qed
  with eff(1) sp show ?thesis
    by (simp add: ta_parent_iff [OF ag sp] ta_parent_iff [OF assms(1,2)])
qed

theorem tree_move_reparents_witness:
  "case apply_loro_op counter_session (move_op ''c'' ''b'' ''d'') ((0, 13), tree_maps) of (r, (s', maps')) \<Rightarrow>
     r = Inr () \<and> single_parent maps' \<and> ta_parent maps' 3 = Inr (Some 4) \<and>
     ta_parent maps' 2 = Inr (Some 1)"
proof -
  have n: "node_fwd tree_maps ''c'' = Some 3" "node_fwd tree_maps ''d'' = Some 4" "node_fwd tree_maps ''b'' = Some 2"
    by (simp_all add: node_fwd_def tree_maps_def)
  obtain r s' m' where ap: "apply_loro_op counter_session (move_op ''c'' ''b'' ''d'') ((0, 13), tree_maps) = (r, (s', m'))"
    by (metis prod.exhaust)
  have "nodes.agree tree_maps" using tree_maps_ok(1) by (simp add: maps_ok_def)
  from tree_move_reparents [OF this tree_maps_ok(2) n tree_maps_parents(3) ap] show ?thesis
    by (simp add: ap tree_maps_parents(2))
qed

end
