(* ===== verification/Memory_Ceiling.thy ===== *)
theory Memory_Ceiling
  imports Prelude "HOL-Library.Multiset"
begin

text \<open>
  The memory ceiling of \<^verbatim>\<open>src/runtime/mod.rs\<close>: a byte counter against a budget, and the registry of idle
  documents that are evicted, least recently used first, when an allocation does not fit. Counters are
  64-bit words; sums wrap as they do in a release build. Each atomic access is one step.
\<close>

section \<open>State and operations\<close>

record idle_doc =
  idle_key :: u64
  idle_size :: usize
  idle_last_access :: u64

record memory_ceiling =
  mc_budget :: usize
  mc_current :: usize
  mc_idle :: "idle_doc list"

definition DEFAULT_BUDGET :: usize where
  "DEFAULT_BUDGET = 80 * 1024 * 1024"

definition mc_new :: "usize \<Rightarrow> memory_ceiling" where
  "mc_new budget_bytes = \<lparr>mc_budget = budget_bytes, mc_current = 0, mc_idle = []\<rparr>"

definition mc_default :: memory_ceiling where
  "mc_default = mc_new DEFAULT_BUDGET"

definition try_alloc_inner :: "usize \<Rightarrow> memory_ceiling \<Rightarrow> bool \<times> memory_ceiling" where
  "try_alloc_inner bytes c =
     (if mc_current c + bytes \<le> mc_budget c then (True, c\<lparr>mc_current := mc_current c + bytes\<rparr>)
      else (False, c))"

text \<open>The loop of \<^verbatim>\<open>evict_to_fit\<close> over the sorted registry: what is left of it, the counter and the bytes
  freed.\<close>

fun evict_loop :: "usize \<Rightarrow> usize \<Rightarrow> idle_doc list \<Rightarrow> usize \<Rightarrow> usize \<Rightarrow> idle_doc list \<times> usize \<times> usize" where
  "evict_loop budget bytes [] current freed = ([], current, freed)"
| "evict_loop budget bytes (d # ds) current freed =
     (if budget < current + bytes
      then evict_loop budget bytes ds (current - idle_size d) (freed + min current (idle_size d))
      else (d # ds, current, freed))"

definition evict_to_fit :: "usize \<Rightarrow> memory_ceiling \<Rightarrow> usize \<times> memory_ceiling" where
  "evict_to_fit bytes c =
     (if mc_idle c = [] then (0, c)
      else case evict_loop (mc_budget c) bytes (sort_key idle_last_access (mc_idle c)) (mc_current c) 0 of
        (idle, current, freed) \<Rightarrow> (freed, c\<lparr>mc_current := current, mc_idle := idle\<rparr>))"

definition try_alloc :: "usize \<Rightarrow> memory_ceiling \<Rightarrow> bool \<times> memory_ceiling" where
  "try_alloc bytes c = (case try_alloc_inner bytes c of
     (True, c) \<Rightarrow> (True, c)
   | (False, c) \<Rightarrow> (case evict_to_fit bytes c of (_, c) \<Rightarrow> try_alloc_inner bytes c))"

definition mc_release :: "usize \<Rightarrow> memory_ceiling \<Rightarrow> memory_ceiling" where
  "mc_release bytes c =
     (let prev = mc_current c; c = c\<lparr>mc_current := mc_current c - bytes\<rparr>
      in if prev < bytes then c\<lparr>mc_current := 0\<rparr> else c)"

fun replace_or_push :: "idle_doc \<Rightarrow> idle_doc list \<Rightarrow> idle_doc list" where
  "replace_or_push d [] = [d]"
| "replace_or_push d (e # es) = (if idle_key e = idle_key d then d # es else e # replace_or_push d es)"

definition register_idle :: "u64 \<Rightarrow> usize \<Rightarrow> u64 \<Rightarrow> memory_ceiling \<Rightarrow> memory_ceiling" where
  "register_idle key size_bytes last_access_ms c = c\<lparr>mc_idle := replace_or_push
     \<lparr>idle_key = key, idle_size = size_bytes, idle_last_access = last_access_ms\<rparr> (mc_idle c)\<rparr>"

definition evict_idle :: "memory_ceiling \<Rightarrow> usize \<times> memory_ceiling" where
  "evict_idle c = (case sort_key idle_last_access (mc_idle c) of
     [] \<Rightarrow> (0, c)
   | d # ds \<Rightarrow> (min (mc_current c) (idle_size d),
       c\<lparr>mc_current := mc_current c - idle_size d, mc_idle := ds\<rparr>))"

section \<open>The accounting invariant\<close>

lemma unat_usize: "unat (w :: usize) < 2 ^ 64"
  using unsigned_less [of w, where 'a = nat] by simp

definition idle_bytes :: "idle_doc list \<Rightarrow> nat" where
  "idle_bytes ds = (\<Sum>d\<leftarrow>ds. unat (idle_size d))"

lemma idle_bytes_simps [simp]:
  "idle_bytes [] = 0" "idle_bytes (d # ds) = unat (idle_size d) + idle_bytes ds"
  "idle_bytes (ds @ es) = idle_bytes ds + idle_bytes es"
  by (simp_all add: idle_bytes_def)

lemma idle_bytes_sort [simp]: "idle_bytes (sort_key f ds) = idle_bytes ds"
  by (simp add: idle_bytes_def flip: sum_mset_sum_list)

text \<open>Idle documents are part of what is allocated, what is allocated is within the budget, and a document
  is registered once.\<close>

definition mc_ok :: "memory_ceiling \<Rightarrow> bool" where
  "mc_ok c \<longleftrightarrow> idle_bytes (mc_idle c) \<le> unat (mc_current c) \<and> mc_current c \<le> mc_budget c \<and>
     distinct (map idle_key (mc_idle c))"

lemma mc_ok_new: "mc_ok (mc_new b)"
  by (simp add: mc_ok_def mc_new_def)

text \<open>The documents evicted: the shortest prefix that makes room.\<close>

lemma evict_loop_spec:
  assumes "evict_loop budget bytes ds cur freed = (rest, cur', freed')"
    and "idle_bytes ds \<le> unat cur" and "unat cur + unat bytes < 2 ^ 64"
    and "unat freed + idle_bytes ds < 2 ^ 64"
  shows "\<exists>ev. ds = ev @ rest \<and> unat cur' = unat cur - idle_bytes ev \<and>
    unat freed' = unat freed + idle_bytes ev \<and>
    (\<forall>j < length ev. unat budget < unat cur - idle_bytes (take j ev) + unat bytes) \<and>
    (rest = [] \<or> unat cur' + unat bytes \<le> unat budget)"
  using assms
proof (induction ds arbitrary: cur freed)
  case Nil
  then show ?case by simp
next
  case (Cons d ds)
  have add: "unat (cur + bytes) = unat cur + unat bytes"
    using Cons.prems(3) by (simp add: unat_word_ariths)
  show ?case
  proof (cases "budget < cur + bytes")
    case False
    with Cons.prems(1) add show ?thesis by (intro exI [of _ "[]"]) (auto simp: word_less_nat_alt)
  next
    case True
    have le: "idle_size d \<le> cur" using Cons.prems(2) by (simp add: word_le_nat_alt)
    then have sub: "unat (cur - idle_size d) = unat cur - unat (idle_size d)"
      by (simp add: unat_sub)
    have fr: "unat (freed + min cur (idle_size d)) = unat freed + unat (idle_size d)"
      using Cons.prems(4) le by (simp add: min_def unat_word_ariths)
    have run: "evict_loop budget bytes ds (cur - idle_size d) (freed + min cur (idle_size d)) = (rest, cur', freed')"
      using Cons.prems(1) True by simp
    have "idle_bytes ds \<le> unat (cur - idle_size d)" "unat (cur - idle_size d) + unat bytes < 2 ^ 64"
      "unat (freed + min cur (idle_size d)) + idle_bytes ds < 2 ^ 64"
      using Cons.prems(2-4) sub fr by simp_all
    from Cons.IH [OF run this] obtain ev where ev: "ds = ev @ rest" "unat cur' = unat (cur - idle_size d) - idle_bytes ev"
      "unat freed' = unat (freed + min cur (idle_size d)) + idle_bytes ev"
      "\<forall>j < length ev. unat budget < unat (cur - idle_size d) - idle_bytes (take j ev) + unat bytes"
      "rest = [] \<or> unat cur' + unat bytes \<le> unat budget"
      by blast
    have "unat budget < unat cur - idle_bytes (take j (d # ev)) + unat bytes" if "j < Suc (length ev)" for j
      using that True ev(4) add sub by (cases j) (auto simp: word_less_nat_alt)
    with ev sub fr show ?thesis by (intro exI [of _ "d # ev"]) auto
  qed
qed

lemma try_alloc_inner_spec:
  assumes "unat (mc_current c) + unat bytes < 2 ^ 64"
  shows "try_alloc_inner bytes c =
    (if unat (mc_current c) + unat bytes \<le> unat (mc_budget c)
     then (True, c\<lparr>mc_current := mc_current c + bytes\<rparr>) else (False, c))"
  using assms by (simp add: try_alloc_inner_def word_le_nat_alt unat_word_ariths)
text \<open>What an allocation does: nothing is evicted when it fits; otherwise the least recently used documents
  go, no more of them than needed.\<close>

lemma try_alloc_spec:
  assumes ok: "mc_ok c" and nowrap: "unat (mc_current c) + unat bytes < 2 ^ 64"
    and "try_alloc bytes c = (r, c')"
  obtains ev rest where
    "mset (mc_idle c) = mset (ev @ rest)" "mset (mc_idle c') = mset rest" "mc_budget c' = mc_budget c"
    "\<forall>e \<in> set ev. \<forall>k \<in> set rest. idle_last_access e \<le> idle_last_access k"
    "\<forall>j < length ev. unat (mc_budget c) < unat (mc_current c) - idle_bytes (take j ev) + unat bytes"
    "r \<longleftrightarrow> unat (mc_current c) - idle_bytes ev + unat bytes \<le> unat (mc_budget c)"
    "r \<or> rest = []"
    "unat (mc_current c') = unat (mc_current c) - idle_bytes ev + (if r then unat bytes else 0)"
proof (cases "unat (mc_current c) + unat bytes \<le> unat (mc_budget c)")
  case True
  then have a: "try_alloc_inner bytes c = (True, c\<lparr>mc_current := mc_current c + bytes\<rparr>)"
    using try_alloc_inner_spec [OF nowrap] by simp
  with assms(3) have "r" "c' = c\<lparr>mc_current := mc_current c + bytes\<rparr>" by (simp_all add: try_alloc_def)
  with True nowrap show ?thesis by (intro that [of "[]" "mc_idle c"]) (simp_all add: unat_word_ariths)
next
  case False
  then have a: "try_alloc_inner bytes c = (False, c)" using try_alloc_inner_spec [OF nowrap] by simp
  let ?s = "sort_key idle_last_access (mc_idle c)"
  obtain rest cur' freed' where run: "evict_loop (mc_budget c) bytes ?s (mc_current c) 0 = (rest, cur', freed')"
    by (metis prod_cases3)
  from ok have le: "idle_bytes ?s \<le> unat (mc_current c)" by (simp add: mc_ok_def)
  moreover have "unat (0 :: usize) + idle_bytes ?s < 2 ^ 64"
    using le unat_usize [of "mc_current c"] by simp
  ultimately obtain ev where ev: "?s = ev @ rest" "unat cur' = unat (mc_current c) - idle_bytes ev"
    "\<forall>j < length ev. unat (mc_budget c) < unat (mc_current c) - idle_bytes (take j ev) + unat bytes"
    "rest = [] \<or> unat cur' + unat bytes \<le> unat (mc_budget c)"
    using evict_loop_spec [OF run _ nowrap] by blast
  let ?c = "c\<lparr>mc_current := cur', mc_idle := rest\<rparr>"
  have "snd (evict_to_fit bytes c) = ?c"
  proof (cases "mc_idle c = []")
    case True
    with run show ?thesis by (auto simp: evict_to_fit_def)
  next
    case False
    with run show ?thesis by (simp add: evict_to_fit_def)
  qed
  with assms(3) a have t: "try_alloc_inner bytes ?c = (r, c')"
    by (simp add: try_alloc_def split: prod.splits)
  have "unat (mc_current ?c) + unat bytes < 2 ^ 64" using ev(2) nowrap by simp
  note inner = try_alloc_inner_spec [OF this]
  have r: "r \<longleftrightarrow> unat cur' + unat bytes \<le> unat (mc_budget c)"
    and c': "c' = (if r then ?c\<lparr>mc_current := cur' + bytes\<rparr> else ?c)"
    using t inner by (auto split: if_splits)
  have srt: "sorted (map idle_last_access (ev @ rest))" by (simp flip: ev(1))
  have ms: "mset (mc_idle c) = mset (ev @ rest)" by (simp flip: ev(1))
  show ?thesis
  proof (rule that [OF ms])
    show "\<forall>e \<in> set ev. \<forall>k \<in> set rest. idle_last_access e \<le> idle_last_access k"
      using srt by (auto simp: sorted_append)
    show "unat (mc_current c') = unat (mc_current c) - idle_bytes ev + (if r then unat bytes else 0)"
      using c' ev(2) nowrap by (simp add: unat_word_ariths)
  qed (use c' r ev in auto)
qed
lemma mset_idle:
  assumes "mset ds = mset es"
  shows "idle_bytes ds = idle_bytes es" "distinct (map idle_key ds) = distinct (map idle_key es)"
proof -
  show "idle_bytes ds = idle_bytes es"
    using assms by (simp add: idle_bytes_def flip: sum_mset_sum_list)
  show "distinct (map idle_key ds) = distinct (map idle_key es)"
    by (rule mset_eq_imp_distinct_iff) (simp add: assms)
qed

lemma mc_ok_release:
  assumes "mc_ok c" and "idle_bytes (mc_idle c) + unat bytes \<le> unat (mc_current c)"
  shows "mc_ok (mc_release bytes c)" "unat (mc_current (mc_release bytes c)) = unat (mc_current c) - unat bytes"
proof -
  have "bytes \<le> mc_current c" using assms(2) by (simp add: word_le_nat_alt)
  then have "unat (mc_current c - bytes) = unat (mc_current c) - unat bytes" by (simp add: unat_sub)
  moreover have "idle_bytes (mc_idle c) \<le> unat (mc_current c) - unat bytes" using assms(2) by simp
  ultimately show "mc_ok (mc_release bytes c)"
    "unat (mc_current (mc_release bytes c)) = unat (mc_current c) - unat bytes"
    using assms(1) \<open>bytes \<le> mc_current c\<close>
    by (auto simp: mc_ok_def mc_release_def Let_def word_le_nat_alt word_less_nat_alt)
qed

section \<open>Properties\<close>

text \<open>Property C28 (try_alloc_correct). On a ceiling whose idle documents are part of what is allocated,
  \<^verbatim>\<open>try_alloc\<close> keeps the accounting and the budget. It evicts the least recently used documents and no
  more of them than are needed to make room, and it refuses only when even the eviction of every idle
  document leaves too little.
\<close>

theorem try_alloc_correct:
  assumes "mc_ok c" and "unat (mc_current c) + unat bytes < 2 ^ 64" and "try_alloc bytes c = (r, c')"
  shows "mc_ok c' \<and> mc_budget c' = mc_budget c \<and>
    (\<exists>evicted kept. mset (mc_idle c) = mset (evicted @ kept) \<and> mset (mc_idle c') = mset kept \<and>
       (\<forall>e \<in> set evicted. \<forall>k \<in> set kept. idle_last_access e \<le> idle_last_access k) \<and>
       (\<forall>j < length evicted.
          unat (mc_budget c) < unat (mc_current c) - idle_bytes (take j evicted) + unat bytes) \<and>
       unat (mc_current c') = unat (mc_current c) - idle_bytes evicted + (if r then unat bytes else 0)) \<and>
    r = (unat (mc_current c) - idle_bytes (mc_idle c) + unat bytes \<le> unat (mc_budget c))"
proof -
  obtain ev rest where e: "mset (mc_idle c) = mset (ev @ rest)" "mset (mc_idle c') = mset rest"
    "mc_budget c' = mc_budget c"
    "\<forall>e \<in> set ev. \<forall>k \<in> set rest. idle_last_access e \<le> idle_last_access k"
    "\<forall>j < length ev. unat (mc_budget c) < unat (mc_current c) - idle_bytes (take j ev) + unat bytes"
    "r \<longleftrightarrow> unat (mc_current c) - idle_bytes ev + unat bytes \<le> unat (mc_budget c)"
    "r \<or> rest = []"
    "unat (mc_current c') = unat (mc_current c) - idle_bytes ev + (if r then unat bytes else 0)"
    by (rule try_alloc_spec [OF assms])
  note ib = mset_idle [OF e(1)] mset_idle [OF e(2)]
  have le: "idle_bytes ev + idle_bytes rest \<le> unat (mc_current c)" "unat (mc_current c) \<le> unat (mc_budget c)"
    and ds: "distinct (map idle_key rest)"
    using assms(1) ib by (simp_all add: mc_ok_def word_le_nat_alt)
  have "mc_ok c'" using le ds ib e(3,6,8) by (auto simp: mc_ok_def word_le_nat_alt)
  moreover have "r = (unat (mc_current c) - idle_bytes (mc_idle c) + unat bytes \<le> unat (mc_budget c))"
    using e(6,7) ib by auto
  ultimately show ?thesis using e by (intro conjI exI [of _ ev] exI [of _ rest]) auto
qed

text \<open>A budget of ten bytes, eight of them in two idle documents.\<close>

definition small_ceiling :: memory_ceiling where
  "small_ceiling = \<lparr>mc_budget = 10, mc_current = 9,
     mc_idle = [\<lparr>idle_key = 1, idle_size = 4, idle_last_access = 20\<rparr>,
                \<lparr>idle_key = 2, idle_size = 4, idle_last_access = 10\<rparr>]\<rparr>"

theorem try_alloc_correct_witness:
  "case try_alloc 5 small_ceiling of (r, c') \<Rightarrow> r \<and> mc_ok c' \<and>
     mc_idle c' = [\<lparr>idle_key = 1, idle_size = 4, idle_last_access = 20\<rparr>] \<and> mc_current c' = 10"
proof -
  have ok: "mc_ok small_ceiling" by (simp add: mc_ok_def small_ceiling_def)
  have run: "try_alloc 5 small_ceiling = (True, \<lparr>mc_budget = 10, mc_current = 10,
      mc_idle = [\<lparr>idle_key = 1, idle_size = 4, idle_last_access = 20\<rparr>]\<rparr>)"
    by (simp add: try_alloc_def try_alloc_inner_def evict_to_fit_def small_ceiling_def sort_key_def)
  have "unat (mc_current small_ceiling) + unat (5 :: usize) < 2 ^ 64" by (simp add: small_ceiling_def)
  from try_alloc_correct [OF ok this run] run show ?thesis by simp
qed

text \<open>Evicting the least recently used document returns the
  bytes freed, clamped to the counter; the counter itself is reduced by the full size. As long as the
  document is part of what is allocated this is exact; a document registered with more bytes than are
  allocated makes the counter wrap, and no allocation fits any more.
\<close>

theorem evict_idle_wraps_when_unaccounted:
  assumes "sort_key idle_last_access (mc_idle c) = d # ds" and "evict_idle c = (freed, c')"
  shows "unat freed = min (unat (mc_current c)) (unat (idle_size d)) \<and> mc_idle c' = ds \<and>
    unat (mc_current c') = (if idle_size d \<le> mc_current c then unat (mc_current c) - unat (idle_size d)
      else 2 ^ 64 - (unat (idle_size d) - unat (mc_current c)))"
proof -
  from assms have f: "freed = min (mc_current c) (idle_size d)"
    and c': "c' = c\<lparr>mc_current := mc_current c - idle_size d, mc_idle := ds\<rparr>"
    by (simp_all add: evict_idle_def)
  have "unat (mc_current c - idle_size d) = 2 ^ 64 - (unat (idle_size d) - unat (mc_current c))"
    if "\<not> idle_size d \<le> mc_current c"
  proof -
    have "unat (mc_current c) < unat (idle_size d)" using that by (simp add: word_le_nat_alt)
    then show ?thesis
      using unat_usize [of "idle_size d"] by (simp add: unat_sub_if_size word_size word_le_nat_alt)
  qed
  then show ?thesis
    by (auto simp: f c' min_def word_le_nat_alt unat_sub)
qed

theorem evict_idle_wraps_when_unaccounted_witness:
  "case try_alloc 10 (mc_new 100) of (_, c1) \<Rightarrow>
     (case evict_idle (mc_release 10 (register_idle 7 10 1 c1)) of (freed, c2) \<Rightarrow>
        freed = 0 \<and> unat (mc_current c2) = 2 ^ 64 - 10 \<and> \<not> fst (try_alloc 1 c2))"
proof -
  let ?d = "\<lparr>idle_key = 7, idle_size = 10, idle_last_access = 1\<rparr>"
  let ?c = "\<lparr>mc_budget = 100, mc_current = 0, mc_idle = [?d]\<rparr>"
  have a: "try_alloc 10 (mc_new 100) = (True, \<lparr>mc_budget = 100, mc_current = 10, mc_idle = []\<rparr>)"
    by (simp add: try_alloc_def try_alloc_inner_def mc_new_def)
  have c: "mc_release 10 (register_idle 7 10 1 \<lparr>mc_budget = 100, mc_current = 10, mc_idle = []\<rparr>) = ?c"
    by (simp add: mc_release_def register_idle_def)
  have s: "sort_key idle_last_access (mc_idle ?c) = ?d # []" by (simp add: sort_key_def)
  have e: "evict_idle ?c = (0, \<lparr>mc_budget = 100, mc_current = - 10, mc_idle = []\<rparr>)"
    by (simp add: evict_idle_def sort_key_def)
  have "\<not> fst (try_alloc 1 \<lparr>mc_budget = 100, mc_current = - 10, mc_idle = []\<rparr>)"
    by (simp add: try_alloc_def try_alloc_inner_def evict_to_fit_def)
  with evict_idle_wraps_when_unaccounted [OF s e] show ?thesis by (simp add: a c e)
qed

end
