(* ===== verification/Root_Tracker.thy ===== *)
theory Root_Tracker
  imports Prelude
begin

text \<open>
  The incremental root tracker of \<^verbatim>\<open>src/schema/mod.rs\<close>: two sets of node keys, updated by hooks on edge
  insertion and removal, and the abstract graph whose roots it is meant to hold. The hooks neither count
  parents nor know which nodes are registered, so the refinement is for histories in which a node has one parent at a
  time and edges end at registered nodes; the property also says what happens without that discipline.
\<close>

section \<open>The tracker\<close>

record root_tracker =
  rt_has_parent :: "string set"
  rt_roots :: "string set"

definition rt_new :: root_tracker where
  "rt_new = \<lparr>rt_has_parent = {}, rt_roots = {}\<rparr>"

definition register_node :: "string \<Rightarrow> root_tracker \<Rightarrow> root_tracker" where
  "register_node node t =
     (if node \<notin> rt_has_parent t then t\<lparr>rt_roots := insert node (rt_roots t)\<rparr> else t)"

definition unregister_node :: "string \<Rightarrow> root_tracker \<Rightarrow> root_tracker" where
  "unregister_node node t =
     t\<lparr>rt_roots := rt_roots t - {node}, rt_has_parent := rt_has_parent t - {node}\<rparr>"

definition on_edge_inserted :: "string \<Rightarrow> string \<Rightarrow> root_tracker \<Rightarrow> root_tracker" where
  "on_edge_inserted child parent t =
     t\<lparr>rt_has_parent := insert child (rt_has_parent t), rt_roots := rt_roots t - {child}\<rparr>"

definition on_edge_removed :: "string \<Rightarrow> string \<Rightarrow> root_tracker \<Rightarrow> root_tracker" where
  "on_edge_removed child parent t =
     t\<lparr>rt_has_parent := rt_has_parent t - {child}, rt_roots := insert child (rt_roots t)\<rparr>"

definition is_root :: "root_tracker \<Rightarrow> string \<Rightarrow> bool" where
  "is_root t node \<longleftrightarrow> node \<in> rt_roots t"

definition root_count :: "root_tracker \<Rightarrow> nat" where
  "root_count t = card (rt_roots t)"

definition non_root_count :: "root_tracker \<Rightarrow> nat" where
  "non_root_count t = card (rt_has_parent t)"

definition rt_is_empty :: "root_tracker \<Rightarrow> bool" where
  "rt_is_empty t \<longleftrightarrow> rt_roots t = {} \<and> rt_has_parent t = {}"

datatype tracker_op = Register string | Unregister string | Inserted string string | Removed string string

primrec rt_apply :: "tracker_op \<Rightarrow> root_tracker \<Rightarrow> root_tracker" where
  "rt_apply (Register n) t = register_node n t"
| "rt_apply (Unregister n) t = unregister_node n t"
| "rt_apply (Inserted c p) t = on_edge_inserted c p t"
| "rt_apply (Removed c p) t = on_edge_removed c p t"

lemmas rt_op_defs = register_node_def unregister_node_def on_edge_inserted_def on_edge_removed_def

section \<open>The graph it stands for\<close>

text \<open>Registered nodes and parent-child edges. An edge registers nothing; deleting a node deletes its edges.\<close>

type_synonym tracked_graph = "string set \<times> (string \<times> string) set"

primrec graph_apply :: "tracker_op \<Rightarrow> tracked_graph \<Rightarrow> tracked_graph" where
  "graph_apply (Register n) g = (insert n (fst g), snd g)"
| "graph_apply (Unregister n) g = (fst g - {n}, {(p, c) \<in> snd g. p \<noteq> n \<and> c \<noteq> n})"
| "graph_apply (Inserted c p) g = (fst g, insert (p, c) (snd g))"
| "graph_apply (Removed c p) g = (fst g, snd g - {(p, c)})"

text \<open>A registered node gets a parent only when it has no other, and loses only a parent it has; a node is deleted
  after its children were detached.\<close>

primrec one_parent :: "tracker_op \<Rightarrow> tracked_graph \<Rightarrow> bool" where
  "one_parent (Register n) g \<longleftrightarrow> True"
| "one_parent (Unregister n) g \<longleftrightarrow> n \<notin> Domain (snd g)"
| "one_parent (Inserted c p) g \<longleftrightarrow> c \<in> fst g \<and> (\<forall>q. (q, c) \<in> snd g \<longrightarrow> q = p)"
| "one_parent (Removed c p) g \<longleftrightarrow> (p, c) \<in> snd g"

fun one_parent_history :: "tracker_op list \<Rightarrow> tracked_graph \<Rightarrow> bool" where
  "one_parent_history [] g \<longleftrightarrow> True"
| "one_parent_history (op # ops) g \<longleftrightarrow> one_parent op g \<and> one_parent_history ops (graph_apply op g)"

definition graph_roots :: "tracked_graph \<Rightarrow> string set" where
  "graph_roots g = {n \<in> fst g. \<nexists>p. (p, n) \<in> snd g}"

text \<open>The refinement relation.\<close>

definition tracks :: "root_tracker \<Rightarrow> tracked_graph \<Rightarrow> bool" where
  "tracks t g \<longleftrightarrow> rt_roots t = graph_roots g \<and> rt_has_parent t = Range (snd g) \<and> Range (snd g) \<subseteq> fst g \<and>
     (\<forall>p q c. (p, c) \<in> snd g \<longrightarrow> (q, c) \<in> snd g \<longrightarrow> p = q)"

lemma tracks_new: "tracks rt_new ({}, {})"
  by (simp add: tracks_def rt_new_def graph_roots_def)

lemma tracks_step:
  assumes t: "tracks t g" and op: "one_parent op g"
  shows "tracks (rt_apply op t) (graph_apply op g)"
proof (cases op)
  case (Removed c p)
  with t op have "(q, c) \<in> snd g \<longleftrightarrow> q = p" for q unfolding tracks_def by auto
  with t op Removed show ?thesis
    by (auto simp: tracks_def rt_op_defs graph_roots_def Range_iff)
qed (use t op in \<open>auto simp: tracks_def rt_op_defs graph_roots_def Range_iff\<close>)

lemma tracks_run:
  "tracks t g \<Longrightarrow> one_parent_history ops g \<Longrightarrow> tracks (fold rt_apply ops t) (fold graph_apply ops g)"
  by (induction ops arbitrary: t g) (auto simp: tracks_step)

text \<open>Without the discipline the hooks are wrong.\<close>

lemma untracked_histories:
  "is_root (fold rt_apply [Inserted c p, Removed c p] t) c"
  "is_root (fold rt_apply [Inserted c p, Inserted c q, Removed c p] t) c"
  "c \<noteq> p \<Longrightarrow> \<not> is_root (fold rt_apply [Inserted c p, Unregister p] t) c"
  by (simp_all add: is_root_def rt_op_defs)

section \<open>Properties\<close>

text \<open>Property C29 (root_tracker_tracks_roots). Over any history in which only registered nodes get a parent, at most
  one at a time, and a node is unregistered after its children were detached, the tracker holds exactly the roots of the
  graph the history builds: the registered nodes that no edge points at. Its counters are the numbers of roots and of
  nodes with a parent, and together the number of registered nodes. Outside such histories it does not do what its docs
  say: a node that was never registered is a root once an edge to it was inserted and removed, a node with two
  parents is one as soon as either edge is removed, and the children of an unregistered parent do not become roots.
\<close>

theorem root_tracker_tracks_roots:
  assumes "one_parent_history ops ({}, {})"
  shows "(let t = fold rt_apply ops rt_new; g = fold graph_apply ops ({}, {}) in
      (\<forall>n. is_root t n \<longleftrightarrow> n \<in> fst g \<and> (\<nexists>p. (p, n) \<in> snd g)) \<and>
      root_count t = card (graph_roots g) \<and> non_root_count t = card (Range (snd g)) \<and>
      root_count t + non_root_count t = card (fst g)) \<and>
    is_root (fold rt_apply [Inserted c p, Removed c p] u) c \<and>
    is_root (fold rt_apply [Inserted c p, Inserted c q, Removed c p] u) c \<and>
    (c \<noteq> p \<longrightarrow> \<not> is_root (fold rt_apply [Inserted c p, Unregister p] u) c)"
proof -
  let ?t = "fold rt_apply ops rt_new" and ?g = "fold graph_apply ops ({}, {})"
  have t: "tracks ?t ?g" by (rule tracks_run [OF tracks_new assms])
  have "finite (fst (fold graph_apply ops g))" if "finite (fst g)" for g
    using that
  proof (induction ops arbitrary: g)
    case (Cons op ops)
    then show ?case by (cases op) simp_all
  qed simp
  from this [of "({}, {})"] have fin: "finite (fst ?g)" by simp
  from t have sub: "Range (snd ?g) \<subseteq> fst ?g" by (simp add: tracks_def)
  have "graph_roots ?g = fst ?g - Range (snd ?g)" by (auto simp: graph_roots_def)
  with sub fin have "card (graph_roots ?g) + card (Range (snd ?g)) = card (fst ?g)"
    by (simp add: card_Diff_subset finite_subset card_mono)
  with t have "let t = ?t; g = ?g in
      (\<forall>n. is_root t n \<longleftrightarrow> n \<in> fst g \<and> (\<nexists>p. (p, n) \<in> snd g)) \<and>
      root_count t = card (graph_roots g) \<and> non_root_count t = card (Range (snd g)) \<and>
      root_count t + non_root_count t = card (fst g)"
    by (simp add: Let_def is_root_def root_count_def non_root_count_def tracks_def graph_roots_def)
  then show ?thesis using untracked_histories by blast
qed

theorem root_tracker_tracks_roots_witness:
  "let t = fold rt_apply [Register ''a'', Register ''b'', Inserted ''b'' ''a'', Register ''c'',
       Inserted ''c'' ''b'', Removed ''b'' ''a''] rt_new in
   is_root t ''a'' \<and> is_root t ''b'' \<and> \<not> is_root t ''c'' \<and> root_count t = 2 \<and> non_root_count t = 1 \<and>
   is_root (fold rt_apply [Inserted ''z'' ''y'', Removed ''z'' ''y''] t) ''z''"
proof -
  let ?ops = "[Register ''a'', Register ''b'', Inserted ''b'' ''a'', Register ''c'',
       Inserted ''c'' ''b'', Removed ''b'' ''a'']"
  let ?g = "fold graph_apply ?ops ({}, {})"
  have h: "one_parent_history ?ops ({}, {})" by simp
  have g: "fst ?g = {''a'', ''b'', ''c''}" "snd ?g = {(''b'', ''c'')}" by auto
  then have r: "graph_roots ?g = {''a'', ''b''}" by (auto simp: graph_roots_def)
  from root_tracker_tracks_roots [OF h, where c = "''z''" and p = "''y''" and u = "fold rt_apply ?ops rt_new"] show ?thesis
    unfolding Let_def r g by (intro conjI) auto
qed

end
