(* ===== verification/Hydration.thy ===== *)
theory Hydration
  imports Batcher Sync_Translate
begin

text \<open>
  Cold-boot hydration (\<^verbatim>\<open>src/hydration/serial.rs\<close>, \<^verbatim>\<open>parallel.rs\<close>): the vertices of the Loro document
  are read as \<^verbatim>\<open>VertexEntity\<close> values (\<^verbatim>\<open>src/schema/vertex.rs\<close>) and upserted into grafeo, one transaction
  per chunk of keys. The derived reader \<^verbatim>\<open>VertexEntity::hydrate_map\<close> and the container calls of Loro are
  fields of \<open>vertex_api\<close>; \<open>'c\<close> is a handle of a map container.
\<close>

section \<open>Reading a vertex\<close>

record vertex_entity =
  ve_labels :: "string list"
  ve_properties :: "(string, loro_property) hmap"
  ve_description :: string

record ('d, 'c) vertex_api =
  v_doc :: "'d loro_api"
  v_keys :: "string \<Rightarrow> 'd \<Rightarrow> string list"
  v_into_map :: "string \<Rightarrow> string \<Rightarrow> 'd \<Rightarrow> 'c option"
  v_hydrate_map :: "'c \<Rightarrow> 'd \<Rightarrow> string + vertex_entity"

definition vertex_missing :: "string \<Rightarrow> grafeo_loro_error" where
  "vertex_missing key = Bridge (Msg ''vertex {key} missing from LoroMap'' [A_Str key])"

definition vertex_not_map :: "string \<Rightarrow> grafeo_loro_error" where
  "vertex_not_map key = Bridge (Msg ''vertex {key} is not a Container::Map'' [A_Str key])"

definition hydrate_vertex :: "('d, 'c) vertex_api \<Rightarrow> 'd \<Rightarrow> string \<Rightarrow> loro_op result" where
  "hydrate_vertex v doc key = (case l_map_get (v_doc v) ROOT_VERTICES key doc of
     None \<Rightarrow> Inl (vertex_missing key)
   | Some voc \<Rightarrow>
       (case (case voc of VOC_Container \<Rightarrow> v_into_map v ROOT_VERTICES key doc | VOC_Value _ \<Rightarrow> None) of
          None \<Rightarrow> Inl (vertex_not_map key)
        | Some vertex_map \<Rightarrow> (case v_hydrate_map v vertex_map doc of
            Inl e \<Rightarrow> Inl (Hydrate e)
          | Inr entity \<Rightarrow> Inr (UpsertNode key (ve_labels entity)
              (map (\<lambda>(k, p). (k, gval_from_property p)) (ve_properties entity))))))"

section \<open>Chunks of one transaction\<close>

fun hydrate_keys ::
  "'s session_api \<Rightarrow> ('d, 'c) vertex_api \<Rightarrow> 'd \<Rightarrow> string list \<Rightarrow> 's tx \<Rightarrow> unit result \<times> 's tx" where
  "hydrate_keys api v doc [] t = (Inr (), t)"
| "hydrate_keys api v doc (key # keys) t = (case hydrate_vertex v doc key of
     Inl e \<Rightarrow> (Inl e, t)
   | Inr op \<Rightarrow> (case apply_loro_op api op t of
       (Inl e, t) \<Rightarrow> (Inl e, t)
     | (Inr _, t) \<Rightarrow> hydrate_keys api v doc keys t))"

definition hydrate_chunk ::
  "'s db_api \<Rightarrow> ('d, 'c) vertex_api \<Rightarrow> 'd \<Rightarrow> string list \<Rightarrow> 's tx \<Rightarrow> unit result \<times> 's tx" where
  "hydrate_chunk db v doc chunk = (\<lambda>(s, maps).
     case d_begin_transaction db s of
       (Inl e, s) \<Rightarrow> (Inl (Grafeo e), (d_drop_session db s, maps))
     | (Inr _, s) \<Rightarrow>
     (case hydrate_keys (d_session db) v doc chunk (s, maps) of
       (Inl e, (s, maps)) \<Rightarrow> (Inl e, (d_drop_session db s, maps))
     | (Inr _, (s, maps)) \<Rightarrow>
     (case d_prepare_commit db s of
       (Inl e, s) \<Rightarrow> (Inl (Grafeo e), (d_drop_session db s, maps))
     | (Inr _, s) \<Rightarrow>
     (case d_commit db s of
       (Inl e, s) \<Rightarrow> (Inl (Grafeo e), (d_drop_session db s, maps))
     | (Inr epoch, s) \<Rightarrow> (Inr (), (s, maps))))))"

fun hydrate_chunks ::
  "'s db_api \<Rightarrow> ('d, 'c) vertex_api \<Rightarrow> 'd \<Rightarrow> string list list \<Rightarrow> 's tx \<Rightarrow> unit result \<times> 's tx" where
  "hydrate_chunks db v doc [] t = (Inr (), t)"
| "hydrate_chunks db v doc (chunk # rest) t = (case hydrate_chunk db v doc chunk t of
     (Inl e, t) \<Rightarrow> (Inl e, t)
   | (Inr _, t) \<Rightarrow> hydrate_chunks db v doc rest t)"

definition hydrate_grafeo ::
  "'s db_api \<Rightarrow> ('d, 'c) vertex_api \<Rightarrow> 'd \<Rightarrow> 's tx \<Rightarrow> unit result \<times> 's tx" where
  "hydrate_grafeo db v doc t =
     hydrate_chunks db v doc (chunks (unat DEFAULT_CHUNK_SIZE) (v_keys v ROOT_VERTICES doc)) t"

text \<open>The parallel version runs the chunks in an order that rayon chooses; a chunk is a transaction of its
  own session, so chunks are the steps that are ordered. The first error ends the call.\<close>

definition parallel_hydrate_grafeo ::
  "(string list list \<Rightarrow> string list list) \<Rightarrow> 's db_api \<Rightarrow> ('d, 'c) vertex_api \<Rightarrow> 'd \<Rightarrow> 's tx \<Rightarrow> unit result \<times> 's tx"
  where
  "parallel_hydrate_grafeo ord db v doc t =
     hydrate_chunks db v doc (ord (chunks (unat DEFAULT_CHUNK_SIZE) (v_keys v ROOT_VERTICES doc))) t"

section \<open>What hydration does to the maps and the nodes\<close>

text \<open>A count of the nodes of the database: a creation adds one, the other calls hydration makes add none when they
  succeed.\<close>

definition node_counting :: "'s db_api \<Rightarrow> ('s \<Rightarrow> nat) \<Rightarrow> bool" where
  "node_counting db cnt \<longleftrightarrow>
     (\<forall>s s'. d_begin_transaction db s = (Inr (), s') \<longrightarrow> cnt s' = cnt s) \<and>
     (\<forall>s s'. d_prepare_commit db s = (Inr (), s') \<longrightarrow> cnt s' = cnt s) \<and>
     (\<forall>s s' epoch. d_commit db s = (Inr epoch, s') \<longrightarrow> cnt s' = cnt s) \<and>
     (\<forall>nid k v s s'. s_set_node_property (d_session db) nid k v s = (Inr (), s') \<longrightarrow> cnt s' = cnt s) \<and>
     (\<forall>ls ps s nid s'. s_create_node_with_props (d_session db) ls ps s = (Inr nid, s') \<longrightarrow> cnt s' = Suc (cnt s))"

lemma node_countingD:
  assumes "node_counting db cnt"
  shows "d_begin_transaction db s = (Inr (), s') \<Longrightarrow> cnt s' = cnt s"
    and "d_prepare_commit db s = (Inr (), s') \<Longrightarrow> cnt s' = cnt s"
    and "d_commit db s = (Inr epoch, s') \<Longrightarrow> cnt s' = cnt s"
    and "s_set_node_property (d_session db) nid k v s = (Inr (), s') \<Longrightarrow> cnt s' = cnt s"
    and "s_create_node_with_props (d_session db) ls ps s = (Inr nid, s') \<Longrightarrow> cnt s' = Suc (cnt s)"
  using assms unfolding node_counting_def by blast+

lemma set_node_properties_counts:
  assumes "node_counting db cnt"
  shows "set_node_properties (d_session db) nid ps s = (Inr (), s') \<Longrightarrow> cnt s' = cnt s"
proof (induction ps arbitrary: s)
  case (Cons p ps)
  obtain k v where p: "p = (k, v)" by fastforce
  obtain r s1 where c: "s_set_node_property (d_session db) nid k (gval_to_grafeo_value v) s = (r, s1)" by fastforce
  with Cons.prems p have "r = Inr ()" "set_node_properties (d_session db) nid ps s1 = (Inr (), s')"
    by (auto split: sum.splits)
  with Cons.IH c node_countingD(4) [OF assms] show ?case by metis
qed simp

text \<open>The effect of a run that succeeded on the maps and on the count: one new node for each vertex that was not
  bound.\<close>

definition hydrated :: "('s \<Rightarrow> nat) \<Rightarrow> string set \<Rightarrow> 's tx \<Rightarrow> 's tx \<Rightarrow> bool" where
  "hydrated cnt K = (\<lambda>(s, m) (s', m'). dom (node_fwd m') = dom (node_fwd m) \<union> K \<and> edge_fwd m' = edge_fwd m \<and>
     edge_inv m' = edge_inv m \<and> (K \<subseteq> dom (node_fwd m) \<longrightarrow> m' = m) \<and> cnt s' = cnt s + card (K - dom (node_fwd m)))"

lemma hydrated_refl: "hydrated cnt {} t t"
  by (cases t) (simp add: hydrated_def)

lemma hydrated_trans:
  assumes "hydrated cnt K t t1" and "hydrated cnt L t1 t2" and "finite K" "finite L"
  shows "hydrated cnt (K \<union> L) t t2"
proof -
  obtain s m s1 m1 s2 m2 where t: "t = (s, m)" "t1 = (s1, m1)" "t2 = (s2, m2)" by (metis surj_pair)
  have u: "K \<union> L - dom (node_fwd m) = (K - dom (node_fwd m)) \<union> (L - (dom (node_fwd m) \<union> K))" by blast
  have "card (K \<union> L - dom (node_fwd m)) = card (K - dom (node_fwd m)) + card (L - (dom (node_fwd m) \<union> K))"
    unfolding u using assms(3,4) by (intro card_Un_disjoint) auto
  moreover have "dom (node_fwd m1) = dom (node_fwd m) \<union> K" using assms(1) t by (simp add: hydrated_def)
  moreover from assms(1,2) t this have "m2 = m" if "K \<union> L \<subseteq> dom (node_fwd m)"
    using that by (simp add: hydrated_def le_supI1)
  ultimately show ?thesis using assms(1,2) t by (simp add: hydrated_def Un_assoc)
qed

lemma hydrated_upsert:
  assumes "node_counting db cnt" and "apply_loro_op (d_session db) (UpsertNode k ls ps) (s, m) = (Inr (), (s', m'))"
  shows "hydrated cnt {k} (s, m) (s', m')"
proof (cases "node_fwd m k")
  case None
  with assms(2) obtain nid where "m' = insert_node k nid m"
    and "s_create_node_with_props (d_session db) ls (props_iter ps) s = (Inr nid, s')"
    by (auto simp: apply_upsert_node_def node_fwd_def split: prod.splits sum.splits)
  moreover from None have "{k} - dom (node_fwd m) = {k}" by auto
  ultimately show ?thesis using None node_countingD(5) [OF assms(1)]
    by (auto simp: hydrated_def dom_insert_node bridge_simps)
next
  case (Some nid)
  with assms(2) have "m' = m" "set_node_properties (d_session db) nid ps s = (Inr (), s')"
    by (auto simp: apply_upsert_node_def node_fwd_def split: prod.splits sum.splits)
  with Some set_node_properties_counts [OF assms(1)] show ?thesis by (auto simp: hydrated_def)
qed

lemma hydrated_frame:
  "hydrated cnt K (s, m) (s', m') \<Longrightarrow> cnt s0 = cnt s \<Longrightarrow> cnt s1 = cnt s' \<Longrightarrow> hydrated cnt K (s0, m) (s1, m')"
  by (simp add: hydrated_def)

lemma hydrate_vertex_op:
  assumes "hydrate_vertex v doc key = Inr op"
  obtains ls ps where "op = UpsertNode key ls ps"
  using assms by (auto simp: hydrate_vertex_def split: option.splits sum.splits)

lemma hydrated_keys:
  assumes "node_counting db cnt"
  shows "hydrate_keys (d_session db) v doc keys t = (Inr (), t') \<Longrightarrow> hydrated cnt (set keys) t t'"
proof (induction keys arbitrary: t)
  case Nil
  then show ?case by (simp add: hydrated_refl)
next
  case (Cons key keys)
  then obtain op where v: "hydrate_vertex v doc key = Inr op" by (auto split: sum.splits)
  then obtain ls ps where op: "op = UpsertNode key ls ps" by (rule hydrate_vertex_op)
  obtain s m where t: "t = (s, m)" by fastforce
  obtain r s1 m1 where r: "apply_loro_op (d_session db) op (s, m) = (r, (s1, m1))"
    by (cases "apply_loro_op (d_session db) op (s, m)") auto
  with Cons.prems v t have "r = Inr ()"
    and rest: "hydrate_keys (d_session db) v doc keys (s1, m1) = (Inr (), t')"
    by (auto split: sum.splits)
  with r op t have "hydrated cnt {key} t (s1, m1)" by (simp only: hydrated_upsert [OF assms])
  from hydrated_trans [OF this Cons.IH [OF rest]] show ?case by simp
qed

lemma hydrated_chunk:
  assumes "node_counting db cnt" and "hydrate_chunk db v doc chunk t = (Inr (), t')"
  shows "hydrated cnt (set chunk) t t'"
proof -
  obtain s m s' m' where t: "t = (s, m)" "t' = (s', m')" by (metis surj_pair)
  with assms(2) obtain s1 s2 s3 epoch where "d_begin_transaction db s = (Inr (), s1)"
    "hydrate_keys (d_session db) v doc chunk (s1, m) = (Inr (), (s2, m'))"
    "d_prepare_commit db s2 = (Inr (), s3)" "d_commit db s3 = (Inr epoch, s')"
    by (auto simp: hydrate_chunk_def split: prod.splits sum.splits)
  with hydrated_keys [OF assms(1)] node_countingD [OF assms(1)] show ?thesis
    unfolding t by (metis hydrated_frame)
qed

lemma hydrated_chunks:
  assumes "node_counting db cnt"
  shows "hydrate_chunks db v doc cs t = (Inr (), t') \<Longrightarrow> hydrated cnt (\<Union> (set ` set cs)) t t'"
proof (induction cs arbitrary: t)
  case Nil
  then show ?case by (simp add: hydrated_refl)
next
  case (Cons c cs)
  obtain r t1 where r: "hydrate_chunk db v doc c t = (r, t1)"
    by (cases "hydrate_chunk db v doc c t")
  with Cons.prems have "r = Inr ()" and rest: "hydrate_chunks db v doc cs t1 = (Inr (), t')"
    by (auto split: sum.splits)
  with r have "hydrated cnt (set c) t t1" by (simp only: hydrated_chunk [OF assms])
  from hydrated_trans [OF this Cons.IH [OF rest]] show ?case by simp
qed

text \<open>A hydration that succeeds has read every vertex.\<close>

definition readable :: "('d, 'c) vertex_api \<Rightarrow> 'd \<Rightarrow> string \<Rightarrow> bool" where
  "readable v doc key = (case hydrate_vertex v doc key of Inl e \<Rightarrow> False | Inr op \<Rightarrow> True)"

lemma hydrate_keys_read: "hydrate_keys api v doc keys t = (Inr (), t') \<Longrightarrow> list_all (readable v doc) keys"
  by (induction keys arbitrary: t) (auto simp: readable_def split: sum.splits prod.splits)

lemma hydrate_chunk_read: "hydrate_chunk db v doc c t = (Inr (), t') \<Longrightarrow> list_all (readable v doc) c"
  by (cases t) (auto simp: hydrate_chunk_def split: sum.splits prod.splits dest: hydrate_keys_read)

lemma hydrate_chunks_read: "hydrate_chunks db v doc cs t = (Inr (), t') \<Longrightarrow> list_all (readable v doc) (concat cs)"
  by (induction cs arbitrary: t) (auto split: sum.splits prod.splits dest: hydrate_chunk_read)

lemma chunks_keys: "\<Union> (set ` set (chunks (unat DEFAULT_CHUNK_SIZE) keys)) = set keys"
  using concat_chunks [of "unat DEFAULT_CHUNK_SIZE" keys]
  by (simp add: DEFAULT_CHUNK_SIZE_def flip: set_concat)

lemma set_keys_merge_after: "set (hm_keys (merge_after c after cur)) = set (hm_keys after) \<union> set (hm_keys cur)"
proof -
  have hk: "hm_keys ([] :: ('a, 'b) hmap) = []" "hm_keys (((k, x) :: 'a \<times> 'b) # m) = k # hm_keys m" for k x m
    by (simp_all add: hm_keys_def)
  show ?thesis
  proof (induction c after cur rule: merge_after.induct)
    case (2 c k v after cur)
    then show ?case by (auto simp: hk)
  qed (simp add: hk)
qed

section \<open>Properties\<close>

text \<open>Property C15 (hydration_binds_vertices). A hydration that succeeds, in whatever order its chunks run, leaves
  exactly the vertices of the document bound in addition to those bound before, and the database has exactly one new
  node for each vertex that was not bound. It does not touch the edge tables: the edges of the document are not restored. Run again
  when every vertex is bound, it changes no binding and creates no node, against the docs of
  \<^verbatim>\<open>hydrate\<close>, which say that it duplicates the vertices.
\<close>

theorem hydration_binds_vertices:
  assumes "node_counting db cnt" and "\<And>cs. set (ord cs) = set cs"
    and "parallel_hydrate_grafeo ord db v doc (s, m) = (Inr (), (s', m'))"
  shows "dom (node_fwd m') = dom (node_fwd m) \<union> set (v_keys v ROOT_VERTICES doc) \<and>
    cnt s' = cnt s + card (set (v_keys v ROOT_VERTICES doc) - dom (node_fwd m)) \<and>
    edge_fwd m' = edge_fwd m \<and> edge_inv m' = edge_inv m \<and>
    (set (v_keys v ROOT_VERTICES doc) \<subseteq> dom (node_fwd m) \<longrightarrow> m' = m \<and> cnt s' = cnt s)"
proof -
  let ?K = "set (v_keys v ROOT_VERTICES doc)"
  have h: "hydrated cnt ?K (s, m) (s', m')"
    using hydrated_chunks [OF assms(1) assms(3) [unfolded parallel_hydrate_grafeo_def]]
    by (simp add: assms(2) chunks_keys)
  then have same: "?K \<subseteq> dom (node_fwd m) \<longrightarrow> m' = m" and c: "cnt s' = cnt s + card (?K - dom (node_fwd m))"
    unfolding hydrated_def by blast+
  have "?K \<subseteq> dom (node_fwd m) \<longrightarrow> cnt s' = cnt s"
  proof
    assume "?K \<subseteq> dom (node_fwd m)"
    then have "?K - dom (node_fwd m) = {}" by blast
    with c show "cnt s' = cnt s" by simp
  qed
  moreover have "dom (node_fwd m') = dom (node_fwd m) \<union> ?K" "edge_fwd m' = edge_fwd m" "edge_inv m' = edge_inv m"
    using h by (simp_all only: hydrated_def prod.case)
  ultimately show ?thesis using same c by (intro conjI impI) (simp_all only:)
qed

text \<open>A document whose vertices are all containers of the same entity, for the witnesses.\<close>

definition entity_doc :: "(table_doc, unit) vertex_api" where
  "entity_doc = \<lparr>v_doc = table_doc_api,
     v_keys = (\<lambda>r d. map (snd \<circ> fst) (filter (\<lambda>((r', k), x). r' = r) d)), v_into_map = (\<lambda>r k d. Some ()),
     v_hydrate_map = (\<lambda>c d. Inr \<lparr>ve_labels = [''P''], ve_properties = [(''a'', LP_Null)], ve_description = []\<rparr>)\<rparr>"

text \<open>The keys that Loro lists for a map are those with an entry.\<close>

definition keys_law :: "('d, 'c) vertex_api \<Rightarrow> bool" where
  "keys_law v \<longleftrightarrow> (\<forall>r d k. k \<in> set (v_keys v r d) \<longleftrightarrow> l_map_get (v_doc v) r k d \<noteq> None)"

lemma entity_doc_keys: "keys_law entity_doc"
proof -
  have "k \<in> set (map (snd \<circ> fst) (filter (\<lambda>((r', k), x). r' = r) d)) \<longleftrightarrow> hm_get d (r, k) \<noteq> None" for r k and d :: table_doc
    by (induction d) (auto split: prod.splits)
  then show ?thesis by (simp only: entity_doc_def keys_law_def table_doc_api_def vertex_api.simps loro_api.simps) simp
qed

theorem hydration_binds_vertices_witness:
  "case parallel_hydrate_grafeo rev counter_db entity_doc [((''V'', ''x''), VOC_Container), ((''V'', ''y''), VOC_Container)]
       ((0, 0), maps_new) of (r, (s', m')) \<Rightarrow>
     r = Inr () \<and> dom (node_fwd m') = {''x'', ''y''} \<and> fst s' = 2 \<and> edge_fwd m' = edge_fwd maps_new \<and>
     (\<exists>s2. parallel_hydrate_grafeo rev counter_db entity_doc [((''V'', ''x''), VOC_Container), ((''V'', ''y''), VOC_Container)]
        (s', m') = (Inr (), (s2, m')) \<and> fst s2 = 2)"
proof -
  let ?d = "[((''V'', ''x''), VOC_Container), ((''V'', ''y''), VOC_Container)]"
  have k: "v_keys entity_doc ROOT_VERTICES ?d = [''x'', ''y'']"
    by (simp add: entity_doc_def ROOT_VERTICES_def)
  have c: "chunks (unat DEFAULT_CHUNK_SIZE) [''x'', ''y''] = [[''x'', ''y'']]"
    by (simp add: chunks_simps DEFAULT_CHUNK_SIZE_def)
  obtain s' m' where r: "parallel_hydrate_grafeo rev counter_db entity_doc ?d ((0, 0), maps_new) = (Inr (), (s', m'))"
    unfolding parallel_hydrate_grafeo_def k c
    by (simp add: hydrate_chunk_def counter_db_def hydrate_vertex_def entity_doc_def
        table_doc_api_def ROOT_VERTICES_def apply_upsert_node_def counter_session_def insert_node_def maps_new_def)
  have d0: "dom (node_fwd maps_new) = {}" by (auto simp: node_fwd_def maps_new_def)
  have nc: "node_counting counter_db fst" by (auto simp: node_counting_def counter_db_def counter_session_def)
  have ord: "set (rev cs) = set cs" for cs :: "string list list" by simp
  have "card {''x'', ''y''} = 2" by simp
  with hydration_binds_vertices [OF nc ord r] d0
  have first: "dom (node_fwd m') = {''x'', ''y''}" "fst s' = 2" "edge_fwd m' = edge_fwd maps_new"
    by (simp_all add: k)
  then have "node_fwd m' ''x'' \<noteq> None" "node_fwd m' ''y'' \<noteq> None" by blast+
  then obtain s2 m2 where r2: "parallel_hydrate_grafeo rev counter_db entity_doc ?d (s', m') = (Inr (), (s2, m2))"
    unfolding parallel_hydrate_grafeo_def k c
    by (cases s') (auto simp: hydrate_chunk_def counter_db_def hydrate_vertex_def entity_doc_def node_fwd_def
        table_doc_api_def ROOT_VERTICES_def apply_upsert_node_def counter_session_def props_iter_def)
  from hydration_binds_vertices [OF nc ord r2] first have "m2 = m'" "fst s2 = 2" by (simp_all add: k)
  with r r2 first show ?thesis by (simp only: prod.case) blast
qed

lemma hydration_needs_readable:
  assumes "\<And>cs. set (ord cs) = set cs" and "key \<in> set (v_keys v ROOT_VERTICES doc)" and "\<not> readable v doc key"
  obtains e t' where "parallel_hydrate_grafeo ord db v doc t = (Inl e, t')"
proof -
  obtain r t' where Pair: "parallel_hydrate_grafeo ord db v doc t = (r, t')"
    by (cases "parallel_hydrate_grafeo ord db v doc t")
  show thesis
  proof (cases r)
    case (Inl e)
    with Pair that show thesis by simp
  next
    case (Inr u)
    with Pair have "list_all (readable v doc) (concat (ord (chunks (unat DEFAULT_CHUNK_SIZE) (v_keys v ROOT_VERTICES doc))))"
      unfolding parallel_hydrate_grafeo_def by (intro hydrate_chunks_read) simp
    with assms(2,3) chunks_keys show thesis unfolding list_all_iff set_concat assms(1) by metis
  qed
qed

text \<open>Property C40 (outbound_write_breaks_hydration). The two directions of the bridge disagree on how a vertex
  is stored. Hydration accepts only a map container, the inbound translator ignores one, and the outbound
  side replaces it: after a grafeo update of a hydrated vertex the entry is a plain value that holds only
  the properties of the event. From then on the vertex cannot be read, and every hydration of the document, serial or
  parallel, on any database and in any order of the chunks, returns an error.
\<close>

theorem outbound_write_breaks_hydration:
  assumes "loro_map_laws (v_doc v)" and "keys_law v" and "\<And>cs. set (ord cs) = set cs"
    and "l_map_get (v_doc v) ROOT_VERTICES key doc = Some VOC_Container"
    and "ce_entity_id ev = Ent_Node nid" and "ce_kind ev = Ch_Update" and "node_inv maps nid = Some key"
    and "apply_change_event_to_loro c (v_doc v) ev (doc, maps) = (Inr (), doc', maps')"
  shows "translate_vertex_entry (key, Some VOC_Container) = [] \<and>
    (\<exists>m. l_map_get (v_doc v) ROOT_VERTICES key doc' = Some (VOC_Value (LV_Map m)) \<and>
       set (hm_keys m) = set (hm_keys (after_or_default ev))) \<and>
    hydrate_vertex v doc' key = Inl (vertex_not_map key) \<and>
    (\<exists>e t'. hydrate_grafeo db v doc' t = (Inl e, t')) \<and>
    (\<exists>e t'. parallel_hydrate_grafeo ord db v doc' t = (Inl e, t'))"
proof -
  let ?m = "merge_after c (after_or_default ev) []"
  have "l_map_insert (v_doc v) ROOT_VERTICES key (LV_Map ?m) doc = (Inr (), doc')"
    using assms(4-8) by (auto simp: apply_change_event_to_loro_def write_entry_def node_inv_def
        current_entry_def split: prod.splits sum.splits)
  with assms(1) have get: "l_map_get (v_doc v) ROOT_VERTICES key doc' = Some (VOC_Value (LV_Map ?m))"
    by (auto simp: loro_map_laws_def)
  then have h: "hydrate_vertex v doc' key = Inl (vertex_not_map key)" by (simp add: hydrate_vertex_def)
  from get assms(2) have "key \<in> set (v_keys v ROOT_VERTICES doc')" by (simp add: keys_law_def)
  moreover from h have "\<not> readable v doc' key" by (simp add: readable_def)
  ultimately have "\<exists>e t'. parallel_hydrate_grafeo ord' db v doc' t = (Inl e, t')" if "\<And>cs. set (ord' cs) = set cs" for ord'
    using that hydration_needs_readable by metis
  from this [OF assms(3)] this [of "\<lambda>cs. cs"]
  have "\<exists>e t'. hydrate_grafeo db v doc' t = (Inl e, t')" "\<exists>e t'. parallel_hydrate_grafeo ord db v doc' t = (Inl e, t')"
    by (simp_all add: hydrate_grafeo_def parallel_hydrate_grafeo_def)
  moreover have "set (hm_keys ?m) = set (hm_keys (after_or_default ev))"
    by (simp add: set_keys_merge_after) (simp add: hm_keys_def)
  ultimately show ?thesis using get h by (simp add: translate_vertex_entry_def)
qed

theorem outbound_write_breaks_hydration_witness:
  "let ev = \<lparr>ce_entity_id = Ent_Node 3, ce_kind = Ch_Update, ce_epoch = 1, ce_after = Some [(''b'', GR_Bool True)],
         ce_src_id = None, ce_dst_id = None, ce_edge_type = None\<rparr>;
       doc = [((''V'', ''v1''), VOC_Container)];
       doc' = fst (snd (apply_change_event_to_loro ucast table_doc_api ev (doc, insert_node ''v1'' 3 maps_new)))
   in (\<exists>op. hydrate_vertex entity_doc doc ''v1'' = Inr op) \<and>
      (\<exists>e t'. hydrate_grafeo counter_db entity_doc doc' ((0, 0), maps_new) = (Inl e, t')) \<and>
      (\<exists>e t'. parallel_hydrate_grafeo rev counter_db entity_doc doc' ((0, 0), maps_new) = (Inl e, t'))"
proof -
  let ?ev = "\<lparr>ce_entity_id = Ent_Node 3, ce_kind = Ch_Update, ce_epoch = 1, ce_after = Some [(''b'', GR_Bool True)],
     ce_src_id = None, ce_dst_id = None, ce_edge_type = None\<rparr>"
  let ?doc = "[((''V'', ''v1''), VOC_Container)]"
  let ?maps = "insert_node ''v1'' 3 maps_new"
  have laws: "loro_map_laws (v_doc entity_doc)" by (simp add: entity_doc_def table_doc_laws)
  have keys: "keys_law entity_doc" by (rule entity_doc_keys)
  have ord: "set (rev cs) = set cs" for cs :: "string list list" by simp
  have get: "l_map_get (v_doc entity_doc) ROOT_VERTICES ''v1'' ?doc = Some VOC_Container"
    by (simp add: entity_doc_def table_doc_api_def ROOT_VERTICES_def)
  have inv: "node_inv ?maps 3 = Some ''v1''" by (simp add: nodes.inv_bind)
  obtain doc' maps' where r: "apply_change_event_to_loro ucast (v_doc entity_doc) ?ev (?doc, ?maps) = (Inr (), doc', maps')"
    using inv by (simp add: apply_change_event_to_loro_def node_inv_def write_entry_def table_doc_api_def entity_doc_def)
  have e: "v_doc entity_doc = table_doc_api" by (simp add: entity_doc_def)
  have "\<exists>op. hydrate_vertex entity_doc ?doc ''v1'' = Inr op"
    using get by (simp add: hydrate_vertex_def) (simp add: entity_doc_def)
  moreover have
    "\<exists>e t'. hydrate_grafeo counter_db entity_doc doc' ((0, 0), maps_new) = (Inl e, t')"
    "\<exists>e t'. parallel_hydrate_grafeo rev counter_db entity_doc doc' ((0, 0), maps_new) = (Inl e, t')"
    using outbound_write_breaks_hydration [OF laws keys ord get _ _ inv r, where db = counter_db and t = "((0, 0), maps_new)"]
    by simp_all
  ultimately show ?thesis unfolding Let_def r [unfolded e] fst_conv snd_conv by blast
qed

end
