(* ===== verification/Compression.thy ===== *)
theory Compression
  imports Errors
begin

text \<open>
  The compression envelope of \<^verbatim>\<open>src/compression/wrapper.rs\<close>: codec dispatch, the wire format
  \<^verbatim>\<open>[version][codec tag][data]\<close> and the extension of \<^verbatim>\<open>LoroDoc\<close>. The codecs themselves (lz4, brotli,
  deflate) and the Loro export and import are not part of the sources: they are the fields of
  \<open>codec_api\<close> and \<open>doc_io_api\<close>. A failing call of either carries the displayed text of its error.
\<close>

section \<open>Codecs\<close>

text \<open>\<open>'w\<close> and \<open>'x\<close> are the states of a brotli writer and a deflate encoder.\<close>

record ('w, 'x) codec_api =
  lz4_compress_prepend_size :: "bytes \<Rightarrow> bytes"
  lz4_decompress_size_prepended :: "bytes \<Rightarrow> string + bytes"
  brotli_writer :: "nat \<Rightarrow> u32 \<Rightarrow> nat \<Rightarrow> 'w"
  brotli_write_all :: "bytes \<Rightarrow> 'w \<Rightarrow> string + 'w"
  brotli_flush :: "'w \<Rightarrow> string + 'w"
  brotli_into_inner :: "'w \<Rightarrow> bytes"
  brotli_read_to_end :: "bytes \<Rightarrow> nat \<Rightarrow> string + bytes"
  deflate_encoder :: "u32 \<Rightarrow> 'x"
  deflate_write_all :: "bytes \<Rightarrow> 'x \<Rightarrow> string + 'x"
  deflate_finish :: "'x \<Rightarrow> string + bytes"
  deflate_read_to_end :: "bytes \<Rightarrow> string + bytes"

definition compression_error :: "string \<Rightarrow> string \<Rightarrow> grafeo_loro_error" where
  "compression_error template e = Compression (Msg template [A_Str e])"

definition brotli_compress :: "('w, 'x) codec_api \<Rightarrow> bytes \<Rightarrow> u32 \<Rightarrow> bytes result" where
  "brotli_compress cd input quality =
     (case brotli_write_all cd input (brotli_writer cd 4096 quality 22) of
        Inl e \<Rightarrow> Inl (compression_error ''brotli compress: {e}'' e)
      | Inr w \<Rightarrow> (case brotli_flush cd w of
          Inl e \<Rightarrow> Inl (compression_error ''brotli flush: {e}'' e)
        | Inr w \<Rightarrow> Inr (brotli_into_inner cd w)))"

definition brotli_decompress :: "('w, 'x) codec_api \<Rightarrow> bytes \<Rightarrow> bytes result" where
  "brotli_decompress cd input = (case brotli_read_to_end cd input 4096 of
     Inl e \<Rightarrow> Inl (compression_error ''brotli decompress: {e}'' e)
   | Inr out \<Rightarrow> Inr out)"

definition deflate_compress :: "('w, 'x) codec_api \<Rightarrow> bytes \<Rightarrow> u32 \<Rightarrow> bytes result" where
  "deflate_compress cd input level =
     (let level = min level 9 in
      case deflate_write_all cd input (deflate_encoder cd level) of
        Inl e \<Rightarrow> Inl (compression_error ''deflate compress: {e}'' e)
      | Inr x \<Rightarrow> (case deflate_finish cd x of
          Inl e \<Rightarrow> Inl (compression_error ''deflate finish: {e}'' e)
        | Inr out \<Rightarrow> Inr out))"

definition deflate_decompress :: "('w, 'x) codec_api \<Rightarrow> bytes \<Rightarrow> bytes result" where
  "deflate_decompress cd input = (case deflate_read_to_end cd input of
     Inl e \<Rightarrow> Inl (compression_error ''deflate decompress: {e}'' e)
   | Inr out \<Rightarrow> Inr out)"

section \<open>The envelope\<close>

record compressed_payload =
  cp_compression :: compression_type
  cp_raw_data :: bytes

definition payload_compress ::
  "('w, 'x) codec_api \<Rightarrow> bytes \<Rightarrow> compression_type \<Rightarrow> compressed_payload result" where
  "payload_compress cd raw_bytes strategy =
     (case (case strategy of
              CT_None \<Rightarrow> Inr raw_bytes
            | CT_Lz4 \<Rightarrow> Inr (lz4_compress_prepend_size cd raw_bytes)
            | CT_Zstd \<Rightarrow> brotli_compress cd raw_bytes DEFAULT_BROTLI_QUALITY) of
        Inl e \<Rightarrow> Inl e
      | Inr raw_data \<Rightarrow> Inr \<lparr>cp_compression = strategy, cp_raw_data = raw_data\<rparr>)"

definition payload_decompress :: "('w, 'x) codec_api \<Rightarrow> compressed_payload \<Rightarrow> bytes result" where
  "payload_decompress cd p = (case cp_compression p of
     CT_None \<Rightarrow> Inr (cp_raw_data p)
   | CT_Lz4 \<Rightarrow> (case lz4_decompress_size_prepended cd (cp_raw_data p) of
       Inl e \<Rightarrow> Inl (compression_error ''{e}'' e)
     | Inr out \<Rightarrow> Inr out)
   | CT_Zstd \<Rightarrow> brotli_decompress cd (cp_raw_data p))"

definition WIRE_FORMAT_VERSION :: u8 where
  "WIRE_FORMAT_VERSION = 1"

fun compression_type_to_tag :: "compression_type \<Rightarrow> u8" where
  "compression_type_to_tag CT_None = 0x00"
| "compression_type_to_tag CT_Lz4 = 0x01"
| "compression_type_to_tag CT_Zstd = 0x02"

definition unknown_tag :: "u8 \<Rightarrow> grafeo_loro_error" where
  "unknown_tag tag = Compression (Msg
     ''wire format: unknown codec tag {tag:#04x} (expected 0x00=None, 0x01=Lz4, 0x02=Zstd/Brotli)'' [A_Num (unat tag)])"

definition tag_to_compression_type :: "u8 \<Rightarrow> compression_type result" where
  "tag_to_compression_type tag =
     (if tag = 0x00 then Inr CT_None
      else if tag = 0x01 then Inr CT_Lz4
      else if tag = 0x02 then Inr CT_Zstd
      else Inl (unknown_tag tag))"

definition to_wire :: "compressed_payload \<Rightarrow> bytes" where
  "to_wire p = [WIRE_FORMAT_VERSION, compression_type_to_tag (cp_compression p)] @ cp_raw_data p"

definition too_few_bytes :: "nat \<Rightarrow> grafeo_loro_error" where
  "too_few_bytes n = Compression (Msg ''wire format: too few bytes (got {}; expected 2 for version+codec tag)'' [A_Num n])"

definition unknown_version :: "u8 \<Rightarrow> grafeo_loro_error" where
  "unknown_version v = Compression (Msg ''wire format: unknown version {version} (expected {WIRE_FORMAT_VERSION})''
     [A_Num (unat v), A_Num (unat WIRE_FORMAT_VERSION)])"

definition from_wire :: "bytes \<Rightarrow> compressed_payload result" where
  "from_wire bytes =
     (if length bytes < 2 then Inl (too_few_bytes (length bytes))
      else let version = bytes ! 0 in
        if version \<noteq> WIRE_FORMAT_VERSION then Inl (unknown_version version)
        else case tag_to_compression_type (bytes ! 1) of
          Inl e \<Rightarrow> Inl e
        | Inr compression \<Rightarrow> Inr \<lparr>cp_compression = compression, cp_raw_data = drop 2 bytes\<rparr>)"

definition compress_to_wire :: "('w, 'x) codec_api \<Rightarrow> bytes \<Rightarrow> compression_type \<Rightarrow> bytes result" where
  "compress_to_wire cd raw_bytes strategy = (case payload_compress cd raw_bytes strategy of
     Inl e \<Rightarrow> Inl e
   | Inr payload \<Rightarrow> Inr (to_wire payload))"

definition decompress_from_wire :: "('w, 'x) codec_api \<Rightarrow> bytes \<Rightarrow> bytes result" where
  "decompress_from_wire cd bytes = (case from_wire bytes of
     Inl e \<Rightarrow> Inl e
   | Inr payload \<Rightarrow> payload_decompress cd payload)"

section \<open>Export and import of a document\<close>

text \<open>\<open>'m\<close> is the export mode. \<^verbatim>\<open>import\<close> and \<^verbatim>\<open>import_with\<close> report whether dependencies are missing
  (\<^verbatim>\<open>ImportStatus.pending\<close>).\<close>

record ('d, 'm, 'f) doc_io_api =
  io_oplog_frontiers :: "'d \<Rightarrow> 'f"
  io_shallow_snapshot :: "'f \<Rightarrow> 'm"
  io_export :: "'m \<Rightarrow> 'd \<Rightarrow> string + bytes"
  io_import :: "bytes \<Rightarrow> 'd \<Rightarrow> (string + bool) \<times> 'd"
  io_import_with :: "bytes \<Rightarrow> string \<Rightarrow> 'd \<Rightarrow> (string + bool) \<times> 'd"

definition export_compressed ::
  "('w, 'x) codec_api \<Rightarrow> ('d, 'm, 'f) doc_io_api \<Rightarrow> 'm \<Rightarrow> compression_type \<Rightarrow> 'd \<Rightarrow> compressed_payload result" where
  "export_compressed cd io mode strategy doc = (case io_export io mode doc of
     Inl e \<Rightarrow> Inl (Loro e)
   | Inr bytes \<Rightarrow> payload_compress cd bytes strategy)"

definition import_compressed ::
  "('w, 'x) codec_api \<Rightarrow> ('d, 'm, 'f) doc_io_api \<Rightarrow> compressed_payload \<Rightarrow> 'd \<Rightarrow> bool result \<times> 'd" where
  "import_compressed cd io payload doc = (case payload_decompress cd payload of
     Inl e \<Rightarrow> (Inl e, doc)
   | Inr bytes \<Rightarrow> (case io_import io bytes doc of
       (Inl e, doc) \<Rightarrow> (Inl (Loro e), doc)
     | (Inr status, doc) \<Rightarrow> (Inr status, doc)))"

section \<open>What the envelope relies on\<close>

text \<open>Every codec inverts itself; a brotli writer that accepted and flushed its input holds a stream that
  reads back as that input, whatever the quality.\<close>

definition codec_laws :: "('w, 'x) codec_api \<Rightarrow> bool" where
  "codec_laws cd \<longleftrightarrow>
     (\<forall>b. lz4_decompress_size_prepended cd (lz4_compress_prepend_size cd b) = Inr b) \<and>
     (\<forall>b q w w'. brotli_write_all cd b (brotli_writer cd 4096 q 22) = Inr w \<longrightarrow> brotli_flush cd w = Inr w' \<longrightarrow>
        brotli_read_to_end cd (brotli_into_inner cd w') 4096 = Inr b) \<and>
     (\<forall>b l x out. deflate_write_all cd b (deflate_encoder cd l) = Inr x \<longrightarrow> deflate_finish cd x = Inr out \<longrightarrow>
        deflate_read_to_end cd out = Inr b)"

lemma brotli_round_trip:
  "codec_laws cd \<Longrightarrow> brotli_compress cd b q = Inr out \<Longrightarrow> brotli_decompress cd out = Inr b"
  by (auto simp: codec_laws_def brotli_compress_def brotli_decompress_def split: sum.splits)

lemma deflate_round_trip:
  "codec_laws cd \<Longrightarrow> deflate_compress cd b l = Inr out \<Longrightarrow> deflate_decompress cd out = Inr b"
  by (auto simp: codec_laws_def deflate_compress_def deflate_decompress_def Let_def split: sum.splits)

lemma payload_round_trip:
  assumes "codec_laws cd" and "payload_compress cd b s = Inr p"
  shows "payload_decompress cd p = Inr b"
proof (cases s)
  case CT_Lz4
  with assms show ?thesis
    by (auto simp: payload_compress_def payload_decompress_def codec_laws_def)
qed (use assms in \<open>auto simp: payload_compress_def payload_decompress_def dest: brotli_round_trip split: sum.splits\<close>)

lemma tag_round_trip: "tag_to_compression_type tag = Inr c \<longleftrightarrow> tag = compression_type_to_tag c"
  by (cases c) (auto simp: tag_to_compression_type_def)

lemma from_to_wire: "from_wire (to_wire p) = Inr p"
  using tag_round_trip [of "compression_type_to_tag (cp_compression p)" "cp_compression p"]
  by (simp add: from_wire_def to_wire_def Let_def)

lemma to_from_wire:
  assumes "from_wire b = Inr p"
  shows "to_wire p = b"
proof -
  from assms have l: "\<not> length b < 2" by (auto simp: from_wire_def)
  then obtain v t rest where b: "b = v # t # rest"
    by (metis One_nat_def Suc_1 length_Cons less_2_cases_iff list.exhaust list.size(3))
  with assms show ?thesis
    by (auto simp: from_wire_def to_wire_def Let_def tag_round_trip split: if_splits sum.splits)
qed

section \<open>Properties\<close>

text \<open>Property C26 (wire_format_round_trip). The wire format is exact: reading back what was written gives
  the payload, and only what is the encoding of a payload is accepted; anything else is refused with a
  \<^verbatim>\<open>Compression\<close> error. With codecs that invert themselves, decompressing what was compressed gives the
  bytes back under every strategy.
\<close>

theorem wire_format_round_trip:
  fixes cd :: "('w, 'x) codec_api"
  assumes "codec_laws cd"
  shows "(from_wire b = Inr p) = (b = to_wire p) \<and>
    (\<forall>e. from_wire b = Inl e \<longrightarrow> (\<exists>m. e = Compression m)) \<and>
    (\<forall>raw s wire. compress_to_wire cd raw s = Inr wire \<longrightarrow> decompress_from_wire cd wire = Inr raw)"
proof (intro conjI allI impI)
  show "(from_wire b = Inr p) = (b = to_wire p)"
    using from_to_wire to_from_wire by blast
  show "\<exists>m. e = Compression m" if "from_wire b = Inl e" for e
    using that by (auto simp: from_wire_def too_few_bytes_def unknown_version_def unknown_tag_def
        tag_to_compression_type_def Let_def split: if_splits sum.splits)
  show "decompress_from_wire cd wire = Inr raw" if "compress_to_wire cd raw s = Inr wire" for raw s wire
    using that payload_round_trip [OF assms]
    by (auto simp: compress_to_wire_def decompress_from_wire_def from_to_wire split: sum.splits)
qed

text \<open>Codecs for the witnesses: lz4 prepends a length byte, brotli refuses the empty input and reverses, and
  deflate copies.\<close>

definition toy_codecs :: "(bytes, bytes) codec_api" where
  "toy_codecs = \<lparr>lz4_compress_prepend_size = (\<lambda>b. of_nat (length b) # b),
     lz4_decompress_size_prepended = (\<lambda>b. case b of [] \<Rightarrow> Inl ''short'' | _ # r \<Rightarrow> Inr r),
     brotli_writer = (\<lambda>n q w. []), brotli_write_all = (\<lambda>b w. if b = [] then Inl ''empty'' else Inr (w @ b)),
     brotli_flush = Inr, brotli_into_inner = rev, brotli_read_to_end = (\<lambda>b n. Inr (rev b)),
     deflate_encoder = (\<lambda>l. []), deflate_write_all = (\<lambda>b x. Inr (x @ b)), deflate_finish = Inr,
     deflate_read_to_end = Inr\<rparr>"

lemma toy_codec_laws: "codec_laws toy_codecs"
  by (auto simp: codec_laws_def toy_codecs_def split: if_splits)

theorem wire_format_round_trip_witness:
  "compress_to_wire toy_codecs [7, 8] CT_Zstd = Inr [1, 2, 8, 7] \<and>
   decompress_from_wire toy_codecs [1, 2, 8, 7] = Inr [7, 8] \<and>
   from_wire [1, 0, 9] = Inr \<lparr>cp_compression = CT_None, cp_raw_data = [9]\<rparr> \<and> from_wire [2, 0] = Inl (unknown_version 2)"
proof -
  have c: "compress_to_wire toy_codecs [7, 8] CT_Zstd = Inr [1, 2, 8, 7]"
    by (simp add: compress_to_wire_def payload_compress_def brotli_compress_def toy_codecs_def to_wire_def
        WIRE_FORMAT_VERSION_def)
  from c wire_format_round_trip [OF toy_codec_laws, of "[1, 0, 9]" "\<lparr>cp_compression = CT_None, cp_raw_data = [9]\<rparr>"]
  show ?thesis
    by (simp add: to_wire_def WIRE_FORMAT_VERSION_def from_wire_def)
qed

end
