(* ===== verification/Storage.thy ===== *)
theory Storage
  imports Compression "HOL-Library.List_Lexorder" "HOL-Library.Char_ord" "HOL-Library.Sublist"
begin

text \<open>
  The storage trait, its in-memory backend and the snapshot streamer (\<^verbatim>\<open>src/storage/\<close>). The trait is a
  record of functions over a backend state; what its clients rely on is the locale \<open>storage_backend\<close>,
  which the in-memory backend interprets.
\<close>

section \<open>The trait\<close>

record 'st storage_api =
  st_load :: "string \<Rightarrow> 'st \<Rightarrow> (io_error + bytes) \<times> 'st"
  st_save :: "string \<Rightarrow> bytes \<Rightarrow> 'st \<Rightarrow> (io_error + unit) \<times> 'st"
  st_list :: "string \<Rightarrow> 'st \<Rightarrow> (io_error + string list) \<times> 'st"
  st_delete :: "string \<Rightarrow> 'st \<Rightarrow> (io_error + unit) \<times> 'st"

record snapshot_diff =
  sd_added_ops :: u64
  sd_removed_ops :: u64
  sd_state_vector_delta :: bytes

definition snapshot_diff_empty :: snapshot_diff where
  "snapshot_diff_empty = \<lparr>sd_added_ops = 0, sd_removed_ops = 0, sd_state_vector_delta = []\<rparr>"

definition snapshot_diff_is_empty :: "snapshot_diff \<Rightarrow> bool" where
  "snapshot_diff_is_empty d \<longleftrightarrow> sd_added_ops d = 0 \<and> sd_removed_ops d = 0"

section \<open>The streamer\<close>

definition DEFAULT_SNAPSHOT_CHUNK_SIZE :: nat where
  "DEFAULT_SNAPSHOT_CHUNK_SIZE = 64 * 1024"

record snapshot_streamer =
  ss_chunk_size :: nat

definition streamer_new :: "nat \<Rightarrow> snapshot_streamer" where
  "streamer_new chunk_size = \<lparr>ss_chunk_size = max chunk_size 1\<rparr>"

definition streamer_default :: snapshot_streamer where
  "streamer_default = streamer_new DEFAULT_SNAPSHOT_CHUNK_SIZE"

text \<open>The loop over the chunks with a sink that has a state; the first failing call ends it.\<close>

fun stream_chunks ::
  "(bytes \<Rightarrow> 'k \<Rightarrow> unit result \<times> 'k) \<Rightarrow> bytes list \<Rightarrow> nat \<Rightarrow> 'k \<Rightarrow> nat result \<times> 'k" where
  "stream_chunks sink [] n k = (Inr n, k)"
| "stream_chunks sink (c # cs) n k = (case sink c k of
     (Inl e, k) \<Rightarrow> (Inl e, k)
   | (Inr _, k) \<Rightarrow> stream_chunks sink cs (n + 1) k)"

definition stream ::
  "snapshot_streamer \<Rightarrow> bytes \<Rightarrow> (bytes \<Rightarrow> 'k \<Rightarrow> unit result \<times> 'k) \<Rightarrow> 'k \<Rightarrow> nat result \<times> 'k" where
  "stream ss data sink k =
     (if data = [] then (Inr 0, k) else stream_chunks sink (chunks (ss_chunk_size ss) data) 0 k)"

section \<open>The in-memory backend\<close>

definition SNAPSHOT_KEY :: string where
  "SNAPSHOT_KEY = ''snapshot''"

definition OP_BYTES_HEURISTIC :: u64 where
  "OP_BYTES_HEURISTIC = 8"

type_synonym in_memory_storage = "(string, bytes) hmap"

definition mem_new :: in_memory_storage where
  "mem_new = []"

definition mem_load :: "string \<Rightarrow> in_memory_storage \<Rightarrow> (io_error + bytes) \<times> in_memory_storage" where
  "mem_load key inner = (case hm_get inner key of
     Some b \<Rightarrow> (Inr b, inner)
   | None \<Rightarrow> (Inl (Io_Error NotFound (Msg ''key not found: {key}'' [A_Str key])), inner))"

definition mem_save :: "string \<Rightarrow> bytes \<Rightarrow> in_memory_storage \<Rightarrow> (io_error + unit) \<times> in_memory_storage" where
  "mem_save key bytes inner = (Inr (), hm_insert key bytes inner)"

definition mem_list :: "string \<Rightarrow> in_memory_storage \<Rightarrow> (io_error + string list) \<times> in_memory_storage" where
  "mem_list pfx inner = (Inr (sort (filter (prefix pfx) (hm_keys inner))), inner)"

definition mem_delete :: "string \<Rightarrow> in_memory_storage \<Rightarrow> (io_error + unit) \<times> in_memory_storage" where
  "mem_delete key inner = (Inr (), hm_remove key inner)"

definition in_memory :: "in_memory_storage storage_api" where
  "in_memory = \<lparr>st_load = mem_load, st_save = mem_save, st_list = mem_list, st_delete = mem_delete\<rparr>"

definition export_incremental_snapshot :: "bytes \<Rightarrow> in_memory_storage \<Rightarrow> bytes result" where
  "export_incremental_snapshot since_state_vector inner = (case hm_get inner SNAPSHOT_KEY of
     None \<Rightarrow> Inr []
   | Some current \<Rightarrow> if since_state_vector = current then Inr [] else Inr current)"

fun call_each :: "(bytes \<Rightarrow> 'k \<Rightarrow> unit result \<times> 'k) \<Rightarrow> bytes list \<Rightarrow> 'k \<Rightarrow> unit result \<times> 'k" where
  "call_each cb [] k = (Inr (), k)"
| "call_each cb (c # cs) k = (case cb c k of
     (Inl e, k) \<Rightarrow> (Inl e, k)
   | (Inr _, k) \<Rightarrow> call_each cb cs k)"

definition stream_snapshot_to_opfs ::
  "(bytes \<Rightarrow> 'k \<Rightarrow> unit result \<times> 'k) \<Rightarrow> in_memory_storage \<Rightarrow> 'k \<Rightarrow> unit result \<times> 'k" where
  "stream_snapshot_to_opfs chunk_callback inner k =
     (let bytes = (case hm_get inner SNAPSHOT_KEY of Some b \<Rightarrow> b | None \<Rightarrow> [])
      in call_each chunk_callback (chunks (ss_chunk_size streamer_default) bytes) k)"

text \<open>\<^verbatim>\<open>to_le_bytes\<close> of a 64-bit value.\<close>

definition to_le_bytes :: "64 word \<Rightarrow> bytes" where
  "to_le_bytes w = le_bytes 8 w"

definition diff_snapshots :: "bytes \<Rightarrow> bytes \<Rightarrow> snapshot_diff result" where
  "diff_snapshots base head =
     (if base = head then Inr snapshot_diff_empty
      else let base_ops = of_nat (length base) div OP_BYTES_HEURISTIC;
               head_ops = of_nat (length head) div OP_BYTES_HEURISTIC
           in Inr \<lparr>sd_added_ops = saturating_sub head_ops base_ops,
                   sd_removed_ops = saturating_sub base_ops head_ops,
                   sd_state_vector_delta = to_le_bytes (head_ops - base_ops)\<rparr>)"

section \<open>The contract\<close>

text \<open>What a backend promises when it does not fail: reads return what was written, listing enumerates the
  stored keys with a prefix, and nothing else changes.\<close>

locale storage_backend =
  fixes api :: "'st storage_api"
    and content :: "'st \<Rightarrow> string \<Rightarrow> bytes option"
    and inv :: "'st \<Rightarrow> bool"
  assumes load_found: "inv st \<Longrightarrow> content st k = Some b \<Longrightarrow> st_load api k st = (Inr b, st)"
    and load_missing: "inv st \<Longrightarrow> content st k = None \<Longrightarrow> \<exists>m. st_load api k st = (Inl (Io_Error NotFound m), st)"
    and save_ok: "inv st \<Longrightarrow> \<exists>st'. st_save api k b st = (Inr (), st') \<and> inv st' \<and> content st' = (content st)(k \<mapsto> b)"
    and list_ok: "inv st \<Longrightarrow> \<exists>ks. st_list api p st = (Inr ks, st) \<and> set ks = {k. prefix p k \<and> content st k \<noteq> None}"
    and delete_ok: "inv st \<Longrightarrow> \<exists>st'. st_delete api k st = (Inr (), st') \<and> inv st' \<and> content st' = (content st)(k := None)"
begin

lemma load_after_save:
  assumes "inv st"
  shows "\<exists>st'. st_save api k b st = (Inr (), st') \<and> st_load api k st' = (Inr b, st') \<and>
    (\<forall>k'. k' \<noteq> k \<longrightarrow> content st' k' = content st k')"
proof -
  obtain st' where s: "st_save api k b st = (Inr (), st')" "inv st'" "content st' = (content st)(k \<mapsto> b)"
    using save_ok [OF assms] by blast
  then show ?thesis using load_found [OF s(2)] by simp
qed

end

interpretation mem: storage_backend in_memory hm_get hm_ok
proof
  fix st :: in_memory_storage and p :: string
  show "\<exists>ks. st_list in_memory p st = (Inr ks, st) \<and> set ks = {k. prefix p k \<and> hm_get st k \<noteq> None}"
    by (auto simp: in_memory_def mem_list_def hm_get_None_iff)
qed (auto simp: in_memory_def mem_load_def mem_save_def mem_delete_def fun_eq_iff)

section \<open>Streaming\<close>

text \<open>A sink that records what it is given receives the data, cut into the chunks.\<close>

lemma stream_chunks_count:
  "(\<And>c k. fst (sink c k) = Inr ()) \<Longrightarrow>
     stream_chunks sink cs n k = (Inr (n + length cs), fold (\<lambda>c k. snd (sink c k)) cs k)"
proof (induction cs arbitrary: n k)
  case (Cons c cs)
  have "sink c k = (Inr (), snd (sink c k))" using Cons.prems [of c k] by (metis prod.collapse)
  then have "stream_chunks sink (c # cs) n k = stream_chunks sink cs (n + 1) (snd (sink c k))"
    by (subst stream_chunks.simps) (metis (no_types, lifting) case_prod_conv sum.case(2))
  with Cons.IH [OF Cons.prems] show ?case by simp
qed simp

end
