(* ===== verification/App.thy ===== *)
theory App
  imports Sync_Engine Hydration Storage
begin

text \<open>
  The application facade (\<^verbatim>\<open>src/app.rs\<close>): the builder with its validation, checkpoints of the Loro
  document into the storage backend and hydration from it. The state of an application is its engine and
  the storage; what it calls outside the sources is collected in \<open>app_env\<close>. Importing into the document
  calls the subscriber with the bridge's own origin, which it filters; its counters are not advanced here.
\<close>

section \<open>The application\<close>

record ('s, 'd, 'c, 'm, 'f, 'w, 'x) app_env =
  en_codecs :: "('w, 'x) codec_api"
  en_io :: "('d, 'm, 'f) doc_io_api"
  en_db :: "'s db_api"
  en_vertex :: "('d, 'c) vertex_api"
  en_chunk_order :: "string list list \<Rightarrow> string list list"

record 'st app =
  ap_ssot_mode :: ssot_mode
  ap_storage :: "'st storage_api option"
  ap_compression :: compression_type

definition app_with_config :: "ssot_mode \<Rightarrow> 'st storage_api option \<Rightarrow> compression_type \<Rightarrow> 'st app" where
  "app_with_config ssot_mode storage compression =
     \<lparr>ap_ssot_mode = ssot_mode, ap_storage = storage, ap_compression = compression\<rparr>"

definition app_from_sync_engine :: "'st app" where
  "app_from_sync_engine = app_with_config SsotLoro None CT_Zstd"

type_synonym ('s, 'd, 'st) app_state = "('s, 'd) sync_engine \<times> 'st"

definition storage_not_set :: grafeo_loro_error where
  "storage_not_set = Config (Msg ''storage backend not set'' [])"

definition base_key :: "string \<Rightarrow> string" where
  "base_key graph_id = graph_id @ ''/'' @ STORAGE_KEY_BASE_LORO"

definition delta_prefix :: "string \<Rightarrow> string" where
  "delta_prefix graph_id = graph_id @ ''/'' @ STORAGE_KEY_DELTA_PREFIX"

section \<open>Checkpoint\<close>

text \<open>A failed delete is logged and passed over.\<close>

fun delete_deltas :: "'st storage_api \<Rightarrow> string list \<Rightarrow> 'st \<Rightarrow> 'st" where
  "delete_deltas sa [] st = st"
| "delete_deltas sa (k # ks) st = delete_deltas sa ks (snd (st_delete sa k st))"

definition checkpoint_loro ::
  "('s, 'd, 'c, 'm, 'f, 'w, 'x) app_env \<Rightarrow> compression_type \<Rightarrow> 'st storage_api \<Rightarrow> string \<Rightarrow> 'd \<Rightarrow> 'st \<Rightarrow>
     unit result \<times> 'st" where
  "checkpoint_loro env codec sa graph_id doc st =
     (let frontiers = io_oplog_frontiers (en_io env) doc in
      case io_export (en_io env) (io_shallow_snapshot (en_io env) frontiers) doc of
        Inl e \<Rightarrow> (Inl (Loro e), st)
      | Inr snapshot_bytes \<Rightarrow>
     (case compress_to_wire (en_codecs env) snapshot_bytes codec of
        Inl e \<Rightarrow> (Inl e, st)
      | Inr wire_bytes \<Rightarrow>
     (case st_save sa (base_key graph_id) wire_bytes st of
        (Inl e, st) \<Rightarrow> (Inl (StorageIo e), st)
      | (Inr _, st) \<Rightarrow>
     (case st_list sa (delta_prefix graph_id) st of
        (Inl e, st) \<Rightarrow> (Inl (StorageIo e), st)
      | (Inr delta_keys, st) \<Rightarrow> (Inr (), delete_deltas sa delta_keys st)))))"

definition checkpoint_grafeo_error :: grafeo_loro_error where
  "checkpoint_grafeo_error = NotYetImplemented (Msg
     ''SsotMode::Grafeo checkpoint: requires wal feature + ArcSwap grafeo_db field'' [])"

definition checkpoint ::
  "('s, 'd, 'c, 'm, 'f, 'w, 'x) app_env \<Rightarrow> 'st app \<Rightarrow> string \<Rightarrow> ('s, 'd, 'st) app_state \<Rightarrow>
     unit result \<times> ('s, 'd, 'st) app_state" where
  "checkpoint env a graph_id = (\<lambda>(e, st).
     case ap_storage a of
       None \<Rightarrow> (Inl storage_not_set, (e, st))
     | Some sa \<Rightarrow> (case ap_ssot_mode a of
         SsotLoro \<Rightarrow> (case checkpoint_loro env (ap_compression a) sa graph_id (se_doc e) st of
             (r, st) \<Rightarrow> (r, (e, st)))
       | SsotGrafeo \<Rightarrow> (Inl checkpoint_grafeo_error, (e, st))))"

section \<open>Hydrate\<close>

definition import_wire ::
  "('s, 'd, 'c, 'm, 'f, 'w, 'x) app_env \<Rightarrow> bytes \<Rightarrow> 'd \<Rightarrow> unit result \<times> 'd" where
  "import_wire env bytes doc = (case decompress_from_wire (en_codecs env) bytes of
     Inl e \<Rightarrow> (Inl e, doc)
   | Inr loro_bytes \<Rightarrow> (case io_import_with (en_io env) loro_bytes ORIGIN_LORO_BRIDGE doc of
       (Inl e, doc) \<Rightarrow> (Inl (Loro e), doc)
     | (Inr pending, doc) \<Rightarrow> (Inr (), doc)))"

text \<open>The loop over the deltas; one that cannot be loaded is skipped.\<close>

fun import_deltas ::
  "('s, 'd, 'c, 'm, 'f, 'w, 'x) app_env \<Rightarrow> 'st storage_api \<Rightarrow> string list \<Rightarrow> 'd \<Rightarrow> 'st \<Rightarrow> unit result \<times> 'd \<times> 'st" where
  "import_deltas env sa [] doc st = (Inr (), doc, st)"
| "import_deltas env sa (k # ks) doc st = (case st_load sa k st of
     (Inl e, st) \<Rightarrow> import_deltas env sa ks doc st
   | (Inr delta_bytes, st) \<Rightarrow> (case import_wire env delta_bytes doc of
       (Inl e, doc) \<Rightarrow> (Inl e, doc, st)
     | (Inr _, doc) \<Rightarrow> import_deltas env sa ks doc st))"

text \<open>Loading the base snapshot: \<^verbatim>\<open>NotFound\<close> means a fresh graph, whose bytes are empty.\<close>

definition load_base :: "'st storage_api \<Rightarrow> string \<Rightarrow> 'st \<Rightarrow> bytes result \<times> 'st" where
  "load_base sa graph_id st = (case st_load sa (base_key graph_id) st of
     (Inr b, st) \<Rightarrow> (Inr b, st)
   | (Inl e, st) \<Rightarrow> (if io_kind e = NotFound then (Inr [], st) else (Inl (StorageIo e), st)))"

definition import_base ::
  "('s, 'd, 'c, 'm, 'f, 'w, 'x) app_env \<Rightarrow> 'st storage_api \<Rightarrow> string \<Rightarrow> bytes \<Rightarrow> 'd \<Rightarrow> 'st \<Rightarrow> unit result \<times> 'd \<times> 'st"
  where
  "import_base env sa graph_id base_bytes doc st =
     (if base_bytes = [] then (Inr (), doc, st)
      else case import_wire env base_bytes doc of
        (Inl e, doc) \<Rightarrow> (Inl e, doc, st)
      | (Inr _, doc) \<Rightarrow> (case st_list sa (delta_prefix graph_id) st of
          (Inl e, st) \<Rightarrow> (Inl (StorageIo e), doc, st)
        | (Inr delta_keys, st) \<Rightarrow> import_deltas env sa (sort delta_keys) doc st))"

definition set_tx :: "'s \<times> bridge_maps \<Rightarrow> ('s, 'd) sync_engine \<Rightarrow> ('s, 'd) sync_engine" where
  "set_tx t e = e\<lparr>se_batcher := (se_batcher e)\<lparr>bt_db := fst t, bt_maps := snd t\<rparr>\<rparr>"

definition get_tx :: "('s, 'd) sync_engine \<Rightarrow> 's \<times> bridge_maps" where
  "get_tx e = (bt_db (se_batcher e), bt_maps (se_batcher e))"

definition hydrate_grafeo_error :: grafeo_loro_error where
  "hydrate_grafeo_error = NotYetImplemented (Msg
     ''SsotMode::Grafeo hydrate: requires wal feature + ArcSwap grafeo_db field'' [])"

definition hydrate ::
  "('s, 'd, 'c, 'm, 'f, 'w, 'x) app_env \<Rightarrow> 'st app \<Rightarrow> string \<Rightarrow> ('s, 'd, 'st) app_state \<Rightarrow>
     unit result \<times> ('s, 'd, 'st) app_state" where
  "hydrate env a graph_id = (\<lambda>(e, st).
     case ap_storage a of
       None \<Rightarrow> (Inl storage_not_set, (e, st))
     | Some sa \<Rightarrow> (case ap_ssot_mode a of
         SsotLoro \<Rightarrow> (case load_base sa graph_id st of
             (Inl err, st) \<Rightarrow> (Inl err, (e, st))
           | (Inr base_bytes, st) \<Rightarrow> (case import_base env sa graph_id base_bytes (se_doc e) st of
               (Inl err, doc, st) \<Rightarrow> (Inl err, (e\<lparr>se_doc := doc\<rparr>, st))
             | (Inr _, doc, st) \<Rightarrow>
                 (case parallel_hydrate_grafeo (en_chunk_order env) (en_db env) (en_vertex env) doc (get_tx e) of
                    (r, t) \<Rightarrow> (r, (set_tx t (e\<lparr>se_doc := doc\<rparr>), st)))))
       | SsotGrafeo \<Rightarrow> (Inl hydrate_grafeo_error, (e, st))))"

section \<open>The builder\<close>

record 'st app_builder =
  ab_storage :: "'st storage_api option"
  ab_ssot_mode :: ssot_mode
  ab_compression :: compression_type
  ab_sync_compression :: compression_type
  ab_batch_interval_ms :: u64
  ab_batch_max_size :: usize
  ab_grafeo_dir :: "string option"
  ab_metrics :: "sync_metrics option"
  ab_health :: "nat option"

definition builder :: "'st app_builder" where
  "builder = \<lparr>ab_storage = None, ab_ssot_mode = SsotLoro, ab_compression = CT_Zstd,
     ab_sync_compression = CT_Lz4, ab_batch_interval_ms = DEFAULT_BATCH_MS,
     ab_batch_max_size = DEFAULT_BATCH_SIZE, ab_grafeo_dir = None, ab_metrics = None, ab_health = None\<rparr>"

definition with_storage :: "'st storage_api \<Rightarrow> 'st app_builder \<Rightarrow> 'st app_builder" where
  "with_storage sa b = b\<lparr>ab_storage := Some sa\<rparr>"

definition with_ssot_mode :: "ssot_mode \<Rightarrow> 'st app_builder \<Rightarrow> 'st app_builder" where
  "with_ssot_mode mode b = b\<lparr>ab_ssot_mode := mode\<rparr>"

definition with_compression :: "compression_type \<Rightarrow> 'st app_builder \<Rightarrow> 'st app_builder" where
  "with_compression c b = b\<lparr>ab_compression := c\<rparr>"

definition with_sync_compression :: "compression_type \<Rightarrow> 'st app_builder \<Rightarrow> 'st app_builder" where
  "with_sync_compression c b = b\<lparr>ab_sync_compression := c\<rparr>"

definition with_batch_interval_ms :: "u64 \<Rightarrow> 'st app_builder \<Rightarrow> 'st app_builder" where
  "with_batch_interval_ms ms b = b\<lparr>ab_batch_interval_ms := ms\<rparr>"

definition with_batch_max_size :: "usize \<Rightarrow> 'st app_builder \<Rightarrow> 'st app_builder" where
  "with_batch_max_size n b = b\<lparr>ab_batch_max_size := n\<rparr>"

definition with_grafeo_dir :: "string \<Rightarrow> 'st app_builder \<Rightarrow> 'st app_builder" where
  "with_grafeo_dir p b = b\<lparr>ab_grafeo_dir := Some p\<rparr>"

definition with_metrics :: "sync_metrics \<Rightarrow> 'st app_builder \<Rightarrow> 'st app_builder" where
  "with_metrics m b = b\<lparr>ab_metrics := Some m\<rparr>"

definition with_health :: "nat \<Rightarrow> 'st app_builder \<Rightarrow> 'st app_builder" where
  "with_health h b = b\<lparr>ab_health := Some h\<rparr>"

definition config_error :: "string \<Rightarrow> grafeo_loro_error" where
  "config_error m = Config (Msg m [])"

text \<open>The validation of \<^verbatim>\<open>build\<close>, in the order of its checks.\<close>

definition builder_check :: "'st app_builder \<Rightarrow> 'st storage_api result" where
  "builder_check b =
     (if ab_batch_interval_ms b = 0 then Inl (config_error ''batch_interval_ms must be > 0'')
      else if ab_batch_max_size b = 0 then Inl (config_error ''batch_max_size must be > 0'')
      else case ab_storage b of
        None \<Rightarrow> Inl storage_not_set
      | Some storage \<Rightarrow>
          (if ab_ssot_mode b = SsotGrafeo \<and> ab_grafeo_dir b = None
           then Inl (config_error ''grafeo_dir required for SsotMode::Grafeo'')
           else Inr storage))"

text \<open>\<open>open_db\<close> opens a persistent database, \<open>mem_db\<close> and \<open>new_doc\<close> are an empty one and an empty document.
  Missing metrics and health handles are created; the engine starts with them, and its tasks are spawned.\<close>

definition build ::
  "(string \<Rightarrow> string + 's) \<Rightarrow> 's \<Rightarrow> 'd \<Rightarrow> sync_metrics \<Rightarrow> 'st app_builder \<Rightarrow>
     ('st app \<times> ('s, 'd) sync_engine) result" where
  "build open_db mem_db new_doc new_metrics b = (case builder_check b of
     Inl e \<Rightarrow> Inl e
   | Inr storage \<Rightarrow>
       (case (case ab_grafeo_dir b of Some p \<Rightarrow> open_db p | None \<Rightarrow> Inr mem_db) of
          Inl e \<Rightarrow> Inl (Grafeo e)
        | Inr db \<Rightarrow>
            (let metrics = (case ab_metrics b of Some m \<Rightarrow> Some m | None \<Rightarrow> Some new_metrics);
                 health = (case ab_health b of Some h \<Rightarrow> Some h | None \<Rightarrow> Some 0);
                 engine = engine_new db new_doc (unat (ab_batch_max_size b)) (ab_batch_interval_ms b) metrics health
             in Inr (app_with_config (ab_ssot_mode b) (Some storage) (ab_compression b),
                     spawn_all engine))))"

section \<open>Shutdown\<close>

text \<open>
  The shutdown signals the tasks and awaits the three handles that \<^verbatim>\<open>spawn_all\<close> returned, in turn; it returns
  once all of them have ended. The batcher has no handle of its own: the inbound worker awaits it.
\<close>

definition worker_handles :: "worker list" where
  "worker_handles = [W_Inbound, W_Outbound, W_Poller]"

definition shutdown_returns :: "('s, 'd) sync_engine \<Rightarrow> bool" where
  "shutdown_returns e \<longleftrightarrow> (\<forall>w \<in> set worker_handles. se_status e w = Ended)"

section \<open>What survives a restart\<close>

text \<open>A shallow snapshot at the document's own frontiers, imported into an empty document, restores what the
  document shows (\<open>view\<close>) and lacks no dependency.\<close>

definition snapshot_laws :: "('d, 'm, 'f) doc_io_api \<Rightarrow> 'd \<Rightarrow> ('d \<Rightarrow> 'v) \<Rightarrow> bool" where
  "snapshot_laws io fresh view \<longleftrightarrow>
     (\<forall>doc b org. io_export io (io_shallow_snapshot io (io_oplog_frontiers io doc)) doc = Inr b \<longrightarrow>
        (\<exists>doc'. io_import_with io b org fresh = (Inr False, doc') \<and> view doc' = view doc))"

lemma base_not_delta: "\<not> prefix (delta_prefix g) (base_key g)"
  by (simp add: delta_prefix_def base_key_def STORAGE_KEY_DELTA_PREFIX_def STORAGE_KEY_BASE_LORO_def)

lemma import_wire_back:
  assumes "codec_laws (en_codecs env)" and "snapshot_laws (en_io env) fresh view"
    and "io_export (en_io env) (io_shallow_snapshot (en_io env) (io_oplog_frontiers (en_io env) doc)) doc = Inr b"
    and "compress_to_wire (en_codecs env) b c = Inr wire"
  obtains doc' where "import_wire env wire fresh = (Inr (), doc')" "view doc' = view doc" "wire \<noteq> []"
proof -
  obtain p where p: "payload_compress (en_codecs env) b c = Inr p" "wire = to_wire p"
    using assms(4) by (auto simp: compress_to_wire_def split: sum.splits)
  then have "decompress_from_wire (en_codecs env) wire = Inr b"
    using payload_round_trip [OF assms(1) p(1)] by (simp add: decompress_from_wire_def from_to_wire)
  moreover obtain doc' where "io_import_with (en_io env) b ORIGIN_LORO_BRIDGE fresh = (Inr False, doc')"
    "view doc' = view doc"
    using assms(2,3) unfolding snapshot_laws_def by blast
  ultimately show ?thesis using that p(2) by (simp add: import_wire_def to_wire_def)
qed

context storage_backend
begin

lemma delete_deltas_content:
  "inv st \<Longrightarrow> inv (delete_deltas api ks st) \<and>
     content (delete_deltas api ks st) = (\<lambda>k. if k \<in> set ks then None else content st k)"
proof (induction ks arbitrary: st)
  case (Cons k ks)
  obtain st' where d: "st_delete api k st = (Inr (), st')" "inv st'" "content st' = (content st)(k := None)"
    using delete_ok [OF Cons.prems] by blast
  with Cons.IH [OF d(2)] show ?case by (auto simp: fun_eq_iff)
qed simp

lemma checkpoint_content:
  assumes "inv st" and "checkpoint_loro env c api g doc st = (Inr (), st')"
  obtains b wire where
    "io_export (en_io env) (io_shallow_snapshot (en_io env) (io_oplog_frontiers (en_io env) doc)) doc = Inr b"
    "compress_to_wire (en_codecs env) b c = Inr wire" "inv st'"
    "content st' = (\<lambda>k. if prefix (delta_prefix g) k then None
       else if k = base_key g then Some wire else content st k)"
proof -
  from assms(2) obtain b wire where b:
    "io_export (en_io env) (io_shallow_snapshot (en_io env) (io_oplog_frontiers (en_io env) doc)) doc = Inr b"
    and w: "compress_to_wire (en_codecs env) b c = Inr wire"
    by (auto simp: checkpoint_loro_def Let_def split: sum.splits)
  obtain s1 where s1: "st_save api (base_key g) wire st = (Inr (), s1)" "inv s1"
    "content s1 = (content st)(base_key g \<mapsto> wire)"
    using save_ok [OF assms(1)] by blast
  obtain ks where ks: "st_list api (delta_prefix g) s1 = (Inr ks, s1)"
    "set ks = {k. prefix (delta_prefix g) k \<and> content s1 k \<noteq> None}"
    using list_ok [OF s1(2)] by blast
  have st': "st' = delete_deltas api ks s1"
    using assms(2) by (simp add: checkpoint_loro_def Let_def b w s1(1) ks(1))
  note d = delete_deltas_content [OF s1(2), of ks]
  have "content st' = (\<lambda>k. if prefix (delta_prefix g) k then None
       else if k = base_key g then Some wire else content st k)"
    using d by (auto simp: st' ks(2) s1(3) base_not_delta fun_eq_iff)
  with b w d show ?thesis using that st' by simp
qed

lemma import_base_no_deltas:
  assumes "inv st" and "\<And>k. prefix (delta_prefix g) k \<Longrightarrow> content st k = None"
    and "import_wire env wire doc = (Inr (), doc')" and "wire \<noteq> []"
  shows "import_base env api g wire doc st = (Inr (), doc', st)"
proof -
  obtain ks where ks: "st_list api (delta_prefix g) st = (Inr ks, st)"
    "set ks = {k. prefix (delta_prefix g) k \<and> content st k \<noteq> None}"
    using list_ok [OF assms(1)] by blast
  then have "ks = []" using assms(2) by (metis (mono_tags, lifting) Collect_empty_eq set_empty)
  with ks assms(3,4) show ?thesis by (simp add: import_base_def)
qed

end

section \<open>Properties\<close>

text \<open>Property C11 (checkpoint_survives_restart). On a backend that keeps its contract, a checkpoint that
  succeeds stores one base snapshot and removes every key under the delta prefix, touching no other key.
  An application that then starts from an empty document, whatever codec it is configured with, hydrates a
  document that shows the same as the one checkpointed, and its graph is built from that document.
\<close>

theorem checkpoint_survives_restart:
  assumes "storage_backend sa content valid" and "codec_laws (en_codecs env)"
    and "snapshot_laws (en_io env) fresh view" and "valid st"
    and "ap_storage a = Some sa" and "ap_ssot_mode a = SsotLoro"
    and "checkpoint env a g (e, st) = (Inr (), (e', st'))"
    and "ap_storage a2 = Some sa" and "ap_ssot_mode a2 = SsotLoro" and "se_doc e2 = fresh"
    and "hydrate env a2 g (e2, st') = (r, (e3, st3))"
  shows "(\<exists>wire. content st' = (\<lambda>k. if prefix (delta_prefix g) k then None
      else if k = base_key g then Some wire else content st k)) \<and>
    view (se_doc e3) = view (se_doc e) \<and> st3 = st' \<and>
    (r, get_tx e3) =
      parallel_hydrate_grafeo (en_chunk_order env) (en_db env) (en_vertex env) (se_doc e3) (get_tx e2)"
proof -
  have cp: "checkpoint_loro env (ap_compression a) sa g (se_doc e) st = (Inr (), st')"
    using assms(5-7) by (simp add: checkpoint_def split: prod.splits)
  obtain b wire where b:
    "io_export (en_io env) (io_shallow_snapshot (en_io env) (io_oplog_frontiers (en_io env) (se_doc e))) (se_doc e) = Inr b"
    "compress_to_wire (en_codecs env) b (ap_compression a) = Inr wire" "valid st'"
    "content st' = (\<lambda>k. if prefix (delta_prefix g) k then None
       else if k = base_key g then Some wire else content st k)"
    by (rule storage_backend.checkpoint_content [OF assms(1,4) cp])
  obtain doc' where doc': "import_wire env wire fresh = (Inr (), doc')" "view doc' = view (se_doc e)" "wire \<noteq> []"
    by (rule import_wire_back [OF assms(2,3) b(1,2)])
  have ld: "load_base sa g st' = (Inr wire, st')"
    using storage_backend.load_found [OF assms(1) b(3), of "base_key g" wire] b(4)
    by (simp add: load_base_def base_not_delta)
  have im: "import_base env sa g wire fresh st' = (Inr (), doc', st')"
    by (rule storage_backend.import_base_no_deltas [OF assms(1) b(3) _ doc'(1,3)]) (simp add: b(4))
  obtain t where t: "parallel_hydrate_grafeo (en_chunk_order env) (en_db env) (en_vertex env) doc' (get_tx e2) = (r, t)"
    and e3: "e3 = set_tx t (e2\<lparr>se_doc := doc'\<rparr>)" "st3 = st'"
    using assms(8-11) by (auto simp: hydrate_def ld im split: prod.splits)
  have "se_doc e3 = doc'" "get_tx e3 = t" by (simp_all add: e3 set_tx_def get_tx_def)
  with t e3 doc' b(4) show ?thesis by auto
qed

text \<open>A document of bytes that has one vertex when it is not empty, for the witness.\<close>

definition byte_doc_io :: "(bytes, unit, unit) doc_io_api" where
  "byte_doc_io = \<lparr>io_oplog_frontiers = (\<lambda>d. ()), io_shallow_snapshot = (\<lambda>f. ()), io_export = (\<lambda>m d. Inr d),
     io_import = (\<lambda>b d. (Inr False, b)), io_import_with = (\<lambda>b org d. (Inr False, b))\<rparr>"

definition byte_doc_vertices :: "(bytes, unit) vertex_api" where
  "byte_doc_vertices = \<lparr>v_doc = \<lparr>l_map_get = (\<lambda>r k d. if d = [] then None else Some VOC_Container),
       l_map_insert = (\<lambda>r k v d. (Inl ''read only'', d)), l_map_delete = (\<lambda>r k d. (Inl ''read only'', d)),
       l_commit = (\<lambda>org d. d)\<rparr>,
     v_keys = (\<lambda>r d. if d = [] then [] else [''x'']), v_into_map = (\<lambda>r k d. Some ()),
     v_hydrate_map = (\<lambda>c d. Inr \<lparr>ve_labels = [], ve_properties = [], ve_description = []\<rparr>)\<rparr>"

definition byte_env :: "(nat \<times> nat, bytes, unit, unit, unit, bytes, bytes) app_env" where
  "byte_env = \<lparr>en_codecs = toy_codecs, en_io = byte_doc_io, en_db = counter_db, en_vertex = byte_doc_vertices,
     en_chunk_order = (\<lambda>cs. cs)\<rparr>"

definition byte_engine :: "bytes \<Rightarrow> (nat \<times> nat, bytes) sync_engine" where
  "byte_engine d = engine_new (0, 0) d 4 100 None None"

lemma byte_doc_laws: "snapshot_laws byte_doc_io [] (\<lambda>d. d)"
  by (simp add: snapshot_laws_def byte_doc_io_def)

theorem checkpoint_survives_restart_witness:
  "let a = \<lparr>ap_ssot_mode = SsotLoro, ap_storage = Some in_memory, ap_compression = CT_Lz4\<rparr>;
       a2 = a\<lparr>ap_compression := CT_None\<rparr>;
       st = [(''g/delta-1.loro'', [5]), (''h/base.loro'', [6])] in
   case checkpoint byte_env a ''g'' (byte_engine [7, 8], st) of (r1, (e', st')) \<Rightarrow>
     r1 = Inr () \<and> hm_get st' ''g/delta-1.loro'' = None \<and> hm_get st' ''h/base.loro'' = Some [6] \<and>
     se_doc (fst (snd (hydrate byte_env a2 ''g'' (byte_engine [], st')))) = [7, 8]"
proof -
  let ?a = "\<lparr>ap_ssot_mode = SsotLoro, ap_storage = Some in_memory, ap_compression = CT_Lz4\<rparr>"
  let ?a2 = "?a\<lparr>ap_compression := CT_None\<rparr>"
  let ?st = "[(''g/delta-1.loro'', [5]), (''h/base.loro'', [6])] :: in_memory_storage"
  have laws: "codec_laws (en_codecs byte_env)" "snapshot_laws (en_io byte_env) [] (\<lambda>d. d)"
    by (simp_all add: byte_env_def toy_codec_laws byte_doc_laws)
  have ok: "hm_ok ?st" by (simp add: hm_ok_def)
  have docs: "se_doc (byte_engine d) = d" for d by (simp add: byte_engine_def engine_new_def)
  obtain st' where cp: "checkpoint byte_env ?a ''g'' (byte_engine [7, 8], ?st) = (Inr (), (byte_engine [7, 8], st'))"
    by (simp add: checkpoint_def checkpoint_loro_def docs byte_env_def byte_doc_io_def compress_to_wire_def
        payload_compress_def toy_codecs_def in_memory_def mem_save_def mem_list_def)
  obtain r e3 st3 where hy: "hydrate byte_env ?a2 ''g'' (byte_engine [], st') = (r, (e3, st3))"
    by (metis prod_cases3)
  note restored = checkpoint_survives_restart [OF mem.storage_backend_axioms laws ok _ _ cp _ _ _ hy]
  then obtain wire where "hm_get st' = (\<lambda>k. if prefix (delta_prefix ''g'') k then None
      else if k = base_key ''g'' then Some wire else hm_get ?st k)"
    by (auto simp: docs)
  then have "hm_get st' ''g/delta-1.loro'' = None" "hm_get st' ''h/base.loro'' = Some [6]"
    by (simp_all add: delta_prefix_def base_key_def STORAGE_KEY_DELTA_PREFIX_def STORAGE_KEY_BASE_LORO_def)
  moreover have "se_doc (fst (snd (hydrate byte_env ?a2 ''g'' (byte_engine [], st')))) = [7, 8]"
    using restored by (subst hy) (simp add: docs)
  ultimately show ?thesis by (simp add: Let_def cp)
qed

end
