(* ===== verification/Text_Merge.thy ===== *)
theory Text_Merge
  imports Values "HOL-Library.Sublist"
begin

text \<open>
  The three-way text merge of \<^verbatim>\<open>src/ffi/mod.rs\<close>: the longest common subsequence of two line lists by
  dynamic programming, and the merge that walks the base text. The reference definition of the
  dynamic program is \<open>lcs_len\<close>; its optimality is stated against every common subsequence.
\<close>

section \<open>Longest common subsequence\<close>

text \<open>The table is filled from its last row and its last column backwards: one row from the row below it.\<close>

fun lcs_row :: "'a \<Rightarrow> 'a list \<Rightarrow> nat list \<Rightarrow> nat list" where
  "lcs_row x [] below = [0]"
| "lcs_row x (y # ys) below =
     (let r = lcs_row x ys (tl below)
      in (if x = y then hd (tl below) + 1 else max (hd below) (hd r)) # r)"

fun lcs_table :: "'a list \<Rightarrow> 'a list \<Rightarrow> nat list list" where
  "lcs_table [] b = [replicate (length b + 1) 0]"
| "lcs_table (x # a) b = (let t = lcs_table a b in lcs_row x b (hd t) # t)"

function lcs_walk :: "'a list \<Rightarrow> 'a list \<Rightarrow> nat list list \<Rightarrow> nat \<Rightarrow> nat \<Rightarrow> (nat \<times> nat) list" where
  "lcs_walk a b dp i j =
     (if i < length a \<and> j < length b
      then if a ! i = b ! j then (i, j) # lcs_walk a b dp (i + 1) (j + 1)
        else if dp ! i ! (j + 1) \<le> dp ! (i + 1) ! j then lcs_walk a b dp (i + 1) j
        else lcs_walk a b dp i (j + 1)
      else [])"
  by pat_completeness auto
termination
  by (relation "measure (\<lambda>(a, b, dp, i, j). (length a - i) + (length b - j))") auto

declare lcs_walk.simps [simp del]

definition lcs_matches :: "'a list \<Rightarrow> 'a list \<Rightarrow> (nat \<times> nat) list" where
  "lcs_matches a b = (if a = [] \<or> b = [] then [] else lcs_walk a b (lcs_table a b) 0 0)"

section \<open>The merge\<close>

fun split_lines :: "string \<Rightarrow> string list" where
  "split_lines [] = [[]]"
| "split_lines (c # cs) =
     (if c = CHR 0x0A then [] # split_lines cs
      else case split_lines cs of l # ls \<Rightarrow> (c # l) # ls | [] \<Rightarrow> [[c]])"

fun join_lines :: "string list \<Rightarrow> string" where
  "join_lines [] = []"
| "join_lines [l] = l"
| "join_lines (l # ls) = l @ [CHR 0x0A] @ join_lines ls"

text \<open>\<^verbatim>\<open>our_match_at\<close>: the partner of every base line.\<close>

definition match_at :: "nat \<Rightarrow> (nat \<times> nat) list \<Rightarrow> nat option list" where
  "match_at n matches = foldl (\<lambda>v (b, i). v[b := Some i]) (replicate n None) matches"

text \<open>\<^verbatim>\<open>our_insertions_before\<close>: for every base line, and for the end, the range of lines inserted there. An
  unmatched base line keeps the initial \<^verbatim>\<open>(0, 0)\<close>.\<close>

fun insertions_before :: "nat option list \<Rightarrow> nat \<Rightarrow> nat \<Rightarrow> (nat \<times> nat) list" where
  "insertions_before [] prev len = [(prev, len)]"
| "insertions_before (None # ms) prev len = (0, 0) # insertions_before ms prev len"
| "insertions_before (Some i # ms) prev len = (prev, i) # insertions_before ms (i + 1) len"

definition slice :: "'a list \<Rightarrow> nat \<times> nat \<Rightarrow> 'a list" where
  "slice xs = (\<lambda>(lo, hi). take (hi - lo) (drop lo xs))"

text \<open>What is emitted for two insertions at the same place, and whether they conflict.\<close>

definition merge_slot :: "string list \<Rightarrow> string list \<Rightarrow> string list \<times> bool" where
  "merge_slot our_ins their_ins =
     (if our_ins = [] then (their_ins, False)
      else if their_ins = [] then (our_ins, False)
      else if our_ins = their_ins then (our_ins, False)
      else ([''<<<<<<< ours''] @ our_ins @ [''=======''] @ their_ins @ [''>>>>>>> theirs''], True))"

text \<open>The loop over the places of the base text; after its insertions a base line is kept when both sides
  have it.\<close>

fun merge_loop ::
  "string list \<Rightarrow> string list \<Rightarrow> string list \<Rightarrow> nat option list \<Rightarrow> nat option list \<Rightarrow>
     (nat \<times> nat) list \<Rightarrow> (nat \<times> nat) list \<Rightarrow> string list \<times> bool" where
  "merge_loop ours theirs (l # base) (mo # mos) (mt # mts) (ro # ros) (rt # rts) =
     (case merge_slot (slice ours ro) (slice theirs rt) of (out, c) \<Rightarrow>
      (case merge_loop ours theirs base mos mts ros rts of (out', c') \<Rightarrow>
         (out @ (if mo \<noteq> None \<and> mt \<noteq> None then [l] else []) @ out', c \<or> c')))"
| "merge_loop ours theirs [] [] [] [ro] [rt] = merge_slot (slice ours ro) (slice theirs rt)"
| "merge_loop ours theirs _ _ _ _ _ = ([], False)"

definition semantic_text_merge :: "string \<Rightarrow> string \<Rightarrow> string \<Rightarrow> string \<times> conflict_resolution" where
  "semantic_text_merge base ours theirs =
     (let base_lines = split_lines base; our_lines = split_lines ours; their_lines = split_lines theirs;
          our_match_at = match_at (length base_lines) (lcs_matches base_lines our_lines);
          their_match_at = match_at (length base_lines) (lcs_matches base_lines their_lines);
          our_insertions = insertions_before our_match_at 0 (length our_lines);
          their_insertions = insertions_before their_match_at 0 (length their_lines)
      in case merge_loop our_lines their_lines base_lines our_match_at their_match_at our_insertions their_insertions of
           (result, conflict) \<Rightarrow>
             (join_lines result,
              if conflict then ManualRequired
              else if our_lines = their_lines then Merged
              else if base_lines = our_lines then TheirsWins
              else if base_lines = their_lines then OursWins
              else Merged))"

section \<open>The dynamic program\<close>

text \<open>The reference: the length of a longest common subsequence by recursion on both lists.\<close>

fun lcs_len :: "'a list \<Rightarrow> 'a list \<Rightarrow> nat" where
  "lcs_len [] b = 0"
| "lcs_len a [] = 0"
| "lcs_len (x # a) (y # b) = (if x = y then lcs_len a b + 1 else max (lcs_len a (y # b)) (lcs_len (x # a) b))"

lemma lcs_len_Nil2 [simp]: "lcs_len a [] = 0"
  by (cases a) simp_all

text \<open>A row holds the reference values of every suffix of the second list.\<close>

definition row_of :: "'a list \<Rightarrow> 'a list \<Rightarrow> nat list" where
  "row_of a b = map (\<lambda>j. lcs_len a (drop j b)) [0..<length b + 1]"

lemma row_of_Nil: "row_of a [] = [0]"
  by (simp add: row_of_def)

lemma row_of_Cons: "row_of a (y # b) = lcs_len a (y # b) # row_of a b"
  by (simp add: row_of_def upt_conv_Cons map_Suc_upt [symmetric] del: upt_Suc)

lemma hd_row_of: "hd (row_of a b) = lcs_len a b"
  by (cases b) (simp_all add: row_of_Nil row_of_Cons)

lemma lcs_row_of: "lcs_row x b (row_of a b) = row_of (x # a) b"
  by (induction b) (simp_all add: row_of_Nil row_of_Cons hd_row_of Let_def)

lemma lcs_table_nth: "i \<le> length a \<Longrightarrow> lcs_table a b ! i = row_of (drop i a) b"
proof (induction a arbitrary: i)
  case Nil
  then show ?case by (simp add: row_of_def map_replicate_const del: upt_Suc)
next
  case (Cons x a)
  have "hd (lcs_table a b) = row_of a b"
    using Cons.IH [of 0] by (cases a) (simp_all add: Let_def)
  then show ?case using Cons by (cases i) (simp_all add: Let_def lcs_row_of)
qed

lemma lcs_table_entry: "i \<le> length a \<Longrightarrow> j \<le> length b \<Longrightarrow> lcs_table a b ! i ! j = lcs_len (drop i a) (drop j b)"
  by (simp add: lcs_table_nth row_of_def del: upt_Suc)

text \<open>A match list from \<open>(i, j)\<close> on: both components increase and the lines agree.\<close>

fun matching :: "'a list \<Rightarrow> 'a list \<Rightarrow> nat \<Rightarrow> nat \<Rightarrow> (nat \<times> nat) list \<Rightarrow> bool" where
  "matching a b i j [] \<longleftrightarrow> True"
| "matching a b i j ((p, q) # ms) \<longleftrightarrow>
     i \<le> p \<and> p < length a \<and> j \<le> q \<and> q < length b \<and> a ! p = b ! q \<and> matching a b (p + 1) (q + 1) ms"

lemma matching_mono: "matching a b i j ms \<Longrightarrow> i' \<le> i \<Longrightarrow> j' \<le> j \<Longrightarrow> matching a b i' j' ms"
  by (cases ms) auto

lemma lcs_walk_correct:
  assumes "dp = lcs_table a b" and "i \<le> length a" and "j \<le> length b"
  shows "matching a b i j (lcs_walk a b dp i j) \<and>
    length (lcs_walk a b dp i j) = lcs_len (drop i a) (drop j b)"
  using assms
proof (induction a b dp i j rule: lcs_walk.induct)
  case (1 a b dp i j)
  show ?case
  proof (cases "i < length a \<and> j < length b")
    case False
    then have "lcs_walk a b dp i j = []"
      unfolding lcs_walk.simps [of a b dp i j] by (simp only: False if_False)
    moreover have "drop i a = [] \<or> drop j b = []" using False by auto
    ultimately show ?thesis by auto
  next
    case True
    then have d: "drop i a = a ! i # drop (i + 1) a" "drop j b = b ! j # drop (j + 1) b"
      by (simp_all add: Cons_nth_drop_Suc)
    have dp: "dp ! (i + 1) ! j = lcs_len (drop (i + 1) a) (drop j b)"
      "dp ! i ! (j + 1) = lcs_len (drop i a) (drop (j + 1) b)"
      using True 1(4) by (simp_all add: lcs_table_entry)
    have IH: "matching a b (i + 1) (j + 1) (lcs_walk a b dp (i + 1) (j + 1)) \<and>
        length (lcs_walk a b dp (i + 1) (j + 1)) = lcs_len (drop (i + 1) a) (drop (j + 1) b)" if "a ! i = b ! j"
      using 1(1) [OF True that] 1(4) True by simp
    consider "a ! i = b ! j" | "a ! i \<noteq> b ! j" "dp ! i ! (j + 1) \<le> dp ! (i + 1) ! j"
      | "a ! i \<noteq> b ! j" "\<not> dp ! i ! (j + 1) \<le> dp ! (i + 1) ! j" by blast
    then show ?thesis
    proof cases
      case 1
      with True IH show ?thesis by (subst (1 2) lcs_walk.simps) (simp add: d)
    next
      case 2
      have "matching a b (i + 1) j (lcs_walk a b dp (i + 1) j) \<and>
          length (lcs_walk a b dp (i + 1) j) = lcs_len (drop (i + 1) a) (drop j b)"
        using 1(2) [OF True 2] 1(4) True by simp
      with True 2 dp show ?thesis
        by (subst (1 2) lcs_walk.simps) (auto simp: d intro: matching_mono)
    next
      case 3
      have "matching a b i (j + 1) (lcs_walk a b dp i (j + 1)) \<and>
          length (lcs_walk a b dp i (j + 1)) = lcs_len (drop i a) (drop (j + 1) b)"
        using 1(3) [OF True 3] 1(4) True by simp
      with True 3 dp show ?thesis
        by (subst (1 2) lcs_walk.simps) (auto simp: d intro: matching_mono)
    qed
  qed
qed

lemma lcs_matches_correct:
  "matching a b 0 0 (lcs_matches a b) \<and> length (lcs_matches a b) = lcs_len a b"
  using lcs_walk_correct [of "lcs_table a b" a b 0 0] by (cases "a = [] \<or> b = []") (auto simp: lcs_matches_def)

text \<open>The reference is optimal, and a match list is a common subsequence.\<close>

lemma lcs_len_optimal: "subseq s a \<Longrightarrow> subseq s b \<Longrightarrow> length s \<le> lcs_len a b"
proof (induction a b arbitrary: s rule: lcs_len.induct)
  case (3 x a y b)
  show ?case
  proof (cases s)
    case (Cons z s')
    show ?thesis
    proof (cases "x = y")
      case True
      have "subseq s' a" "subseq s' b"
        using 3(4,5) Cons True by (metis subseq_Cons' subseq_Cons2_iff)+
      with 3(1) True Cons show ?thesis by simp
    next
      case False
      then have "subseq s a \<or> subseq s b"
        using 3(4,5) Cons by (metis subseq_Cons2_neq)
      with 3(2-5) False show ?thesis by (auto simp: le_max_iff_disj)
    qed
  qed simp
qed simp_all

lemma subseq_drop_nth: "subseq s (drop (p + 1) a) \<Longrightarrow> i \<le> p \<Longrightarrow> p < length a \<Longrightarrow> subseq (a ! p # s) (drop i a)"
proof -
  assume s: "subseq s (drop (p + 1) a)" and p: "i \<le> p" "p < length a"
  have "drop i a = take (p - i) (drop i a) @ a ! p # drop (p + 1) a"
    using p by (simp add: Cons_nth_drop_Suc) (metis append_take_drop_id drop_drop le_add_diff_inverse add.commute)
  then show ?thesis using s by (metis list_emb_append2 subseq_Cons2)
qed

lemma matching_subseq:
  "matching a b i j ms \<Longrightarrow> subseq (map (\<lambda>(p, q). a ! p) ms) (drop i a) \<and> subseq (map (\<lambda>(p, q). a ! p) ms) (drop j b)"
proof (induction ms arbitrary: i j)
  case (Cons m ms)
  obtain p q where m: "m = (p, q)" by (cases m)
  let ?s = "map (\<lambda>(p, q). a ! p) ms"
  from Cons.prems m have pq: "i \<le> p" "p < length a" "j \<le> q" "q < length b" "a ! p = b ! q"
    and rest: "matching a b (p + 1) (q + 1) ms" by auto
  from Cons.IH [OF rest] have s: "subseq ?s (drop (p + 1) a)" "subseq ?s (drop (q + 1) b)" by blast+
  have "subseq (a ! p # ?s) (drop i a)" using subseq_drop_nth [OF s(1) pq(1,2)] .
  moreover have "subseq (b ! q # ?s) (drop j b)" using subseq_drop_nth [OF s(2) pq(3,4)] .
  ultimately show ?case using m pq(5) by simp
qed simp

section \<open>Rebuilding one side\<close>

lemma foldl_update:
  "distinct (map fst ms) \<Longrightarrow> \<forall>p \<in> fst ` set ms. p < length v \<Longrightarrow>
     foldl (\<lambda>v (b, i). v[b := Some i]) v ms =
     map (\<lambda>p. case map_of ms p of Some q \<Rightarrow> Some q | None \<Rightarrow> v ! p) [0..<length v]"
proof (induction ms arbitrary: v)
  case Nil
  show ?case by (simp add: map_nth)
next
  case (Cons m ms)
  obtain p q where m: "m = (p, q)" by (cases m)
  have "map_of ms p = None" using Cons.prems(1) m by (simp add: map_of_eq_None_iff)
  with Cons m show ?case by (auto intro!: map_cong split: option.splits)
qed

lemma matching_fst: "matching a b i j ms \<Longrightarrow> distinct (map fst ms) \<and> (\<forall>p \<in> fst ` set ms. i \<le> p \<and> p < length a)"
proof (induction ms arbitrary: i j)
  case (Cons m ms)
  obtain p q where m: "m = (p, q)" by (cases m)
  with Cons.prems Cons.IH [of "p + 1" "q + 1"] show ?case by fastforce
qed simp

lemma match_at_eq:
  assumes "matching base xs 0 0 ms"
  shows "match_at (length base) ms = map (map_of ms) [0..<length base]"
  using matching_fst [OF assms]
  by (auto simp: match_at_def foldl_update intro!: map_cong split: option.splits)

fun rebuild :: "string list \<Rightarrow> string list \<Rightarrow> nat option list \<Rightarrow> (nat \<times> nat) list \<Rightarrow> string list" where
  "rebuild xs (l # base) (m # ms) (r # rs) = slice xs r @ (if m \<noteq> None then [l] else []) @ rebuild xs base ms rs"
| "rebuild xs [] [] [r] = slice xs r"
| "rebuild xs _ _ _ = []"

lemma map_of_skip: "matching a b i j ms \<Longrightarrow> k < i \<Longrightarrow> map_of ms k = None"
  using matching_fst [of a b i j ms] by (auto simp: map_of_eq_None_iff)

lemma rebuild_id:
  "matching base xs i j ms \<Longrightarrow> i \<le> length base \<Longrightarrow> j \<le> length xs \<Longrightarrow>
     rebuild xs (drop i base) (map (map_of ms) [i..<length base])
       (insertions_before (map (map_of ms) [i..<length base]) j (length xs)) = drop j xs"
proof (induction "length base - i" arbitrary: i j ms)
  case 0
  then show ?case by (simp add: slice_def)
next
  case (Suc n)
  then have i: "i < length base" by simp
  then have up: "[i..<length base] = i # [i + 1..<length base]" and d: "drop i base = base ! i # drop (i + 1) base"
    by (simp_all add: upt_conv_Cons Cons_nth_drop_Suc)
  show ?case
  proof (cases "map_of ms i")
    case None
    have "matching base xs (i + 1) j ms"
    proof (cases ms)
      case (Cons m ms')
      with Suc.prems(1) None show ?thesis by (cases m) (auto simp: Suc_le_eq split: if_splits)
    qed simp
    with Suc.hyps(1) [of "i + 1" j ms] Suc.hyps(2) Suc.prems i None show ?thesis
      by (simp add: up d slice_def)
  next
    case (Some q)
    then obtain p q' ms' where ms: "ms = (p, q') # ms'" by (cases ms) auto
    have rest: "matching base xs (p + 1) (q' + 1) ms'" using Suc.prems(1) ms by simp
    have "p = i"
    proof (rule ccontr)
      assume "p \<noteq> i"
      with Some ms have "map_of ms' i = Some q" by simp
      moreover have "i < p + 1" using Suc.prems(1) ms by simp
      ultimately show False using map_of_skip [OF rest] by simp
    qed
    with Some ms have q: "q' = q" by simp
    from Suc.prems(1) ms \<open>p = i\<close> q have jq: "j \<le> q" "q < length xs" "base ! i = xs ! q" by auto
    have mo: "map (map_of ms) [Suc i..<length base] = map (map_of ms') [Suc i..<length base]"
      using ms \<open>p = i\<close> by (auto intro: map_cong)
    have IH: "rebuild xs (drop (i + 1) base) (map (map_of ms') [i + 1..<length base])
        (insertions_before (map (map_of ms') [i + 1..<length base]) (q + 1) (length xs)) = drop (q + 1) xs"
      using Suc.hyps(1) [of "i + 1" "q + 1" ms'] Suc.hyps(2) rest \<open>p = i\<close> q i jq by simp
    have "drop j xs = take (q - j) (drop j xs) @ xs ! q # drop (q + 1) xs"
      using jq by (simp add: Cons_nth_drop_Suc) (metis append_take_drop_id drop_drop le_add_diff_inverse add.commute)
    with Some IH jq show ?thesis by (simp add: up d mo slice_def del: map_eq_conv upt_Suc)
  qed
qed

lemma rebuild_lcs:
  "rebuild xs base (match_at (length base) (lcs_matches base xs))
     (insertions_before (match_at (length base) (lcs_matches base xs)) 0 (length xs)) = xs"
  using rebuild_id [of base xs 0 0 "lcs_matches base xs"] lcs_matches_correct [of base xs]
  by (simp add: match_at_eq [of base xs])

lemma length_insertions_before [simp]: "length (insertions_before ms p n) = length ms + 1"
  by (induction ms p n rule: insertions_before.induct) simp_all

lemma length_match_at [simp]: "length (match_at n ms) = n"
  unfolding match_at_def by (induction ms rule: rev_induct) (auto split: prod.splits)

section \<open>A side that made no change\<close>

lemma lcs_walk_self: "lcs_walk b b dp i i = map (\<lambda>k. (k, k)) [i..<length b]"
proof (induction "length b - i" arbitrary: i)
  case (Suc n)
  then show ?case by (subst lcs_walk.simps) (simp add: upt_conv_Cons)
qed (subst lcs_walk.simps, simp)

lemma lcs_matches_self: "lcs_matches b b = map (\<lambda>k. (k, k)) [0..<length b]"
  by (simp add: lcs_matches_def lcs_walk_self)

lemma match_at_self: "match_at (length b) (lcs_matches b b) = map Some [0..<length b]"
proof -
  have "map_of (map (\<lambda>k. (k, k)) [0..<length b]) i = Some i" if "i < length b" for i
    using that map_of_map_restrict [of "\<lambda>k. k" "[0..<length b]"] by (simp add: restrict_map_def comp_def)
  moreover have "matching b b 0 0 (lcs_matches b b)" using lcs_matches_correct by blast
  ultimately show ?thesis by (simp add: match_at_eq [of b b] lcs_matches_self)
qed

lemma insertions_before_self:
  "i \<le> n \<Longrightarrow> set (insertions_before (map Some [i..<n]) i n) \<subseteq> {(k, k) | k. True}"
proof (induction "n - i" arbitrary: i)
  case (Suc d)
  then have "i < n" by simp
  then have "[i..<n] = i # [Suc i..<n]" by (rule upt_conv_Cons)
  moreover have "set (insertions_before (map Some [Suc i..<n]) (Suc i) n) \<subseteq> {(k, k) | k. True}"
    using Suc by simp
  ultimately show ?case by simp
next
  case 0
  then have "[i..<n] = []" by simp
  then show ?case using 0 by simp
qed


lemma merge_loop_theirs:
  "list_all (\<lambda>m. m \<noteq> None) mos \<Longrightarrow> list_all (\<lambda>r. slice ours r = []) ros \<Longrightarrow>
     length mos = length base \<Longrightarrow> length mts = length base \<Longrightarrow>
     length ros = length base + 1 \<Longrightarrow> length rts = length base + 1 \<Longrightarrow>
     merge_loop ours theirs base mos mts ros rts = (rebuild theirs base mts rts, False)"
proof (induction base arbitrary: mos mts ros rts)
  case Nil
  then obtain ro rt where "ros = [ro]" "rts = [rt]" "mos = []" "mts = []"
    by (cases ros; cases rts; auto)
  with Nil show ?case by (simp add: merge_slot_def)
next
  case (Cons l base)
  then obtain mo mos' mt mts' ro ros' rt rts' where
    "mos = mo # mos'" "mts = mt # mts'" "ros = ro # ros'" "rts = rt # rts'"
    by (cases mos; cases mts; cases ros; cases rts; auto)
  with Cons show ?case by (simp add: merge_slot_def)
qed

lemma merge_loop_ours:
  "list_all (\<lambda>m. m \<noteq> None) mts \<Longrightarrow> list_all (\<lambda>r. slice theirs r = []) rts \<Longrightarrow>
     length mos = length base \<Longrightarrow> length mts = length base \<Longrightarrow>
     length ros = length base + 1 \<Longrightarrow> length rts = length base + 1 \<Longrightarrow>
     merge_loop ours theirs base mos mts ros rts = (rebuild ours base mos ros, False)"
proof (induction base arbitrary: mos mts ros rts)
  case Nil
  then obtain ro rt where "ros = [ro]" "rts = [rt]" "mos = []" "mts = []"
    by (cases ros; cases rts; auto)
  with Nil show ?case by (simp add: merge_slot_def)
next
  case (Cons l base)
  then obtain mo mos' mt mts' ro ros' rt rts' where
    "mos = mo # mos'" "mts = mt # mts'" "ros = ro # ros'" "rts = rt # rts'"
    by (cases mos; cases mts; cases ros; cases rts; auto)
  with Cons show ?case by (simp add: merge_slot_def)
qed

lemma merge_loop_same:
  "length ms = length base \<Longrightarrow> length rs = length base + 1 \<Longrightarrow>
     merge_loop xs xs base ms ms rs rs = (rebuild xs base ms rs, False)"
proof (induction base arbitrary: ms rs)
  case Nil
  then obtain r where "rs = [r]" "ms = []" by (cases rs; auto)
  then show ?case by (simp add: merge_slot_def)
next
  case (Cons l base)
  then obtain m ms' r rs' where "ms = m # ms'" "rs = r # rs'" by (cases ms; cases rs; auto)
  with Cons show ?case by (simp add: merge_slot_def)
qed

lemma split_lines_ne [simp]: "split_lines s \<noteq> []"
  by (induction s) (auto split: list.split)

lemma join_split [simp]: "join_lines (split_lines s) = s"
proof (induction s)
  case (Cons c s)
  obtain l ls where s: "split_lines s = l # ls" by (cases "split_lines s") auto
  with Cons.IH show ?case by (cases ls) auto
qed simp

lemma split_lines_inject: "split_lines s = split_lines t \<longleftrightarrow> s = t"
  by (metis join_split)

text \<open>An unchanged side keeps every base line and inserts nothing.\<close>

lemma unchanged_side:
  "list_all (\<lambda>m. m \<noteq> None) (match_at (length b) (lcs_matches b b))"
  "list_all (\<lambda>r. slice b r = []) (insertions_before (match_at (length b) (lcs_matches b b)) 0 (length b))"
proof -
  show "list_all (\<lambda>m. m \<noteq> None) (match_at (length b) (lcs_matches b b))"
    by (simp add: match_at_self list_all_iff)
  show "list_all (\<lambda>r. slice b r = []) (insertions_before (match_at (length b) (lcs_matches b b)) 0 (length b))"
    using insertions_before_self [of 0 "length b"] by (auto simp: match_at_self list_all_iff slice_def)
qed

section \<open>Properties of the merge\<close>

text \<open>Property C27 (lcs_matches_longest). The pairs returned by \<^verbatim>\<open>lcs_matches\<close> increase strictly on both sides, lie
  inside both lists and pair equal lines, so that they name a common subsequence of the two lists; and
  no common subsequence of the two lists is longer than their number.
\<close>

theorem lcs_matches_longest:
  "matching a b 0 0 (lcs_matches a b) \<and>
   subseq (map (\<lambda>(p, q). a ! p) (lcs_matches a b)) a \<and>
   subseq (map (\<lambda>(p, q). b ! q) (lcs_matches a b)) b \<and>
   map (\<lambda>(p, q). a ! p) (lcs_matches a b) = map (\<lambda>(p, q). b ! q) (lcs_matches a b) \<and>
   (subseq s a \<and> subseq s b \<longrightarrow> length s \<le> length (lcs_matches a b))"
proof -
  have m: "matching a b 0 0 (lcs_matches a b)" and len: "length (lcs_matches a b) = lcs_len a b"
    using lcs_matches_correct by blast+
  have "matching a b i j ms \<Longrightarrow> map (\<lambda>(p, q). a ! p) ms = map (\<lambda>(p, q). b ! q) ms" for i j ms
    by (induction a b i j ms rule: matching.induct) auto
  from this [OF m] have eq: "map (\<lambda>(p, q). a ! p) (lcs_matches a b) = map (\<lambda>(p, q). b ! q) (lcs_matches a b)" .
  from matching_subseq [OF m] have "subseq (map (\<lambda>(p, q). a ! p) (lcs_matches a b)) a"
    "subseq (map (\<lambda>(p, q). a ! p) (lcs_matches a b)) b" by simp_all
  moreover have "subseq s a \<and> subseq s b \<longrightarrow> length s \<le> length (lcs_matches a b)"
    using lcs_len_optimal len by auto
  ultimately show ?thesis using m eq by metis
qed

theorem lcs_matches_longest_witness:
  "length [2, 4 :: nat] \<le> length (lcs_matches [1, 2, 3, 4 :: nat] [2, 4, 5])"
  using lcs_matches_longest [of "[1, 2, 3, 4 :: nat]" "[2, 4, 5]" "[2, 4]"] by simp

text \<open>A three-way merge in which only one side changed the text returns exactly
  that side's text, and when both sides hold the same text it returns that text; none of these
  merges reports a conflict, and the resolution names the side that was taken.
\<close>

theorem semantic_merge_one_side:
  "semantic_text_merge base base t = (t, if t = base then Merged else TheirsWins) \<and>
   semantic_text_merge base t base = (t, if t = base then Merged else OursWins) \<and>
   semantic_text_merge base t t = (t, Merged)"
proof (intro conjI)
  show "semantic_text_merge base base t = (t, if t = base then Merged else TheirsWins)"
    unfolding semantic_text_merge_def Let_def
    by (subst merge_loop_theirs) (simp_all only: unchanged_side length_insertions_before length_match_at,
        auto simp: rebuild_lcs split_lines_inject)
  show "semantic_text_merge base t base = (t, if t = base then Merged else OursWins)"
    unfolding semantic_text_merge_def Let_def
    by (subst merge_loop_ours) (simp_all only: unchanged_side length_insertions_before length_match_at,
        auto simp: rebuild_lcs split_lines_inject)
  show "semantic_text_merge base t t = (t, Merged)"
    unfolding semantic_text_merge_def Let_def
    by (subst merge_loop_same) (simp_all add: rebuild_lcs)
qed

text \<open>Two edits that replace overlapping ranges of the base text are not
  always reported: of the base lines a, b, c one side replaces a and b by X and the other replaces a
  by Y; the merge holds both replacements one after the other and is labelled as merged.
\<close>

theorem overlapping_edits_merge_silently:
  "semantic_text_merge (join_lines [''a'', ''b'', ''c'']) (join_lines [''X'', ''c'']) (join_lines [''Y'', ''b'', ''c'']) =
     (join_lines [''Y'', ''X'', ''c''], Merged)"
  by code_simp

end
