(* ===== verification/Presence.thy ===== *)
theory Presence
  imports Errors
begin

text \<open>
  Presence (\<^verbatim>\<open>src/presence/\<close>, \<^verbatim>\<open>src/types/presence.rs\<close>): the registry of node presences with its garbage
  collection, and the \<^verbatim>\<open>%EPH\<close> envelope that carries a payload over the wire. serde_json is the record
  \<open>json_api\<close>; \<open>'w\<close> is the state a change callback works on.
\<close>

section \<open>Data\<close>

record presence_payload =
  pp_peer_id :: peer_id
  pp_active_node :: "string option"
  pp_cursor_x :: f32
  pp_cursor_y :: f32
  pp_last_active_ts :: u64

record cursor_pos =
  cur_offset :: u32
  cur_line :: u32
  cur_col :: u32

record selection_range =
  sel_start :: u32
  sel_end :: u32

record node_presence =
  np_peer_id :: string
  np_vertex_id :: string
  np_cursor :: "cursor_pos option"
  np_selection :: "selection_range option"
  np_last_seen_ms :: u64

section \<open>The registry\<close>

definition DEFAULT_NODE_PRESENCE_STALE_TIMEOUT_MS :: u64 where
  "DEFAULT_NODE_PRESENCE_STALE_TIMEOUT_MS = 30000"

record 'w presence_registry =
  pr_states :: "(string \<times> string, node_presence) hmap"
  pr_stale_timeout_ms :: u64
  pr_on_change :: "(node_presence \<Rightarrow> 'w \<Rightarrow> 'w) option"

definition pr_new :: "u64 \<Rightarrow> 'w presence_registry" where
  "pr_new stale_timeout_ms = \<lparr>pr_states = [], pr_stale_timeout_ms = stale_timeout_ms, pr_on_change = None\<rparr>"

definition pr_default :: "'w presence_registry" where
  "pr_default = pr_new DEFAULT_NODE_PRESENCE_STALE_TIMEOUT_MS"

definition pr_upsert :: "node_presence \<Rightarrow> 'w presence_registry \<times> 'w \<Rightarrow> 'w presence_registry \<times> 'w" where
  "pr_upsert presence = (\<lambda>(r, w).
     let key = (np_peer_id presence, np_vertex_id presence);
         r = r\<lparr>pr_states := hm_insert key presence (pr_states r)\<rparr>
     in case pr_on_change r of Some cb \<Rightarrow> (r, cb presence w) | None \<Rightarrow> (r, w))"

definition pr_remove :: "string \<Rightarrow> string \<Rightarrow> 'w presence_registry \<Rightarrow> 'w presence_registry" where
  "pr_remove peer_id vertex_id r = r\<lparr>pr_states := hm_remove (peer_id, vertex_id) (pr_states r)\<rparr>"

definition for_node :: "string \<Rightarrow> 'w presence_registry \<Rightarrow> node_presence list" where
  "for_node vertex_id r = filter (\<lambda>p. np_vertex_id p = vertex_id) (map snd (pr_states r))"

definition gc_stale :: "u64 \<Rightarrow> 'w presence_registry \<Rightarrow> nat \<times> 'w presence_registry" where
  "gc_stale now_ms r =
     (let cutoff = saturating_sub now_ms (pr_stale_timeout_ms r);
          before = length (pr_states r);
          states = hm_retain (\<lambda>k p. cutoff \<le> np_last_seen_ms p) (pr_states r)
      in (before - length states, r\<lparr>pr_states := states\<rparr>))"

definition on_change :: "(node_presence \<Rightarrow> 'w \<Rightarrow> 'w) \<Rightarrow> 'w presence_registry \<Rightarrow> 'w presence_registry" where
  "on_change callback r = r\<lparr>pr_on_change := Some callback\<rparr>"

definition presence_register_callback ::
  "(node_presence \<Rightarrow> 'w \<Rightarrow> 'w) \<Rightarrow> 'w presence_registry \<Rightarrow> 'w presence_registry" where
  "presence_register_callback cb r = on_change (\<lambda>p. cb p) r"

definition pr_len :: "'w presence_registry \<Rightarrow> nat" where
  "pr_len r = length (pr_states r)"

definition pr_is_empty :: "'w presence_registry \<Rightarrow> bool" where
  "pr_is_empty r \<longleftrightarrow> pr_states r = []"

section \<open>The envelope\<close>

definition EPH_MAGIC :: bytes where
  "EPH_MAGIC = [0x25, 0x45, 0x50, 0x48]"

definition EPH_MSG_TYPE_PRESENCE :: u8 where
  "EPH_MSG_TYPE_PRESENCE = 0x01"

record eph_envelope =
  ev_room_id :: string
  ev_payload :: presence_payload

record json_api =
  js_to_vec :: "presence_payload \<Rightarrow> string + bytes"
  js_from_slice :: "bytes \<Rightarrow> string + presence_payload"

definition invalid_envelope :: "string \<Rightarrow> fmt_arg list \<Rightarrow> 'a result" where
  "invalid_envelope template args = Inl (InvalidEnvelope (Msg template args))"

definition parse_eph_envelope :: "json_api \<Rightarrow> bytes \<Rightarrow> eph_envelope result" where
  "parse_eph_envelope js bytes =
     (if length bytes < length EPH_MAGIC
      then invalid_envelope ''buffer too short: {} bytes'' [A_Num (length bytes)]
      else if take (length EPH_MAGIC) bytes \<noteq> EPH_MAGIC
      then invalid_envelope ''bad magic: {:?}'' (map (A_Num \<circ> unat) (take (length EPH_MAGIC) bytes))
      else if length bytes < length EPH_MAGIC + 2
      then invalid_envelope ''truncated: missing room_id_len'' []
      else
        let room_id_len = unat (of_le_bytes [bytes ! length EPH_MAGIC, bytes ! (length EPH_MAGIC + 1)] :: u16);
            room_id_start = length EPH_MAGIC + 2;
            room_id_end = room_id_start + room_id_len
        in
          if length bytes < room_id_end + 1
          then invalid_envelope ''room_id segment truncated: need {} bytes, have {}''
            [A_Num (room_id_end + 1), A_Num (length bytes)]
          else case from_utf8 (take room_id_len (drop room_id_start bytes)) of
            Inl e \<Rightarrow> invalid_envelope ''bad room_id utf8: {e}'' [A_Num e]
          | Inr room_id \<Rightarrow>
              (let msg_type = bytes ! room_id_end in
               if msg_type \<noteq> EPH_MSG_TYPE_PRESENCE
               then invalid_envelope ''unsupported msg_type: 0x{msg_type:02x}'' [A_Num (unat msg_type)]
               else case js_from_slice js (drop (room_id_end + 1) bytes) of
                 Inl e \<Rightarrow> invalid_envelope ''serde: {e}'' [A_Str e]
               | Inr payload \<Rightarrow> Inr \<lparr>ev_room_id = room_id, ev_payload = payload\<rparr>))"

definition build_eph_envelope :: "json_api \<Rightarrow> string \<Rightarrow> presence_payload \<Rightarrow> bytes result" where
  "build_eph_envelope js room_id payload =
     (let room_id_bytes = as_bytes room_id in
      if 65535 < length room_id_bytes
      then invalid_envelope ''room_id too long: {} bytes (max {})'' [A_Num (length room_id_bytes), A_Num 65535]
      else case js_to_vec js payload of
        Inl e \<Rightarrow> invalid_envelope ''serde_json encode: {e}'' [A_Str e]
      | Inr json \<Rightarrow> Inr (EPH_MAGIC @ le_bytes 2 (of_nat (length room_id_bytes) :: u16) @ room_id_bytes @
          [EPH_MSG_TYPE_PRESENCE] @ json))"

text \<open>The manager has no transport yet.\<close>

record presence_manager =
  pm_room_id :: string

definition broadcast :: "presence_manager \<Rightarrow> presence_payload \<Rightarrow> unit result" where
  "broadcast m payload = Inl (NotYetImplemented (Msg
     ''PresenceManager::broadcast: no WebSocket transport wired for room {}'' [A_Str (pm_room_id m)]))"

section \<open>What the wire format accepts\<close>

lemma of_le_bytes_len: "n \<le> 65535 \<Longrightarrow> unat (of_le_bytes (le_bytes 2 (of_nat n :: u16)) :: u16) = n"
  by (simp add: of_le_bytes_id unat_of_nat take_bit_eq_mod)

lemma le_bytes_2: "le_bytes 2 w = [ucast w, ucast (drop_bit 8 w)]"
  by (simp add: le_bytes_def upt_rec)

lemma le_of_bytes_2: "le_bytes 2 (of_le_bytes [a, b] :: u16) = [a, b]"
proof -
  have "ucast (or (ucast a) (push_bit 8 (or (ucast b) 0)) :: u16) = a"
    by (rule bit_word_eqI) (auto simp: bit_simps)
  moreover have "ucast (drop_bit 8 (or (ucast a) (push_bit 8 (or (ucast b) 0)) :: u16)) = b"
    by (rule bit_word_eqI) (auto simp: bit_simps dest: bit_imp_le_length)
  ultimately show ?thesis by (simp add: le_bytes_2)
qed

text \<open>The layout of an envelope: magic, length of the room id, room id, message type, payload.\<close>

definition envelope_bytes :: "string \<Rightarrow> bytes \<Rightarrow> bytes" where
  "envelope_bytes room json = EPH_MAGIC @ le_bytes 2 (of_nat (length room) :: u16) @ as_bytes room @
     [EPH_MSG_TYPE_PRESENCE] @ json"

lemma build_layout:
  "build_eph_envelope js room p = Inr bytes \<longleftrightarrow>
     length room \<le> 65535 \<and> (\<exists>json. js_to_vec js p = Inr json \<and> bytes = envelope_bytes room json)"
  by (auto simp: build_eph_envelope_def envelope_bytes_def invalid_envelope_def Let_def not_less
      split: sum.splits)

lemma parse_envelope_bytes:
  assumes "length room \<le> 65535"
  shows "parse_eph_envelope js (envelope_bytes room json) =
    (if utf8 (as_bytes room)
     then case js_from_slice js json of
         Inl e \<Rightarrow> invalid_envelope ''serde: {e}'' [A_Str e]
       | Inr p \<Rightarrow> Inr \<lparr>ev_room_id = room, ev_payload = p\<rparr>
     else invalid_envelope ''bad room_id utf8: {e}'' [A_Num (valid_up_to (as_bytes room))])"
  using of_le_bytes_len [OF assms]
  by (simp add: parse_eph_envelope_def envelope_bytes_def le_bytes_2 EPH_MAGIC_def from_utf8_def Let_def
      nth_append)

lemma length_magic [simp]: "length EPH_MAGIC = 4"
  by (simp add: EPH_MAGIC_def)

lemma from_utf8_Inr: "from_utf8 bs = Inr s \<longleftrightarrow> utf8 bs \<and> as_bytes s = bs"
  by (auto simp: from_utf8_def)

lemma parse_layout:
  assumes "parse_eph_envelope js bytes = Inr env"
  obtains json where "bytes = envelope_bytes (ev_room_id env) json" "length (ev_room_id env) \<le> 65535"
proof -
  define n where "n = unat (of_le_bytes [bytes ! 4, bytes ! 5] :: u16)"
  have len: "6 + n + 1 \<le> length bytes" and magic: "take 4 bytes = EPH_MAGIC"
    and room: "from_utf8 (take n (drop 6 bytes)) = Inr (ev_room_id env)"
    and ty: "bytes ! (6 + n) = EPH_MSG_TYPE_PRESENCE"
    using assms by (auto simp: parse_eph_envelope_def invalid_envelope_def Let_def n_def
        simp del: of_le_bytes.simps split: if_splits sum.splits)
  have room': "as_bytes (ev_room_id env) = take n (drop 6 bytes)"
    using room by (simp add: from_utf8_Inr)
  have "length (as_bytes (ev_room_id env)) = n" unfolding room' using len by simp
  then have n: "length (ev_room_id env) = n" by simp
  have "n < 2 ^ 16" using unsigned_less [of "of_le_bytes [bytes ! 4, bytes ! 5] :: u16"] by (simp add: n_def)
  have "take 2 (drop 4 bytes) = [bytes ! 4, bytes ! 5]"
    using len by (simp add: numeral_2_eq_2 take_Suc_conv_app_nth)
  then have size: "take 2 (drop 4 bytes) = le_bytes 2 (of_nat n :: u16)"
    by (simp add: n_def le_of_bytes_2 del: of_le_bytes.simps)
  have tail: "drop (6 + n) bytes = bytes ! (6 + n) # drop (Suc (6 + n)) bytes"
    by (rule Cons_nth_drop_Suc [symmetric]) (use len in simp)
  have "bytes = take 4 bytes @ take 2 (drop 4 bytes) @ take n (drop 6 bytes) @ drop (6 + n) bytes"
    using append_take_drop_id [of 4 bytes] append_take_drop_id [of 2 "drop 4 bytes"]
      append_take_drop_id [of n "drop 6 bytes"] by (simp add: add.commute)
  also have "\<dots> = envelope_bytes (ev_room_id env) (drop (Suc (6 + n)) bytes)"
    unfolding envelope_bytes_def magic size room' n tail ty by simp
  finally show ?thesis using that n \<open>n < 2 ^ 16\<close> by simp
qed

section \<open>Properties\<close>

text \<open>Property C33 (envelope_format_exact). The parser accepts exactly the byte strings of one layout: the
  magic, the length of the room id in two little-endian bytes, a room id that is well-formed UTF-8, the
  message type and a payload that decodes. It returns that room and that payload, so an accepted string
  has one reading, and nothing is accepted with a room id that is not a valid string.
\<close>

theorem envelope_format_exact:
  "parse_eph_envelope js bytes = Inr env \<longleftrightarrow>
     (\<exists>json. bytes = EPH_MAGIC @ le_bytes 2 (of_nat (length (ev_room_id env)) :: u16) @
          as_bytes (ev_room_id env) @ [EPH_MSG_TYPE_PRESENCE] @ json \<and>
        length (ev_room_id env) \<le> 65535 \<and> utf8 (as_bytes (ev_room_id env)) \<and>
        js_from_slice js json = Inr (ev_payload env))"
  (is "?parses \<longleftrightarrow> (\<exists>json. ?layout json)")
proof
  assume ?parses
  then obtain json where json: "bytes = envelope_bytes (ev_room_id env) json" "length (ev_room_id env) \<le> 65535"
    by (rule parse_layout)
  with \<open>?parses\<close> parse_envelope_bytes [OF json(2), of js json] have "?layout json"
    by (cases env) (auto simp: envelope_bytes_def invalid_envelope_def split: if_splits sum.splits)
  then show "\<exists>json. ?layout json" ..
next
  assume "\<exists>json. ?layout json"
  then obtain json where json: "bytes = envelope_bytes (ev_room_id env) json" "length (ev_room_id env) \<le> 65535"
    "utf8 (as_bytes (ev_room_id env))" "js_from_slice js json = Inr (ev_payload env)"
    by (auto simp: envelope_bytes_def)
  then show ?parses using parse_envelope_bytes [OF json(2), of js json] by simp
qed

text \<open>An envelope is built exactly when the payload encodes and the room
  id has at most 65535 bytes, and it parses back to the room and the payload it was built from.
\<close>

theorem envelope_round_trip:
  assumes "utf8 (as_bytes room)" and "\<And>json. js_to_vec js p = Inr json \<Longrightarrow> js_from_slice js json = Inr p"
  shows "((\<exists>bytes. build_eph_envelope js room p = Inr bytes) \<longleftrightarrow>
      length room \<le> 65535 \<and> (\<exists>json. js_to_vec js p = Inr json)) \<and>
    (build_eph_envelope js room p = Inr bytes \<longrightarrow>
      parse_eph_envelope js bytes = Inr \<lparr>ev_room_id = room, ev_payload = p\<rparr>)"
proof (intro conjI impI)
  show "(\<exists>bytes. build_eph_envelope js room p = Inr bytes) \<longleftrightarrow>
      length room \<le> 65535 \<and> (\<exists>json. js_to_vec js p = Inr json)"
    by (auto simp: build_layout)
next
  assume "build_eph_envelope js room p = Inr bytes"
  then obtain json where json: "length room \<le> 65535" "js_to_vec js p = Inr json" "bytes = envelope_bytes room json"
    by (auto simp: build_layout)
  with assms show "parse_eph_envelope js bytes = Inr \<lparr>ev_room_id = room, ev_payload = p\<rparr>"
    by (simp add: parse_envelope_bytes)
qed

text \<open>A codec that writes the timestamp of a payload, for the witness.\<close>

definition stamp_json :: json_api where
  "stamp_json = \<lparr>js_to_vec = (\<lambda>p. if p = \<lparr>pp_peer_id = 1, pp_active_node = None, pp_cursor_x = 0, pp_cursor_y = 0,
         pp_last_active_ts = ucast (ucast (pp_last_active_ts p) :: u8)\<rparr> then Inr [ucast (pp_last_active_ts p)] else Inl ''no''),
     js_from_slice = (\<lambda>bs. case bs of [b] \<Rightarrow> Inr \<lparr>pp_peer_id = 1, pp_active_node = None, pp_cursor_x = 0,
         pp_cursor_y = 0, pp_last_active_ts = ucast b\<rparr> | _ \<Rightarrow> Inl ''bad'')\<rparr>"

theorem envelope_round_trip_witness:
  "let p = \<lparr>pp_peer_id = 1, pp_active_node = None, pp_cursor_x = 0, pp_cursor_y = 0, pp_last_active_ts = 7\<rparr>;
       bytes = [0x25, 0x45, 0x50, 0x48, 2, 0, 114, 49, 1, 7]
   in build_eph_envelope stamp_json ''r1'' p = Inr bytes \<and>
      parse_eph_envelope stamp_json bytes = Inr \<lparr>ev_room_id = ''r1'', ev_payload = p\<rparr>"
proof -
  let ?p = "\<lparr>pp_peer_id = 1, pp_active_node = None, pp_cursor_x = 0, pp_cursor_y = 0, pp_last_active_ts = 7\<rparr>"
  have ok: "utf8 (as_bytes ''r1'')"
    by (simp add: utf8_def as_bytes_def valid_up_to.simps)
  have js: "js_from_slice stamp_json json = Inr ?p" if "js_to_vec stamp_json ?p = Inr json" for json
    using that by (auto simp: stamp_json_def)
  have b: "build_eph_envelope stamp_json ''r1'' ?p = Inr [0x25, 0x45, 0x50, 0x48, 2, 0, 114, 49, 1, 7]"
    by (simp add: build_eph_envelope_def stamp_json_def as_bytes_def EPH_MAGIC_def EPH_MSG_TYPE_PRESENCE_def
        le_bytes_def upt_rec)
  with envelope_round_trip [OF ok js] show ?thesis unfolding Let_def by blast
qed

section \<open>The registry\<close>

text \<open>Every entry stands under the peer and the vertex it names.\<close>

definition pr_ok :: "'w presence_registry \<Rightarrow> bool" where
  "pr_ok r \<longleftrightarrow> hm_ok (pr_states r) \<and>
     (\<forall>k p. hm_get (pr_states r) k = Some p \<longrightarrow> k = (np_peer_id p, np_vertex_id p))"

lemma pr_upsert_states:
  "pr_states (fst (pr_upsert p (r, w))) = hm_insert (np_peer_id p, np_vertex_id p) p (pr_states r)"
  by (simp add: pr_upsert_def Let_def split: option.split)

lemma pr_ok_new: "pr_ok (pr_new t)"
  by (simp add: pr_ok_def pr_new_def)

lemma pr_ok_upsert: "pr_ok r \<Longrightarrow> pr_ok (fst (pr_upsert p (r, w)))"
  by (auto simp: pr_ok_def pr_upsert_states)

lemma pr_ok_remove: "pr_ok r \<Longrightarrow> pr_ok (pr_remove a b r)"
  by (auto simp: pr_ok_def pr_remove_def split: if_splits)

lemma pr_ok_gc: "pr_ok r \<Longrightarrow> pr_ok (snd (gc_stale now r))"
  by (auto simp: pr_ok_def gc_stale_def Let_def hm_get_retain split: option.splits if_splits)

lemma pr_ok_on_change: "pr_ok r \<Longrightarrow> pr_ok (on_change cb r)"
  by (simp add: pr_ok_def on_change_def)

lemma set_for_node:
  assumes "pr_ok r"
  shows "p \<in> set (for_node v r) \<longleftrightarrow> np_vertex_id p = v \<and> hm_get (pr_states r) (np_peer_id p, v) = Some p"
proof -
  have keys: "hm_get (pr_states r) k = Some p \<longleftrightarrow> (k, p) \<in> set (pr_states r)" for k
    using assms by (simp add: pr_ok_def hm_get_iff)
  have "p \<in> snd ` set (pr_states r) \<longleftrightarrow> (\<exists>k. hm_get (pr_states r) k = Some p)"
    by (force simp: keys image_iff)
  also have "\<dots> \<longleftrightarrow> hm_get (pr_states r) (np_peer_id p, np_vertex_id p) = Some p"
    using assms unfolding pr_ok_def by metis
  finally show ?thesis by (auto simp: for_node_def)
qed

lemma distinct_peers:
  assumes "pr_ok r"
  shows "distinct (map np_peer_id (for_node v r))"
proof -
  have "map fst (pr_states r) = map (\<lambda>p. (np_peer_id p, np_vertex_id p)) (map snd (pr_states r))"
    unfolding map_map by (rule map_cong) (use assms in \<open>auto simp: pr_ok_def hm_get_iff\<close>)
  moreover have "distinct (map fst (pr_states r))" using assms by (simp add: pr_ok_def hm_ok_def)
  ultimately have "distinct (map (\<lambda>p. (np_peer_id p, np_vertex_id p)) (map snd (pr_states r)))" by metis
  then have "distinct (map (\<lambda>p. (np_peer_id p, np_vertex_id p)) (for_node v r))"
    unfolding for_node_def by (rule distinct_map_filter)
  then show ?thesis by (auto simp: distinct_map inj_on_def for_node_def)
qed

lemma stale_cutoff: "saturating_sub now t \<le> s \<longleftrightarrow> unat now \<le> unat s + unat t"
  by (auto simp: word_le_nat_alt unat_saturating_sub)

lemma length_retain: "length (hm_retain q m) \<le> length m"
  by (simp add: hm_retain_def)

text \<open>On a registry built by its operations, garbage collection keeps
  exactly the presences seen no longer ago than the timeout, also when the timeout exceeds the clock, and
  returns how many it dropped. The presences listed for a vertex are then the ones of that vertex that
  are still fresh, at most one for each peer.
\<close>

theorem presence_gc_exact:
  assumes "pr_ok r" and "gc_stale now r = (n, r')"
  shows "pr_ok r' \<and> n + pr_len r' = pr_len r \<and>
    set (for_node v r') = {p \<in> set (for_node v r). unat now \<le> unat (np_last_seen_ms p) + unat (pr_stale_timeout_ms r)} \<and>
    distinct (map np_peer_id (for_node v r'))"
proof (intro conjI)
  let ?keep = "\<lambda>k p. saturating_sub now (pr_stale_timeout_ms r) \<le> np_last_seen_ms p"
  have r': "r' = r\<lparr>pr_states := hm_retain ?keep (pr_states r)\<rparr>" and
    n: "n = length (pr_states r) - length (hm_retain ?keep (pr_states r))"
    using assms(2) by (auto simp: gc_stale_def Let_def)
  show ok: "pr_ok r'" using pr_ok_gc [OF assms(1), of now] assms(2) by simp
  show "n + pr_len r' = pr_len r" using length_retain [of ?keep "pr_states r"] by (simp add: n r' pr_len_def)
  have "hm_ok (pr_states r)" using assms(1) by (simp add: pr_ok_def)
  then have "hm_get (pr_states r') k = Some p \<longleftrightarrow> hm_get (pr_states r) k = Some p \<and>
      unat now \<le> unat (np_last_seen_ms p) + unat (pr_stale_timeout_ms r)" for k p
    by (auto simp: r' hm_get_retain stale_cutoff split: option.splits)
  then show "set (for_node v r') =
      {p \<in> set (for_node v r). unat now \<le> unat (np_last_seen_ms p) + unat (pr_stale_timeout_ms r)}"
    using set_for_node [OF ok] set_for_node [OF assms(1)] by auto
  show "distinct (map np_peer_id (for_node v r'))" by (rule distinct_peers [OF ok])
qed

theorem presence_gc_exact_witness:
  "let mk = (\<lambda>peer seen. \<lparr>np_peer_id = peer, np_vertex_id = ''v'', np_cursor = None, np_selection = None,
         np_last_seen_ms = seen\<rparr>);
       r = fst (pr_upsert (mk ''stale'' 100) (fst (pr_upsert (mk ''fresh'' 1000) (pr_new 500, ())), ()))
   in fst (gc_stale 1200 r) = 1 \<and> set (for_node ''v'' (snd (gc_stale 1200 r))) = {mk ''fresh'' 1000}"
proof -
  let ?mk = "\<lambda>peer seen. \<lparr>np_peer_id = peer, np_vertex_id = ''v'', np_cursor = None, np_selection = None,
       np_last_seen_ms = seen\<rparr>"
  let ?r = "fst (pr_upsert (?mk ''stale'' 100) (fst (pr_upsert (?mk ''fresh'' 1000) (pr_new 500, ())), ()))"
  have ok: "pr_ok ?r" by (intro pr_ok_upsert pr_ok_new)
  have s: "for_node ''v'' ?r = [?mk ''fresh'' 1000, ?mk ''stale'' 100]" "pr_stale_timeout_ms ?r = 500"
    by (simp_all add: for_node_def pr_upsert_def pr_new_def hm_insert_def)
  have n: "fst (gc_stale 1200 ?r) = 1"
    by (simp add: gc_stale_def pr_upsert_def pr_new_def hm_insert_def hm_retain_def saturating_sub_def)
  have "gc_stale 1200 ?r = (fst (gc_stale 1200 ?r), snd (gc_stale 1200 ?r))" by simp
  from presence_gc_exact [OF ok this, of "''v''"] have "set (for_node ''v'' (snd (gc_stale 1200 ?r))) =
      {p \<in> set (for_node ''v'' ?r). unat (1200 :: u64) \<le> unat (np_last_seen_ms p) + unat (pr_stale_timeout_ms ?r)}"
    by blast
  also have "\<dots> = {?mk ''fresh'' 1000}" unfolding s by auto
  finally show ?thesis unfolding Let_def using n by blast
qed

end
