(* ===== verification/Inverted_Index.thy ===== *)
theory Inverted_Index
  imports Prelude "HOL-Library.List_Lexorder" "HOL-Library.Char_ord"
begin

text \<open>
  The full-text index (\<^verbatim>\<open>src/fts/mod.rs\<close>): tokens, postings, document frequencies and lengths, with
  indexing, removal and ranked search. The arithmetic of \<^verbatim>\<open>f64\<close> is the record \<open>f64_ops\<close>. The abstract
  index is a map from documents to their tokens; the operations are shown to keep the tables a function
  of that map.
\<close>

section \<open>Tokens\<close>

text \<open>The characters of a string are the well-formed byte sequences it consists of.\<close>

function str_chars :: "bytes \<Rightarrow> bytes list" where
  "str_chars bs = (if bs = [] then []
     else let n = max 1 (utf8_step bs) in take n bs # str_chars (drop n bs))"
  by pat_completeness auto
termination
  by (relation "measure length") auto

declare str_chars.simps [simp del]

definition is_ascii_alphanumeric :: "u8 \<Rightarrow> bool" where
  "is_ascii_alphanumeric b \<longleftrightarrow> 48 \<le> b \<and> b \<le> 57 \<or> 65 \<le> b \<and> b \<le> 90 \<or> 97 \<le> b \<and> b \<le> 122"

text \<open>The white space of Unicode outside ASCII, which \<^verbatim>\<open>char::is_whitespace\<close> accepts.\<close>

definition unicode_spaces :: "bytes list" where
  "unicode_spaces = [[0xC2, 0x85], [0xC2, 0xA0], [0xE1, 0x9A, 0x80], [0xE2, 0x80, 0x80], [0xE2, 0x80, 0x81],
     [0xE2, 0x80, 0x82], [0xE2, 0x80, 0x83], [0xE2, 0x80, 0x84], [0xE2, 0x80, 0x85], [0xE2, 0x80, 0x86],
     [0xE2, 0x80, 0x87], [0xE2, 0x80, 0x88], [0xE2, 0x80, 0x89], [0xE2, 0x80, 0x8A], [0xE2, 0x80, 0xA8],
     [0xE2, 0x80, 0xA9], [0xE2, 0x80, 0xAF], [0xE2, 0x81, 0x9F], [0xE3, 0x80, 0x80]]"

definition is_delimiter :: "bytes \<Rightarrow> bool" where
  "is_delimiter c = (case c of [b] \<Rightarrow> b < 0x80 \<and> \<not> is_ascii_alphanumeric b | _ \<Rightarrow> c \<in> set unicode_spaces)"

definition ascii_lowercase :: "u8 \<Rightarrow> u8" where
  "ascii_lowercase b = (if 65 \<le> b \<and> b \<le> 90 then b + 32 else b)"

fun split_at_delimiters :: "bytes list \<Rightarrow> bytes list list" where
  "split_at_delimiters [] = [[]]"
| "split_at_delimiters (c # cs) =
     (if is_delimiter c then [] # split_at_delimiters cs
      else case split_at_delimiters cs of t # ts \<Rightarrow> (c # t) # ts | [] \<Rightarrow> [[c]])"

definition tokenize :: "string \<Rightarrow> string list" where
  "tokenize text = map (\<lambda>s. of_bytes (concat (map (map ascii_lowercase) s)))
     (filter (\<lambda>s. s \<noteq> []) (split_at_delimiters (str_chars (as_bytes text))))"

section \<open>Floating point\<close>

datatype ordering = Less | Equal | Greater

record f64_ops =
  f_zero :: f64
  f_one :: f64
  f_tiny :: f64
  f_of_u32 :: "u32 \<Rightarrow> f64"
  f_of_u64 :: "u64 \<Rightarrow> f64"
  f_add :: "f64 \<Rightarrow> f64 \<Rightarrow> f64"
  f_mul :: "f64 \<Rightarrow> f64 \<Rightarrow> f64"
  f_div :: "f64 \<Rightarrow> f64 \<Rightarrow> f64"
  f_ln :: "f64 \<Rightarrow> f64"
  f_abs :: "f64 \<Rightarrow> f64"
  f_max :: "f64 \<Rightarrow> f64 \<Rightarrow> f64"
  f_less :: "f64 \<Rightarrow> f64 \<Rightarrow> bool"
  f_partial_cmp :: "f64 \<Rightarrow> f64 \<Rightarrow> ordering option"

definition ord_of :: "'a::linorder \<Rightarrow> 'a \<Rightarrow> ordering" where
  "ord_of a b = (if a < b then Less else if a = b then Equal else Greater)"

section \<open>Sorted vectors\<close>

text \<open>\<^verbatim>\<open>binary_search\<close> on a sorted slice: the position of the element, or the one where it belongs.\<close>

definition binary_search :: "'a::linorder list \<Rightarrow> 'a \<Rightarrow> nat + nat" where
  "binary_search xs x = (let pos = length (takeWhile (\<lambda>y. y < x) xs)
     in if pos < length xs \<and> xs ! pos = x then Inr pos else Inl pos)"

definition vec_insert :: "nat \<Rightarrow> 'a \<Rightarrow> 'a list \<Rightarrow> 'a list" where
  "vec_insert pos x xs = take pos xs @ x # drop pos xs"

definition vec_remove :: "nat \<Rightarrow> 'a list \<Rightarrow> 'a list" where
  "vec_remove pos xs = take pos xs @ drop (Suc pos) xs"

section \<open>The index\<close>

record inverted_index =
  ix_postings :: "(string, u32 list) hmap"
  ix_doc_freq :: "(string, u32) hmap"
  ix_doc_lengths :: "(u32, u32) hmap"
  ix_indexed_docs :: "(u32, string list) hmap"
  ix_total_docs :: u32
  ix_avg_doc_length :: f64

definition ix_new :: "f64_ops \<Rightarrow> inverted_index" where
  "ix_new fo = \<lparr>ix_postings = [], ix_doc_freq = [], ix_doc_lengths = [], ix_indexed_docs = [],
     ix_total_docs = 0, ix_avg_doc_length = f_zero fo\<rparr>"

definition recompute_avg :: "f64_ops \<Rightarrow> inverted_index \<Rightarrow> inverted_index" where
  "recompute_avg fo ix =
     (if ix_total_docs ix = 0 then ix\<lparr>ix_avg_doc_length := f_zero fo\<rparr>
      else let total = sum_list (map (\<lambda>(d, l). ucast l) (ix_doc_lengths ix)) :: u64
        in ix\<lparr>ix_avg_doc_length := f_div fo (f_of_u64 fo total) (f_of_u32 fo (ix_total_docs ix))\<rparr>)"

text \<open>What \<^verbatim>\<open>remove_doc\<close> does for one term.\<close>

definition drop_term :: "u32 \<Rightarrow> string \<Rightarrow> inverted_index \<Rightarrow> inverted_index" where
  "drop_term doc_id term ix =
     (let ix = (case hm_get (ix_postings ix) term of
            None \<Rightarrow> ix
          | Some v \<Rightarrow>
              (let v' = (case binary_search v doc_id of Inr pos \<Rightarrow> vec_remove pos v | Inl _ \<Rightarrow> v)
               in if v' = [] then ix\<lparr>ix_postings := hm_remove term (ix_postings ix)\<rparr>
                  else ix\<lparr>ix_postings := hm_insert term v' (ix_postings ix)\<rparr>))
      in case hm_get (ix_doc_freq ix) term of
           None \<Rightarrow> ix
         | Some df \<Rightarrow>
             (let df' = (if 0 < df then df - 1 else df)
              in if df' = 0 then ix\<lparr>ix_doc_freq := hm_remove term (ix_doc_freq ix)\<rparr>
                 else ix\<lparr>ix_doc_freq := hm_insert term df' (ix_doc_freq ix)\<rparr>))"

definition remove_doc :: "f64_ops \<Rightarrow> u32 \<Rightarrow> inverted_index \<Rightarrow> inverted_index" where
  "remove_doc fo doc_id ix = (case hm_get (ix_indexed_docs ix) doc_id of
     None \<Rightarrow> ix
   | Some terms \<Rightarrow>
       (let ix = ix\<lparr>ix_indexed_docs := hm_remove doc_id (ix_indexed_docs ix)\<rparr>;
            ix = foldl (\<lambda>ix term. drop_term doc_id term ix) ix terms;
            ix = ix\<lparr>ix_doc_lengths := hm_remove doc_id (ix_doc_lengths ix)\<rparr>;
            ix = (if 0 < ix_total_docs ix then ix\<lparr>ix_total_docs := ix_total_docs ix - 1\<rparr> else ix)
        in recompute_avg fo ix))"

text \<open>What \<^verbatim>\<open>index_doc\<close> does for one term.\<close>

definition add_term :: "u32 \<Rightarrow> string \<Rightarrow> inverted_index \<Rightarrow> inverted_index" where
  "add_term doc_id term ix =
     (let v = (case hm_get (ix_postings ix) term of Some v \<Rightarrow> v | None \<Rightarrow> []);
          pos = (case binary_search v doc_id of Inr p \<Rightarrow> p | Inl e \<Rightarrow> e);
          v' = (if pos = length v \<or> v ! pos \<noteq> doc_id then vec_insert pos doc_id v else v);
          df = (case hm_get (ix_doc_freq ix) term of Some d \<Rightarrow> d | None \<Rightarrow> 0)
      in ix\<lparr>ix_postings := hm_insert term v' (ix_postings ix),
            ix_doc_freq := hm_insert term (df + 1) (ix_doc_freq ix)\<rparr>)"

definition count_terms :: "string list \<Rightarrow> (string, u32) hmap" where
  "count_terms tokens = foldl (\<lambda>m tok. hm_insert tok
     ((case hm_get m tok of Some n \<Rightarrow> n | None \<Rightarrow> 0) + 1) m) [] tokens"

definition index_doc :: "f64_ops \<Rightarrow> u32 \<Rightarrow> string \<Rightarrow> inverted_index \<Rightarrow> inverted_index" where
  "index_doc fo doc_id text ix =
     (let ix = (if hm_get (ix_doc_lengths ix) doc_id \<noteq> None then remove_doc fo doc_id ix else ix);
          tokens = tokenize text;
          token_count = of_nat (length tokens) :: u32
      in if token_count = 0
         then recompute_avg fo (ix\<lparr>ix_doc_lengths := hm_insert doc_id 0 (ix_doc_lengths ix),
           ix_indexed_docs := hm_insert doc_id [] (ix_indexed_docs ix), ix_total_docs := ix_total_docs ix + 1\<rparr>)
         else
           let tf_map = count_terms tokens;
               terms_for_doc = remdups_adj (sort (hm_keys tf_map));
               ix = foldl (\<lambda>ix term. add_term doc_id term ix) ix terms_for_doc
           in recompute_avg fo (ix\<lparr>ix_doc_lengths := hm_insert doc_id token_count (ix_doc_lengths ix),
             ix_indexed_docs := hm_insert doc_id terms_for_doc (ix_indexed_docs ix),
             ix_total_docs := ix_total_docs ix + 1\<rparr>))"

section \<open>Search\<close>

record search_hit =
  hit_doc_id :: u32
  hit_score :: f64

text \<open>The contribution of one term to one document.\<close>

definition contribution :: "f64_ops \<Rightarrow> inverted_index \<Rightarrow> f64 \<Rightarrow> u32 \<Rightarrow> f64" where
  "contribution fo ix idf doc_id =
     (let avg_dl = (if f_less fo (f_zero fo) (ix_avg_doc_length ix) then ix_avg_doc_length ix else f_one fo);
          dl = f_of_u32 fo (case hm_get (ix_doc_lengths ix) doc_id of Some l \<Rightarrow> l | None \<Rightarrow> 0);
          length_norm = f_div fo (f_one fo)
            (f_add fo (f_one fo) (f_max fo (f_abs fo (f_ln fo (f_div fo dl avg_dl))) (f_tiny fo)));
          tf = f_one fo
      in f_mul fo (f_mul fo tf idf) length_norm)"

definition term_idf :: "f64_ops \<Rightarrow> inverted_index \<Rightarrow> u32 \<Rightarrow> f64" where
  "term_idf fo ix df =
     f_add fo (f_ln fo (f_div fo (f_add fo (f_of_u32 fo (ix_total_docs ix)) (f_one fo))
       (f_add fo (f_of_u32 fo df) (f_one fo)))) (f_one fo)"

definition score_term :: "f64_ops \<Rightarrow> inverted_index \<Rightarrow> (u32, f64) hmap \<Rightarrow> string \<Rightarrow> (u32, f64) hmap" where
  "score_term fo ix scores term = (case hm_get (ix_doc_freq ix) term of
     None \<Rightarrow> scores
   | Some df \<Rightarrow> (case hm_get (ix_postings ix) term of
       None \<Rightarrow> scores
     | Some v \<Rightarrow> foldl (\<lambda>scores doc_id. hm_insert doc_id
         (f_add fo (case hm_get scores doc_id of Some s \<Rightarrow> s | None \<Rightarrow> f_zero fo)
           (contribution fo ix (term_idf fo ix df) doc_id)) scores) scores v))"

definition query_scores :: "f64_ops \<Rightarrow> inverted_index \<Rightarrow> string \<Rightarrow> (u32, f64) hmap" where
  "query_scores fo ix query =
     foldl (score_term fo ix) [] (remdups_adj (sort (tokenize query)))"

definition hit_cmp :: "f64_ops \<Rightarrow> search_hit \<Rightarrow> search_hit \<Rightarrow> ordering" where
  "hit_cmp fo a b =
     (case (case f_partial_cmp fo (hit_score b) (hit_score a) of Some c \<Rightarrow> c | None \<Rightarrow> Equal) of
        Equal \<Rightarrow> ord_of (hit_doc_id a) (hit_doc_id b)
      | c \<Rightarrow> c)"

text \<open>\<^verbatim>\<open>sort_by\<close> is a stable sort; for a comparator that is a total order its result is determined.\<close>

fun insert_by :: "('a \<Rightarrow> 'a \<Rightarrow> ordering) \<Rightarrow> 'a \<Rightarrow> 'a list \<Rightarrow> 'a list" where
  "insert_by cmp x [] = [x]"
| "insert_by cmp x (y # ys) = (if cmp x y = Greater then y # insert_by cmp x ys else x # y # ys)"

definition sort_by :: "('a \<Rightarrow> 'a \<Rightarrow> ordering) \<Rightarrow> 'a list \<Rightarrow> 'a list" where
  "sort_by cmp xs = foldr (insert_by cmp) xs []"

definition search :: "f64_ops \<Rightarrow> string \<Rightarrow> nat \<Rightarrow> inverted_index \<Rightarrow> search_hit list" where
  "search fo query limit ix =
     (if tokenize query = [] \<or> ix_total_docs ix = 0 then []
      else let hits = map (\<lambda>(d, s). \<lparr>hit_doc_id = d, hit_score = s\<rparr>) (query_scores fo ix query)
        in take limit (sort_by (hit_cmp fo) hits))"

definition ix_doc_count :: "inverted_index \<Rightarrow> u32" where
  "ix_doc_count ix = ix_total_docs ix"

definition ix_term_count :: "inverted_index \<Rightarrow> nat" where
  "ix_term_count ix = length (ix_postings ix)"

text \<open>The memory report reads the capacities that the allocator chose, and two sizes of the target.\<close>

record ix_capacities =
  cap_posting_key :: "string \<Rightarrow> nat"
  cap_posting_docs :: "string \<Rightarrow> nat"
  cap_freq_key :: "string \<Rightarrow> nat"
  cap_doc_lengths :: nat
  cap_doc_terms :: "u32 \<Rightarrow> string \<Rightarrow> nat"
  size_of_vec :: nat
  size_of_index :: nat

definition memory_usage_bytes :: "ix_capacities \<Rightarrow> inverted_index \<Rightarrow> nat" where
  "memory_usage_bytes c ix =
     (let bytes = 8 + 4;
          bytes = foldl (\<lambda>bytes (term, docs). bytes + (cap_posting_key c term + size_of_vec c + cap_posting_docs c term * 4))
            bytes (ix_postings ix);
          bytes = foldl (\<lambda>bytes term. bytes + (cap_freq_key c term + 4)) bytes (hm_keys (ix_doc_freq ix));
          bytes = bytes + cap_doc_lengths c * (4 + 4);
          bytes = foldl (\<lambda>bytes (d, terms). foldl (\<lambda>bytes t. bytes + cap_doc_terms c d t) (bytes + 4 + size_of_vec c) terms)
            bytes (ix_indexed_docs ix)
      in bytes + size_of_index c)"

lemma foldl_add: "foldl (\<lambda>n x. n + f x) (m :: nat) xs = m + sum_list (map f xs)"
  by (induction xs arbitrary: m) simp_all

text \<open>The report is at least what the entries of the postings and of the document lengths take.\<close>

lemma memory_usage_covers_entries:
  assumes "\<And>t docs. (t, docs) \<in> set (ix_postings ix) \<Longrightarrow> length t \<le> cap_posting_key c t \<and> length docs \<le> cap_posting_docs c t"
    and "length (ix_doc_lengths ix) \<le> cap_doc_lengths c"
  shows "(\<Sum>(t, docs) \<leftarrow> ix_postings ix. length t + 4 * length docs) + 8 * length (ix_doc_lengths ix)
    \<le> memory_usage_bytes c ix"
proof -
  have p: "foldl (\<lambda>n (t, docs). n + (cap_posting_key c t + size_of_vec c + cap_posting_docs c t * 4)) m ps =
      m + (\<Sum>(t, docs) \<leftarrow> ps. cap_posting_key c t + size_of_vec c + cap_posting_docs c t * 4)"
    for m and ps :: "(string \<times> u32 list) list"
    by (induction ps arbitrary: m) auto
  have d: "m \<le> foldl (\<lambda>n (d, terms). n + 4 + size_of_vec c + sum_list (map (cap_doc_terms c d) terms)) m ds"
    for m and ds :: "(u32 \<times> string list) list"
  proof (induction ds arbitrary: m)
    case (Cons x ds)
    have "m \<le> m + 4 + size_of_vec c + sum_list (map (cap_doc_terms c (fst x)) (snd x))" by simp
    from order_trans [OF this Cons.IH] show ?case by (cases x) simp
  qed simp
  have "(\<Sum>(t, docs) \<leftarrow> ix_postings ix. length t + 4 * length docs) \<le>
      (\<Sum>(t, docs) \<leftarrow> ix_postings ix. cap_posting_key c t + size_of_vec c + cap_posting_docs c t * 4)"
    by (rule sum_list_mono) (use assms(1) in fastforce)
  then show ?thesis
    using assms(2) unfolding memory_usage_bytes_def Let_def p foldl_add
    by (intro order_trans [OF _ trans_le_add1 [OF d]]) simp
qed

section \<open>Lemmas on sorted vectors\<close>

lemma vec_insert_insort: "vec_insert (length (takeWhile (\<lambda>y. y < x) xs)) x xs = insort x xs"
  by (induction xs) (auto simp: vec_insert_def)

lemma vec_remove_at:
  "sorted_wrt (<) xs \<Longrightarrow> x \<in> set xs \<Longrightarrow> length (takeWhile (\<lambda>y. y < x) xs) < length xs \<and>
     xs ! length (takeWhile (\<lambda>y. y < x) xs) = x \<and>
     vec_remove (length (takeWhile (\<lambda>y. y < x) xs)) xs = remove1 x (xs :: 'a::linorder list)"
  by (induction xs) (auto simp: vec_remove_def)

lemma binary_search_found:
  assumes "finite S" and "x \<in> S"
  obtains pos where "binary_search (sorted_list_of_set S) x = Inr pos"
    "vec_remove pos (sorted_list_of_set S) = sorted_list_of_set (S - {x})"
  using vec_remove_at [of "sorted_list_of_set S" x] assms that
  by (simp add: binary_search_def Let_def sorted_list_of_set_remove)

lemma binary_search_missing:
  assumes "finite S" and "x \<notin> S"
  obtains pos where "binary_search (sorted_list_of_set S) x = Inl pos"
    "pos = length (sorted_list_of_set S) \<or> sorted_list_of_set S ! pos \<noteq> x"
    "vec_insert pos x (sorted_list_of_set S) = sorted_list_of_set (insert x S)"
proof -
  let ?xs = "sorted_list_of_set S"
  let ?pos = "length (takeWhile (\<lambda>y. y < x) ?xs)"
  have le: "?pos \<le> length ?xs" by (rule length_takeWhile_le)
  have ne: "?pos < length ?xs \<Longrightarrow> ?xs ! ?pos \<noteq> x"
    using assms nth_mem [of ?pos ?xs] by auto
  show ?thesis
  proof (rule that)
    show "binary_search ?xs x = Inl ?pos" using ne by (auto simp: binary_search_def Let_def)
    show "?pos = length ?xs \<or> ?xs ! ?pos \<noteq> x" using le ne by linarith
    show "vec_insert ?pos x ?xs = sorted_list_of_set (insert x S)"
      using assms by (simp add: vec_insert_insort sorted_list_of_set_insert)
  qed
qed

section \<open>The tables as a function of the documents\<close>

definition entry :: "u32 set \<Rightarrow> u32 list option" where
  "entry S = (if S = {} then None else Some (sorted_list_of_set S))"

definition freq :: "u32 set \<Rightarrow> u32 option" where
  "freq S = (if S = {} then None else Some (of_nat (card S)))"

text \<open>\<open>S t\<close> are the documents of term \<open>t\<close>.\<close>

definition tables :: "inverted_index \<Rightarrow> (string \<Rightarrow> u32 set) \<Rightarrow> bool" where
  "tables ix S \<longleftrightarrow> hm_ok (ix_postings ix) \<and> hm_ok (ix_doc_freq ix) \<and>
     (\<forall>t. hm_get (ix_postings ix) t = entry (S t) \<and> hm_get (ix_doc_freq ix) t = freq (S t))"

lemma card_word_less: "(S :: u32 set) \<noteq> UNIV \<Longrightarrow> card S < 2 ^ 32"
  using psubset_card_mono [of "UNIV :: u32 set" S] by (auto simp: card_word)

lemma unat_card: "(S :: u32 set) \<noteq> UNIV \<Longrightarrow> unat (of_nat (card S) :: u32) = card S"
  using card_word_less [of S] by (simp add: unat_of_nat take_bit_eq_mod)

lemma of_nat_card_eq_0: "(S :: u32 set) \<noteq> UNIV \<Longrightarrow> (of_nat (card S) :: u32) = 0 \<longleftrightarrow> S = {}"
  using unat_card [of S] by (metis card_0_eq finite of_nat_0 unat_eq_zero)

lemma tables_add:
  assumes "tables ix S" and "d \<notin> S t" and "insert d (S t) \<noteq> UNIV"
  shows "tables (add_term d t ix) (S(t := insert d (S t)))"
proof -
  let ?v = "case hm_get (ix_postings ix) t of Some v \<Rightarrow> v | None \<Rightarrow> []"
  have v: "?v = sorted_list_of_set (S t)" using assms(1) by (simp add: tables_def entry_def)
  obtain pos where pos: "binary_search (sorted_list_of_set (S t)) d = Inl pos"
    "pos = length (sorted_list_of_set (S t)) \<or> sorted_list_of_set (S t) ! pos \<noteq> d"
    "vec_insert pos d (sorted_list_of_set (S t)) = sorted_list_of_set (insert d (S t))"
    by (rule binary_search_missing [of "S t" d]) (use assms(2) in auto)
  have "(case hm_get (ix_doc_freq ix) t of Some d \<Rightarrow> d | None \<Rightarrow> 0) = of_nat (card (S t))"
    using assms(1) by (simp add: tables_def freq_def)
  then have "add_term d t ix = ix\<lparr>ix_postings := hm_insert t (sorted_list_of_set (insert d (S t))) (ix_postings ix),
      ix_doc_freq := hm_insert t (of_nat (card (insert d (S t)))) (ix_doc_freq ix)\<rparr>"
    using pos assms(2) by (simp add: add_term_def v Let_def add.commute)
  with assms(1) show ?thesis by (auto simp: tables_def entry_def freq_def)
qed

lemma tables_drop:
  assumes "tables ix S" and "d \<in> S t" and "S t \<noteq> UNIV"
  shows "tables (drop_term d t ix) (S(t := S t - {d}))"
proof -
  obtain pos where pos: "binary_search (sorted_list_of_set (S t)) d = Inr pos"
    "vec_remove pos (sorted_list_of_set (S t)) = sorted_list_of_set (S t - {d})"
    by (rule binary_search_found [of "S t" d]) (use assms(2) in auto)
  have g: "hm_get (ix_postings ix) t = Some (sorted_list_of_set (S t))"
    "hm_get (ix_doc_freq ix) t = Some (of_nat (card (S t)))"
    using assms(1,2) by (auto simp: tables_def entry_def freq_def)
  have pos0: "0 < (of_nat (card (S t)) :: u32)"
    using of_nat_card_eq_0 [OF assms(3)] assms(2) by (auto simp: word_neq_0_conv)
  have "card (S t) = Suc (card (S t - {d}))" using assms(2) by (metis card_Suc_Diff1 finite)
  then have df: "(of_nat (card (S t)) - 1 :: u32) = of_nat (card (S t - {d}))" by simp
  have e: "S t - {d} \<noteq> UNIV" by auto
  show ?thesis
    using assms(1) pos pos0 df of_nat_card_eq_0 [OF e]
    by (auto simp: drop_term_def g tables_def entry_def freq_def Let_def sorted_list_of_set_eq_Nil_iff)
qed

lemma tables_add_all:
  "tables ix S \<Longrightarrow> distinct ts \<Longrightarrow> \<forall>t \<in> set ts. d \<notin> S t \<and> insert d (S t) \<noteq> UNIV \<Longrightarrow>
     tables (foldl (\<lambda>ix t. add_term d t ix) ix ts) (\<lambda>t. if t \<in> set ts then insert d (S t) else S t)"
proof (induction ts arbitrary: ix S)
  case (Cons t ts)
  have t1: "tables (add_term d t ix) (S(t := insert d (S t)))" using Cons.prems by (intro tables_add) auto
  have t2: "\<forall>u \<in> set ts. d \<notin> (S(t := insert d (S t))) u \<and> insert d ((S(t := insert d (S t))) u) \<noteq> UNIV"
    using Cons.prems(2,3) by (metis distinct.simps(2) fun_upd_apply list.set_intros(2))
  have "tables (foldl (\<lambda>ix t. add_term d t ix) ix (t # ts))
      (\<lambda>u. if u \<in> set ts then insert d ((S(t := insert d (S t))) u) else (S(t := insert d (S t))) u)"
    using Cons.IH [OF t1 _ t2] Cons.prems(2) by simp
  moreover have "(\<lambda>u. if u \<in> set ts then insert d ((S(t := insert d (S t))) u) else (S(t := insert d (S t))) u) =
      (\<lambda>u. if u \<in> set (t # ts) then insert d (S u) else S u)"
    using Cons.prems(2) by (auto simp: fun_eq_iff)
  ultimately show ?case by metis
qed simp

lemma tables_drop_all:
  "tables ix S \<Longrightarrow> distinct ts \<Longrightarrow> \<forall>t \<in> set ts. d \<in> S t \<and> S t \<noteq> UNIV \<Longrightarrow>
     tables (foldl (\<lambda>ix t. drop_term d t ix) ix ts) (\<lambda>t. if t \<in> set ts then S t - {d} else S t)"
proof (induction ts arbitrary: ix S)
  case (Cons t ts)
  have t1: "tables (drop_term d t ix) (S(t := S t - {d}))" using Cons.prems by (intro tables_drop) auto
  have t2: "\<forall>u \<in> set ts. d \<in> (S(t := S t - {d})) u \<and> (S(t := S t - {d})) u \<noteq> UNIV"
    using Cons.prems(2,3) by (metis distinct.simps(2) fun_upd_apply list.set_intros(2))
  have "tables (foldl (\<lambda>ix t. drop_term d t ix) ix (t # ts))
      (\<lambda>u. if u \<in> set ts then (S(t := S t - {d})) u - {d} else (S(t := S t - {d})) u)"
    using Cons.IH [OF t1 _ t2] Cons.prems(2) by simp
  moreover have "(\<lambda>u. if u \<in> set ts then (S(t := S t - {d})) u - {d} else (S(t := S t - {d})) u) =
      (\<lambda>u. if u \<in> set (t # ts) then S u - {d} else S u)"
    using Cons.prems(2) by (auto simp: fun_eq_iff)
  ultimately show ?case by metis
qed simp

section \<open>Documents\<close>

definition docs_with :: "(u32 \<Rightarrow> string list option) \<Rightarrow> string \<Rightarrow> u32 set" where
  "docs_with D t = {d. \<exists>tokens. D d = Some tokens \<and> t \<in> set tokens}"

definition mean_length :: "f64_ops \<Rightarrow> (u32 \<Rightarrow> string list option) \<Rightarrow> f64" where
  "mean_length fo D = (if dom D = {} then f_zero fo
     else f_div fo (f_of_u64 fo (\<Sum>d \<in> dom D. ucast (of_nat (length (the (D d))) :: u32)))
       (f_of_u32 fo (of_nat (card (dom D)))))"

text \<open>The index holds the documents \<open>D\<close>, every table computed from them.\<close>

definition index_of :: "f64_ops \<Rightarrow> inverted_index \<Rightarrow> (u32 \<Rightarrow> string list option) \<Rightarrow> bool" where
  "index_of fo ix D \<longleftrightarrow> tables ix (docs_with D) \<and> hm_ok (ix_doc_lengths ix) \<and> hm_ok (ix_indexed_docs ix) \<and>
     (\<forall>d. hm_get (ix_doc_lengths ix) d = map_option (\<lambda>tokens. of_nat (length tokens)) (D d)) \<and>
     (\<forall>d. hm_get (ix_indexed_docs ix) d = map_option (\<lambda>tokens. sorted_list_of_set (set tokens)) (D d)) \<and>
     ix_total_docs ix = of_nat (card (dom D)) \<and> ix_avg_doc_length ix = mean_length fo D"

lemma index_of_new: "index_of fo (ix_new fo) (\<lambda>d. None)"
  by (simp add: index_of_def ix_new_def tables_def entry_def freq_def docs_with_def mean_length_def)

lemma sum_hmap:
  assumes "hm_ok m"
  shows "sum_list (map (\<lambda>(k, v). f v) m) = (\<Sum>k \<in> {k. hm_get m k \<noteq> None}. f (the (hm_get m k)) :: 'a::comm_monoid_add)"
  using assms
proof (induction m)
  case (Cons kv m)
  obtain k v where kv: "kv = (k, v)" by (cases kv)
  have k: "hm_get m k = None" using Cons.prems kv by (auto simp: hm_get_None_iff hm_keys_def hm_ok_def)
  have "finite {k'. hm_get m k' \<noteq> None}"
    by (rule finite_subset [of _ "set (hm_keys m)"]) (auto simp: hm_get_None_iff)
  moreover have "{k'. hm_get (kv # m) k' \<noteq> None} = insert k {k'. hm_get m k' \<noteq> None}" by (auto simp: kv)
  moreover have "(\<Sum>k' \<in> {k'. hm_get m k' \<noteq> None}. f (the (hm_get (kv # m) k'))) =
      (\<Sum>k' \<in> {k'. hm_get m k' \<noteq> None}. f (the (hm_get m k')))"
    by (rule sum.cong) (auto simp: kv k)
  ultimately show ?case using Cons kv k by (simp add: hm_ok_def)
qed simp

lemma recompute_avg_mean:
  assumes "hm_ok (ix_doc_lengths ix)" and "dom D \<noteq> UNIV"
    and "\<And>d. hm_get (ix_doc_lengths ix) d = map_option (\<lambda>tokens. of_nat (length tokens)) (D d)"
    and "ix_total_docs ix = of_nat (card (dom D))"
  shows "recompute_avg fo ix = ix\<lparr>ix_avg_doc_length := mean_length fo D\<rparr>"
proof -
  have "{d. hm_get (ix_doc_lengths ix) d \<noteq> None} = dom D" by (auto simp: assms(3))
  then have "sum_list (map (\<lambda>(d, l). ucast l) (ix_doc_lengths ix)) =
      (\<Sum>d \<in> dom D. ucast (the (hm_get (ix_doc_lengths ix) d)) :: u64)"
    using sum_hmap [OF assms(1), of "\<lambda>l. ucast l :: u64"] by simp
  also have "\<dots> = (\<Sum>d \<in> dom D. ucast (of_nat (length (the (D d))) :: u32))"
    by (rule sum.cong) (auto simp: assms(3))
  finally show ?thesis
    using of_nat_card_eq_0 [OF assms(2)] by (simp add: recompute_avg_def mean_length_def assms(4) Let_def)
qed

text \<open>The loops over the terms touch the two term tables only.\<close>

lemma term_loops_other:
  "ix_doc_lengths (foldl (\<lambda>ix t. add_term d t ix) ix ts) = ix_doc_lengths ix"
  "ix_indexed_docs (foldl (\<lambda>ix t. add_term d t ix) ix ts) = ix_indexed_docs ix"
  "ix_total_docs (foldl (\<lambda>ix t. add_term d t ix) ix ts) = ix_total_docs ix"
  "ix_doc_lengths (foldl (\<lambda>ix t. drop_term d t ix) ix ts) = ix_doc_lengths ix"
  "ix_indexed_docs (foldl (\<lambda>ix t. drop_term d t ix) ix ts) = ix_indexed_docs ix"
  "ix_total_docs (foldl (\<lambda>ix t. drop_term d t ix) ix ts) = ix_total_docs ix"
  by (induction ts arbitrary: ix) (simp_all add: add_term_def drop_term_def Let_def split: option.split)

lemma docs_with_subset: "docs_with D t \<subseteq> dom D"
  by (auto simp: docs_with_def)

lemma tables_fields:
  "tables (ix\<lparr>ix_doc_lengths := a\<rparr>) S = tables ix S" "tables (ix\<lparr>ix_indexed_docs := b\<rparr>) S = tables ix S"
  "tables (ix\<lparr>ix_total_docs := c\<rparr>) S = tables ix S" "tables (ix\<lparr>ix_avg_doc_length := e\<rparr>) S = tables ix S"
  by (simp_all add: tables_def)

lemma index_of_remove:
  assumes "index_of fo ix D" and "dom D \<noteq> UNIV"
  shows "index_of fo (remove_doc fo d ix) (D(d := None))"
proof (cases "D d")
  case None
  then have "remove_doc fo d ix = ix" "D(d := None) = D"
    using assms(1) by (auto simp: remove_doc_def index_of_def)
  with assms(1) show ?thesis by simp
next
  case (Some tokens)
  let ?ts = "sorted_list_of_set (set tokens)" and ?D = "D(d := None)"
  let ?ix1 = "ix\<lparr>ix_indexed_docs := hm_remove d (ix_indexed_docs ix)\<rparr>"
  let ?ix2 = "foldl (\<lambda>ix t. drop_term d t ix) ?ix1 ?ts"
  let ?ix3 = "?ix2\<lparr>ix_doc_lengths := hm_remove d (ix_doc_lengths ?ix2)\<rparr>"
  let ?ix4 = "?ix3\<lparr>ix_total_docs := ix_total_docs ix - 1\<rparr>"
  have ix: "tables ix (docs_with D)" "hm_ok (ix_doc_lengths ix)" "hm_ok (ix_indexed_docs ix)"
    "\<And>d. hm_get (ix_doc_lengths ix) d = map_option (\<lambda>tokens. of_nat (length tokens)) (D d)"
    "\<And>d. hm_get (ix_indexed_docs ix) d = map_option (\<lambda>tokens. sorted_list_of_set (set tokens)) (D d)"
    "ix_total_docs ix = of_nat (card (dom D))"
    using assms(1) by (auto simp: index_of_def)
  have "tables ?ix2 (\<lambda>t. if t \<in> set ?ts then docs_with D t - {d} else docs_with D t)"
  proof (rule tables_drop_all)
    show "tables ?ix1 (docs_with D)" using ix(1) by (simp add: tables_fields)
    show "\<forall>t \<in> set ?ts. d \<in> docs_with D t \<and> docs_with D t \<noteq> UNIV"
      using Some docs_with_subset [of D] assms(2) by (auto simp: docs_with_def)
  qed simp
  moreover have "(\<lambda>t. if t \<in> set ?ts then docs_with D t - {d} else docs_with D t) = docs_with ?D"
    using Some by (auto simp: docs_with_def fun_eq_iff)
  ultimately have t: "tables ?ix4 (docs_with ?D)" by (simp add: tables_fields)
  have "card (dom D) = Suc (card (dom D - {d}))" by (rule card.remove) (use Some in auto)
  then have card: "card (dom D) = Suc (card (dom ?D))" by simp
  have pos: "0 < ix_total_docs ix"
    using of_nat_card_eq_0 [OF assms(2)] Some ix(6) by (auto simp: word_neq_0_conv)
  have rm: "remove_doc fo d ix = recompute_avg fo ?ix4"
    using Some pos by (simp add: remove_doc_def ix(5) Let_def term_loops_other)
  have ne: "dom ?D \<noteq> UNIV" by auto
  have len: "\<And>e. hm_get (ix_doc_lengths ?ix4) e = map_option (\<lambda>tokens. of_nat (length tokens)) (?D e)"
    by (simp add: term_loops_other ix(4))
  have tot: "ix_total_docs ?ix4 = of_nat (card (dom ?D))" by (simp add: ix(6) card del: dom_fun_upd)
  have "recompute_avg fo ?ix4 = ?ix4\<lparr>ix_avg_doc_length := mean_length fo ?D\<rparr>"
    by (rule recompute_avg_mean) (use ne len tot ix(2) in \<open>simp_all add: term_loops_other del: dom_fun_upd\<close>)
  then show ?thesis
    unfolding rm index_of_def using t len tot ix(2,3,5)
    by (simp add: tables_fields term_loops_other del: dom_fun_upd)
qed

lemma count_terms_keys: "hm_ok (count_terms tokens) \<and> set (hm_keys (count_terms tokens)) = set tokens"
  unfolding count_terms_def
  by (induction tokens rule: rev_induct) (simp add: hm_keys_def, simp)

lemma terms_of_tokens:
  "remdups_adj (sort (hm_keys (count_terms tokens))) = sorted_list_of_set (set tokens)"
proof -
  have d: "distinct (hm_keys (count_terms tokens))" and s: "set (hm_keys (count_terms tokens)) = set tokens"
    using count_terms_keys [of tokens] by (auto simp: hm_ok_def hm_keys_def)
  have "remdups_adj (sort (hm_keys (count_terms tokens))) = sort (hm_keys (count_terms tokens))"
    using d by (intro remdups_adj_distinct) simp
  also have "\<dots> = sorted_list_of_set (set tokens)"
    unfolding s [symmetric] sorted_list_of_set_sort_remdups using d by (simp add: distinct_remdups_id)
  finally show ?thesis .
qed

lemma index_of_fresh:
  assumes "index_of fo ix D" and "D d = None" and "insert d (dom D) \<noteq> UNIV" and "length (tokenize text) < 2 ^ 32"
  shows "index_of fo (index_doc fo d text ix) (D(d \<mapsto> tokenize text))"
proof -
  let ?ts = "sorted_list_of_set (set (tokenize text))" and ?D = "D(d \<mapsto> tokenize text)"
  let ?n = "of_nat (length (tokenize text)) :: u32"
  let ?ix1 = "foldl (\<lambda>ix t. add_term d t ix) ix ?ts"
  let ?ix2 = "?ix1\<lparr>ix_doc_lengths := hm_insert d ?n (ix_doc_lengths ix),
      ix_indexed_docs := hm_insert d ?ts (ix_indexed_docs ix), ix_total_docs := ix_total_docs ix + 1\<rparr>"
  have ix: "tables ix (docs_with D)" "hm_ok (ix_doc_lengths ix)" "hm_ok (ix_indexed_docs ix)"
    "\<And>d. hm_get (ix_doc_lengths ix) d = map_option (\<lambda>tokens. of_nat (length tokens)) (D d)"
    "\<And>d. hm_get (ix_indexed_docs ix) d = map_option (\<lambda>tokens. sorted_list_of_set (set tokens)) (D d)"
    "ix_total_docs ix = of_nat (card (dom D))"
    using assms(1) by (auto simp: index_of_def)
  have n: "?n = 0 \<longleftrightarrow> tokenize text = []"
  proof -
    have "unat ?n = length (tokenize text)" using assms(4) by (simp add: unat_of_nat take_bit_eq_mod)
    then show ?thesis by (metis length_0_conv unat_eq_zero)
  qed
  have "tables ?ix1 (\<lambda>t. if t \<in> set ?ts then insert d (docs_with D t) else docs_with D t)"
  proof (rule tables_add_all)
    show "\<forall>t \<in> set ?ts. d \<notin> docs_with D t \<and> insert d (docs_with D t) \<noteq> UNIV"
      using assms(2,3) docs_with_subset [of D] by (auto simp: docs_with_def)
  qed (use ix(1) in simp_all)
  moreover have "(\<lambda>t. if t \<in> set ?ts then insert d (docs_with D t) else docs_with D t) = docs_with ?D"
    using assms(2) by (auto simp: docs_with_def fun_eq_iff)
  ultimately have "tables ?ix1 (docs_with ?D)" by metis
  then have t: "tables ?ix2 (docs_with ?D)" by (simp only: tables_fields)
  have id: "index_doc fo d text ix = recompute_avg fo ?ix2"
  proof (cases "tokenize text = []")
    case True
    then show ?thesis using ix(4) [of d] assms(2) by (simp add: index_doc_def Let_def)
  next
    case False
    then show ?thesis using ix(4) [of d] assms(2) n by (simp add: index_doc_def Let_def terms_of_tokens term_loops_other)
  qed
  have ne: "dom ?D \<noteq> UNIV" using assms(3) by simp
  have len: "\<And>e. hm_get (ix_doc_lengths ?ix2) e = map_option (\<lambda>tokens. of_nat (length tokens)) (?D e)"
    by (simp add: ix(4))
  have "card (dom ?D) = Suc (card (dom D))" using assms(2) by (simp add: domIff)
  then have tot: "ix_total_docs ?ix2 = of_nat (card (dom ?D))" by (simp add: ix(6) add.commute del: dom_fun_upd)
  have "recompute_avg fo ?ix2 = ?ix2\<lparr>ix_avg_doc_length := mean_length fo ?D\<rparr>"
    by (rule recompute_avg_mean) (use ne len tot ix(2) in \<open>simp_all del: dom_fun_upd\<close>)
  then show ?thesis
    unfolding id index_of_def using t len tot ix(2,3,5) by (simp add: tables_fields del: dom_fun_upd)
qed

lemma index_of_index:
  assumes "index_of fo ix D" and "insert d (dom D) \<noteq> UNIV" and "length (tokenize text) < 2 ^ 32"
  shows "index_of fo (index_doc fo d text ix) (D(d \<mapsto> tokenize text))"
proof (cases "D d")
  case None
  with assms show ?thesis by (intro index_of_fresh)
next
  case (Some tokens)
  let ?ix = "remove_doc fo d ix"
  have r: "index_of fo ?ix (D(d := None))"
    using assms(1,2) Some by (intro index_of_remove) (auto simp: insert_absorb domI)
  have "hm_get (ix_doc_lengths ix) d \<noteq> None" "hm_get (ix_doc_lengths ?ix) d = None"
    using assms(1) r Some by (simp_all add: index_of_def)
  then have "index_doc fo d text ix = index_doc fo d text ?ix" by (simp add: index_doc_def)
  moreover have "index_of fo (index_doc fo d text ?ix) ((D(d := None))(d \<mapsto> tokenize text))"
    by (rule index_of_fresh [OF r]) (use assms(2,3) in auto)
  ultimately show ?thesis by simp
qed

section \<open>Search over the tables\<close>

lemma keys_score_postings:
  "set (hm_keys (foldl (\<lambda>scores d. hm_insert d (f scores d) scores) scores v)) = set (hm_keys scores) \<union> set v"
  "hm_ok scores \<Longrightarrow> hm_ok (foldl (\<lambda>scores d. hm_insert d (f scores d) scores) scores v)"
  by (induction v arbitrary: scores) auto

lemma score_term_keys:
  assumes "index_of fo ix D" and "hm_ok scores"
  shows "hm_ok (score_term fo ix scores t) \<and>
    set (hm_keys (score_term fo ix scores t)) = set (hm_keys scores) \<union> docs_with D t"
proof -
  have g: "hm_get (ix_postings ix) t = entry (docs_with D t)" "hm_get (ix_doc_freq ix) t = freq (docs_with D t)"
    using assms(1) by (simp_all add: index_of_def tables_def)
  show ?thesis using assms(2) by (auto simp: score_term_def g entry_def freq_def keys_score_postings)
qed

lemma query_scores_keys:
  assumes "index_of fo ix D"
  shows "hm_ok (query_scores fo ix q) \<and>
    set (hm_keys (query_scores fo ix q)) = {d. \<exists>tokens. D d = Some tokens \<and> set tokens \<inter> set (tokenize q) \<noteq> {}}"
proof -
  have "hm_ok scores \<Longrightarrow> hm_ok (foldl (score_term fo ix) scores ts) \<and>
      set (hm_keys (foldl (score_term fo ix) scores ts)) = set (hm_keys scores) \<union> (\<Union>t \<in> set ts. docs_with D t)"
    for scores ts
    by (induction ts arbitrary: scores) (auto simp: score_term_keys [OF assms])
  from this [of "[]" "remdups_adj (sort (tokenize q))"] show ?thesis
    by (auto simp: query_scores_def docs_with_def hm_keys_def)
qed

lemma set_insert_by: "set (insert_by cmp x xs) = insert x (set xs)" "length (insert_by cmp x xs) = Suc (length xs)"
  by (induction xs) auto

lemma distinct_insert_by: "distinct (map f (insert_by cmp x xs)) = (f x \<notin> f ` set xs \<and> distinct (map f xs))"
  by (induction xs) (auto simp: set_insert_by)

lemma set_sort_by: "set (sort_by cmp xs) = set xs" "length (sort_by cmp xs) = length xs"
  "distinct (map f (sort_by cmp xs)) = distinct (map f xs)"
  unfolding sort_by_def by (induction xs) (auto simp: set_insert_by distinct_insert_by)

text \<open>A comparator that compares by a key into a linear order sorts by that key.\<close>

lemma sorted_insert_by:
  assumes cmp: "\<And>a b. a \<in> A \<Longrightarrow> b \<in> A \<Longrightarrow> cmp a b = Greater \<longleftrightarrow> lt b a"
    and asym: "\<And>a b. lt a b \<Longrightarrow> \<not> lt b a" and trans: "\<And>a b c. \<not> lt b a \<Longrightarrow> \<not> lt c b \<Longrightarrow> \<not> lt c a"
  shows "sorted_wrt (\<lambda>a b. \<not> lt b a) ys \<Longrightarrow> x \<in> A \<Longrightarrow> set ys \<subseteq> A \<Longrightarrow>
    sorted_wrt (\<lambda>a b. \<not> lt b a) (insert_by cmp x ys)"
proof (induction ys)
  case (Cons y ys)
  show ?case
  proof (cases "lt y x")
    case True
    with Cons cmp [of x y] asym [OF True] show ?thesis by (simp add: set_insert_by)
  next
    case False
    then have "\<not> lt z x" if "z \<in> set ys" for z using trans Cons.prems(1) that by auto
    with Cons False cmp [of x y] show ?thesis by simp
  qed
qed simp

lemma sorted_sort_by:
  assumes "\<And>a b. a \<in> set xs \<Longrightarrow> b \<in> set xs \<Longrightarrow> cmp a b = Greater \<longleftrightarrow> lt b a"
    and "\<And>a b. lt a b \<Longrightarrow> \<not> lt b a" and "\<And>a b c. \<not> lt b a \<Longrightarrow> \<not> lt c b \<Longrightarrow> \<not> lt c a"
  shows "sorted_wrt (\<lambda>a b. \<not> lt b a) (sort_by cmp xs)"
proof -
  have "sorted_wrt (\<lambda>a b. \<not> lt b a) (sort_by cmp ys)" if "set ys \<subseteq> set xs" for ys
    using that
  proof (induction ys)
    case (Cons y ys)
    then show ?case
      using sorted_insert_by [where A = "set xs" and ys = "sort_by cmp ys" and x = y, OF assms]
      by (simp add: sort_by_def set_sort_by [unfolded sort_by_def])
  qed (simp add: sort_by_def)
  then show ?thesis by simp
qed

text \<open>Scores that are numbers: the comparison of the two is the one of their values.\<close>

definition comparable :: "f64_ops \<Rightarrow> (f64 \<Rightarrow> int) \<Rightarrow> f64 set \<Rightarrow> bool" where
  "comparable fo val S \<longleftrightarrow> (\<forall>a \<in> S. \<forall>b \<in> S. f_partial_cmp fo a b = Some (ord_of (val a) (val b)))"

lemma hit_cmp_Greater:
  assumes "comparable fo val (hit_score ` H)" and "a \<in> H" and "b \<in> H"
  shows "hit_cmp fo a b = Greater \<longleftrightarrow> val (hit_score a) < val (hit_score b) \<or>
    val (hit_score a) = val (hit_score b) \<and> hit_doc_id b < hit_doc_id a"
  using assms by (auto simp: hit_cmp_def comparable_def ord_of_def)

section \<open>Histories\<close>

datatype ix_op = Index u32 string | Unindex u32

primrec ix_apply :: "f64_ops \<Rightarrow> ix_op \<Rightarrow> inverted_index \<Rightarrow> inverted_index" where
  "ix_apply fo (Index d text) ix = index_doc fo d text ix"
| "ix_apply fo (Unindex d) ix = remove_doc fo d ix"

primrec docs_apply :: "ix_op \<Rightarrow> (u32 \<Rightarrow> string list option) \<Rightarrow> u32 \<Rightarrow> string list option" where
  "docs_apply (Index d text) D = D(d \<mapsto> tokenize text)"
| "docs_apply (Unindex d) D = D(d := None)"

primrec op_doc :: "ix_op \<Rightarrow> u32" where
  "op_doc (Index d text) = d"
| "op_doc (Unindex d) = d"

primrec op_fits :: "ix_op \<Rightarrow> bool" where
  "op_fits (Index d text) \<longleftrightarrow> length (tokenize text) < 2 ^ 32"
| "op_fits (Unindex d) \<longleftrightarrow> True"

lemma index_of_run:
  "index_of fo ix D \<Longrightarrow> \<forall>op \<in> set ops. op_fits op \<Longrightarrow> dom D \<union> op_doc ` set ops \<noteq> UNIV \<Longrightarrow>
     index_of fo (fold (ix_apply fo) ops ix) (fold docs_apply ops D) \<and>
     dom (fold docs_apply ops D) \<subseteq> dom D \<union> op_doc ` set ops"
proof (induction ops arbitrary: ix D)
  case (Cons op ops)
  have ne: "insert (op_doc op) (dom D) \<noteq> UNIV" using Cons.prems(3) by auto
  have step: "index_of fo (ix_apply fo op ix) (docs_apply op D)"
    using Cons.prems(1,2) ne by (cases op) (auto intro!: index_of_index index_of_remove)
  have sub: "dom (docs_apply op D) \<subseteq> insert (op_doc op) (dom D)" by (cases op) (auto split: if_splits)
  have "dom (docs_apply op D) \<union> op_doc ` set ops \<subseteq> dom D \<union> op_doc ` set (op # ops)" using sub by auto
  with Cons.prems(3) have "dom (docs_apply op D) \<union> op_doc ` set ops \<noteq> UNIV"
    by (metis top.extremum_uniqueI)
  with Cons.IH [OF step] Cons.prems(2) have
    "index_of fo (fold (ix_apply fo) ops (ix_apply fo op ix)) (fold docs_apply ops (docs_apply op D))"
    "dom (fold docs_apply ops (docs_apply op D)) \<subseteq> dom (docs_apply op D) \<union> op_doc ` set ops" by simp_all
  with sub show ?case by (simp, blast)
qed auto

section \<open>Properties\<close>

text \<open>Property C12 (index_is_function_of_documents). After any history of indexing, re-indexing and removal the
  tables are those of the documents the history leaves: every term has the strictly increasing list of
  the documents that contain it, its frequency is the number of them, and a term that no document
  contains has no entry. Lengths, term lists and the total agree with the documents, so nothing of a replaced
  or removed text stays behind. The bounds are that the texts have fewer than 2 to the 32 tokens and that
  the history does not use every document id.
\<close>

theorem index_is_function_of_documents:
  assumes "\<forall>op \<in> set ops. op_fits op" and "op_doc ` set ops \<noteq> UNIV"
    and "ix = fold (ix_apply fo) ops (ix_new fo)" and "D = fold docs_apply ops (\<lambda>d. None)"
  shows "hm_get (ix_postings ix) t =
      (if docs_with D t = {} then None else Some (sorted_list_of_set (docs_with D t))) \<and>
    hm_get (ix_doc_freq ix) t = (if docs_with D t = {} then None else Some (of_nat (card (docs_with D t)))) \<and>
    hm_get (ix_doc_lengths ix) d = map_option (\<lambda>tokens. of_nat (length tokens)) (D d) \<and>
    hm_get (ix_indexed_docs ix) d = map_option (\<lambda>tokens. sorted_list_of_set (set tokens)) (D d) \<and>
    ix_doc_count ix = of_nat (card (dom D))"
  using index_of_run [OF index_of_new assms(1), of fo] assms(2-4)
  by (simp add: index_of_def tables_def entry_def freq_def ix_doc_count_def)

text \<open>Property C30 (search_finds_matching_documents). On an index of the documents \<open>D\<close> an untruncated search
  returns every document that shares a token with the query, once each, and no other; a limit only cuts
  the end of that list. When the scores are numbers the list is ordered by falling score and, among equal
  scores, by document id.
\<close>

theorem search_finds_matching_documents:
  assumes "index_of fo ix D" and "dom D \<noteq> UNIV" and "length (query_scores fo ix q) \<le> n"
  shows "set (map hit_doc_id (search fo q n ix)) =
      {d. \<exists>tokens. D d = Some tokens \<and> set tokens \<inter> set (tokenize q) \<noteq> {}} \<and>
    distinct (map hit_doc_id (search fo q n ix)) \<and>
    search fo q m ix = take m (search fo q n ix) \<and>
    (comparable fo val (snd ` set (query_scores fo ix q)) \<longrightarrow>
      sorted_wrt (\<lambda>a b. \<not> (val (hit_score a) < val (hit_score b) \<or>
        val (hit_score a) = val (hit_score b) \<and> hit_doc_id b < hit_doc_id a)) (search fo q n ix))"
proof -
  let ?hits = "map (\<lambda>(d, s). \<lparr>hit_doc_id = d, hit_score = s\<rparr>) (query_scores fo ix q)"
  let ?match = "{d. \<exists>tokens. D d = Some tokens \<and> set tokens \<inter> set (tokenize q) \<noteq> {}}"
  let ?lt = "\<lambda>b a. val (hit_score a) < val (hit_score b) \<or>
      val (hit_score a) = val (hit_score b) \<and> hit_doc_id b < hit_doc_id a"
  have keys: "hm_ok (query_scores fo ix q)" "set (hm_keys (query_scores fo ix q)) = ?match"
    using query_scores_keys [OF assms(1)] by auto
  have ids: "map hit_doc_id ?hits = hm_keys (query_scores fo ix q)"
    by (simp add: hm_keys_def comp_def split_def)
  have nohits: "?hits = []" if "tokenize q = [] \<or> ix_total_docs ix = 0"
  proof -
    have "?match = {}"
      using that of_nat_card_eq_0 [OF assms(2)] assms(1) by (auto simp: index_of_def)
    with keys(2) show ?thesis by (simp add: hm_keys_def)
  qed
  then have s: "search fo q k ix = take k (sort_by (hit_cmp fo) ?hits)" for k
    by (auto simp: search_def sort_by_def)
  with assms(3) have full: "search fo q n ix = sort_by (hit_cmp fo) ?hits"
    by (simp add: set_sort_by)
  show ?thesis
  proof (intro conjI impI)
  show "set (map hit_doc_id (search fo q n ix)) = ?match"
  proof -
    have "set (map hit_doc_id (search fo q n ix)) = set (map hit_doc_id ?hits)"
      unfolding full by (simp only: set_map set_sort_by(1))
    then show ?thesis by (simp only: ids keys(2))
  qed
  show "distinct (map hit_doc_id (search fo q n ix))"
    unfolding full set_sort_by(3) ids using keys(1) by (simp add: hm_keys_def hm_ok_def)
  show "search fo q m ix = take m (search fo q n ix)" unfolding full by (rule s)
  assume c: "comparable fo val (snd ` set (query_scores fo ix q))"
  show "sorted_wrt (\<lambda>a b. \<not> ?lt b a) (search fo q n ix)"
    unfolding full
  proof (rule sorted_sort_by)
    have "comparable fo val (hit_score ` set ?hits)"
    proof -
      have "hit_score ` set ?hits = snd ` set (query_scores fo ix q)" by (force simp: image_iff)
      with c show ?thesis by simp
    qed
    from hit_cmp_Greater [OF this] show "a \<in> set ?hits \<Longrightarrow> b \<in> set ?hits \<Longrightarrow>
        hit_cmp fo a b = Greater \<longleftrightarrow> ?lt b a" for a b by blast
  qed auto
  qed
qed

text \<open>An arithmetic on whole numbers, for the witnesses.\<close>

definition whole_ops :: f64_ops where
  "whole_ops = \<lparr>f_zero = 0, f_one = 1, f_tiny = 0, f_of_u32 = ucast, f_of_u64 = (\<lambda>x. x), f_add = (+), f_mul = (*),
     f_div = (\<lambda>a b. a div b), f_ln = (\<lambda>x. x), f_abs = (\<lambda>x. x), f_max = max, f_less = (<),
     f_partial_cmp = (\<lambda>a b. Some (ord_of a b))\<rparr>"

definition two_docs :: "ix_op list" where
  "two_docs = [Index 1 ''Foo, bar'', Index 2 ''bar'', Index 1 ''baz'', Unindex 3]"

lemma tokenize_samples:
  "tokenize ''Foo, bar'' = [''foo'', ''bar'']" "tokenize ''bar'' = [''bar'']" "tokenize ''baz'' = [''baz'']"
  by code_simp+

lemma few_docs: "op_doc ` set two_docs \<noteq> UNIV"
proof -
  have "(9 :: u32) \<notin> op_doc ` set two_docs" by (simp add: two_docs_def)
  then show ?thesis by blast
qed

lemma two_docs_fit: "\<forall>op \<in> set two_docs. op_fits op"
  by (simp add: two_docs_def tokenize_samples)

theorem index_is_function_of_documents_witness:
  "let ix = fold (ix_apply whole_ops) two_docs (ix_new whole_ops)
   in hm_get (ix_postings ix) ''foo'' = None \<and> hm_get (ix_doc_freq ix) ''bar'' = Some 1 \<and>
      hm_get (ix_doc_lengths ix) 1 = Some 1 \<and> ix_doc_count ix = 2"
proof -
  let ?D = "fold docs_apply two_docs (\<lambda>d. None)"
  have D: "?D = (\<lambda>d. None)(1 \<mapsto> [''baz''], 2 \<mapsto> [''bar''])"
    by (auto simp: two_docs_def tokenize_samples fun_eq_iff)
  have "docs_with ?D ''foo'' = {}" "docs_with ?D ''bar'' = {2}" "dom ?D = {1, 2}"
    unfolding D by (auto simp: docs_with_def split: if_splits)
  with index_is_function_of_documents [OF two_docs_fit few_docs refl refl, of whole_ops "''foo''"]
    index_is_function_of_documents [OF two_docs_fit few_docs refl refl, of whole_ops "''bar''" 1]
  show ?thesis by (simp add: Let_def D)
qed

theorem search_finds_matching_documents_witness:
  "set (map hit_doc_id (search whole_ops ''BAR foo'' 5 (fold (ix_apply whole_ops) two_docs (ix_new whole_ops)))) = {2}"
proof -
  let ?ix = "fold (ix_apply whole_ops) two_docs (ix_new whole_ops)" and ?D = "fold docs_apply two_docs (\<lambda>d. None)"
  have D: "?D = (\<lambda>d. None)(1 \<mapsto> [''baz''], 2 \<mapsto> [''bar''])"
    by (auto simp: two_docs_def tokenize_samples fun_eq_iff)
  have ix: "index_of whole_ops ?ix ?D"
    using index_of_run [OF index_of_new two_docs_fit, of whole_ops] few_docs by simp
  have q: "tokenize ''BAR foo'' = [''bar'', ''foo'']" by code_simp
  have "dom ?D = {1, 2}" unfolding D by auto
  moreover have "(9 :: u32) \<notin> {1, 2}" by simp
  ultimately have ne: "dom ?D \<noteq> UNIV" by blast
  have keys: "distinct (hm_keys (query_scores whole_ops ?ix ''BAR foo''))"
    "set (hm_keys (query_scores whole_ops ?ix ''BAR foo'')) = {2}"
    using query_scores_keys [OF ix, of "''BAR foo''"] unfolding D q
    by (auto simp: hm_ok_def hm_keys_def split: if_splits)
  then have "length (query_scores whole_ops ?ix ''BAR foo'') = 1"
    using distinct_card [OF keys(1)] by (simp add: hm_keys_def)
  then have n: "length (query_scores whole_ops ?ix ''BAR foo'') \<le> 5" by simp
  have "{d. \<exists>tokens. ?D d = Some tokens \<and> set tokens \<inter> set (tokenize ''BAR foo'') \<noteq> {}} = {2}"
    unfolding D q by (auto split: if_splits)
  with search_finds_matching_documents [OF ix ne n, THEN conjunct1] show ?thesis by (rule trans)
qed

end
