(* ===== verification/Shadow.thy ===== *)
theory Shadow
  imports Prelude "HOL-Library.Sublist"
begin

text \<open>
  Shadow commits (\<^verbatim>\<open>src/shadow/mod.rs\<close>): a store of commits with one ref for each peer, the walk along
  first parents, and the reset that moves a ref back. The 64-bit hash of the standard library is an
  argument; the clock is passed to \<open>sh_commit\<close>. The reachability walk of a reset need not end on a store
  with a cycle, so it is a partial function; on the stores the operations build it is shown to end.
\<close>

section \<open>The store\<close>

type_synonym commit_id = bytes

record shadow_commit =
  sc_id :: commit_id
  sc_parents :: "commit_id list"
  sc_peer_id :: string
  sc_timestamp_ms :: u64
  sc_state_vector :: bytes

datatype shadow_error =
    CommitNotFound commit_id
  | NotInPeerHistory commit_id string

definition hex_digit :: "nat \<Rightarrow> char" where
  "hex_digit n = ''0123456789abcdef'' ! n"

definition hex_32 :: "bytes \<Rightarrow> string" where
  "hex_32 bs = concat (map (\<lambda>b. [hex_digit (unat b div 16), hex_digit (unat b mod 16)]) bs)"

record shadow_store =
  sh_refs :: "(string, commit_id) hmap"
  sh_commits :: "(commit_id, shadow_commit) hmap"

definition sh_new :: shadow_store where
  "sh_new = \<lparr>sh_refs = [], sh_commits = []\<rparr>"

text \<open>\<open>sip\<close> is the hasher fed with a salt and the four parts of a commit.\<close>

type_synonym lane_hash = "u64 \<Rightarrow> string \<Rightarrow> commit_id list \<Rightarrow> u64 \<Rightarrow> bytes \<Rightarrow> u64"

definition salts :: "u64 list" where
  "salts = [0x51736861646f7753, 0x6861646f77533147, 0x646f775332476861, 0x6f77533347686164]"

definition hash_commit :: "lane_hash \<Rightarrow> string \<Rightarrow> commit_id list \<Rightarrow> u64 \<Rightarrow> bytes \<Rightarrow> commit_id" where
  "hash_commit sip peer_id parents timestamp_ms state_vector =
     concat (map (\<lambda>salt. le_bytes 8 (sip salt peer_id parents timestamp_ms state_vector)) salts)"

definition sh_commit ::
  "lane_hash \<Rightarrow> u64 \<Rightarrow> string \<Rightarrow> commit_id list \<Rightarrow> bytes \<Rightarrow> shadow_store \<Rightarrow> commit_id \<times> shadow_store" where
  "sh_commit sip now peer_id parents state_vector s =
     (let parents = (if parents = [] then (case hm_get (sh_refs s) peer_id of Some tip \<Rightarrow> [tip] | None \<Rightarrow> [])
            else parents);
          cid = hash_commit sip peer_id parents now state_vector;
          commit = \<lparr>sc_id = cid, sc_parents = parents, sc_peer_id = peer_id, sc_timestamp_ms = now,
            sc_state_vector = state_vector\<rparr>
      in (cid, s\<lparr>sh_refs := hm_insert peer_id cid (sh_refs s), sh_commits := hm_insert cid commit (sh_commits s)\<rparr>))"

definition sh_tip :: "string \<Rightarrow> shadow_store \<Rightarrow> commit_id option" where
  "sh_tip peer_id s = hm_get (sh_refs s) peer_id"

text \<open>The walk along first parents with a limit.\<close>

fun history_loop :: "shadow_store \<Rightarrow> commit_id \<Rightarrow> nat \<Rightarrow> shadow_commit list" where
  "history_loop s cursor 0 = []"
| "history_loop s cursor (Suc limit) = (case hm_get (sh_commits s) cursor of
     None \<Rightarrow> []
   | Some commit \<Rightarrow> commit # (case sc_parents commit of [] \<Rightarrow> [] | p # _ \<Rightarrow> history_loop s p limit))"

definition sh_history :: "string \<Rightarrow> nat \<Rightarrow> shadow_store \<Rightarrow> shadow_commit list" where
  "sh_history peer_id limit s = (case hm_get (sh_refs s) peer_id of
     None \<Rightarrow> []
   | Some tip \<Rightarrow> history_loop s tip limit)"

text \<open>The reachability walk of a reset; \<open>None\<close> means that it does not end.\<close>

partial_function (option) reach :: "shadow_store \<Rightarrow> commit_id \<Rightarrow> commit_id \<Rightarrow> bool option" where
  "reach s cursor cid =
     (if cursor = cid then Some True
      else case hm_get (sh_commits s) cursor of
        None \<Rightarrow> Some False
      | Some commit \<Rightarrow> (case sc_parents commit of [] \<Rightarrow> Some False | p # _ \<Rightarrow> reach s p cid))"

definition reset_to ::
  "string \<Rightarrow> commit_id \<Rightarrow> shadow_store \<Rightarrow> ((shadow_error + commit_id) \<times> shadow_store) option" where
  "reset_to peer_id cid s =
     (if hm_get (sh_commits s) cid = None then Some (Inl (CommitNotFound cid), s)
      else
        let moved = s\<lparr>sh_refs := hm_insert peer_id cid (sh_refs s)\<rparr> in
        case hm_get (sh_refs s) peer_id of
          None \<Rightarrow> Some (Inr cid, moved)
        | Some tip \<Rightarrow> (case reach s tip cid of
            None \<Rightarrow> None
          | Some found \<Rightarrow> if found then Some (Inr tip, moved) else Some (Inl (NotInPeerHistory cid peer_id), s)))"

definition commit_count :: "shadow_store \<Rightarrow> nat" where
  "commit_count s = length (sh_commits s)"

definition peer_count :: "shadow_store \<Rightarrow> nat" where
  "peer_count s = length (sh_refs s)"

definition get_commit :: "commit_id \<Rightarrow> shadow_store \<Rightarrow> shadow_commit option" where
  "get_commit cid s = hm_get (sh_commits s) cid"

section \<open>First parents\<close>

definition first_parent :: "shadow_store \<Rightarrow> commit_id \<Rightarrow> commit_id \<Rightarrow> bool" where
  "first_parent s c p \<longleftrightarrow> (\<exists>commit ps. hm_get (sh_commits s) c = Some commit \<and> sc_parents commit = p # ps)"

definition acyclic_store :: "shadow_store \<Rightarrow> bool" where
  "acyclic_store s \<longleftrightarrow> (\<exists>rank :: commit_id \<Rightarrow> nat. \<forall>c p. first_parent s c p \<longrightarrow> rank p < rank c)"

lemma first_parent_unique: "first_parent s c p \<Longrightarrow> first_parent s c q \<Longrightarrow> p = q"
  by (auto simp: first_parent_def)

text \<open>On an acyclic store the walk ends, with the answer of the transitive closure.\<close>

lemma reach_correct:
  assumes "acyclic_store s"
  shows "reach s cursor cid = Some ((first_parent s)\<^sup>*\<^sup>* cursor cid)"
proof -
  obtain rank :: "commit_id \<Rightarrow> nat" where rank: "\<And>c p. first_parent s c p \<Longrightarrow> rank p < rank c"
    using assms by (auto simp: acyclic_store_def)
  show ?thesis
  proof (induction "rank cursor" arbitrary: cursor rule: less_induct)
    case less
    show ?case
    proof (cases "cursor = cid")
      case True
      then show ?thesis by (subst reach.simps) simp
    next
      case False
      show ?thesis
      proof (cases "\<exists>p. first_parent s cursor p")
        case True
        then obtain p where p: "first_parent s cursor p" ..
        then obtain commit ps where c: "hm_get (sh_commits s) cursor = Some commit" "sc_parents commit = p # ps"
          by (auto simp: first_parent_def)
        have "reach s cursor cid = reach s p cid" by (subst reach.simps) (simp add: False c)
        also have "\<dots> = Some ((first_parent s)\<^sup>*\<^sup>* p cid)" by (rule less) (rule rank [OF p])
        also have "(first_parent s)\<^sup>*\<^sup>* p cid = (first_parent s)\<^sup>*\<^sup>* cursor cid"
          using p False by (metis converse_rtranclpE converse_rtranclp_into_rtranclp first_parent_unique)
        finally show ?thesis .
      next
        case none: False
        then have "reach s cursor cid = Some False"
          by (subst reach.simps) (auto simp: False first_parent_def split: option.split list.split)
        moreover have "\<not> (first_parent s)\<^sup>*\<^sup>* cursor cid"
          using none False by (metis converse_rtranclpE)
        ultimately show ?thesis by simp
      qed
    qed
  qed
qed

text \<open>The history of an ancestor is the tail of the history.\<close>

lemma history_drop:
  "(first_parent s)\<^sup>*\<^sup>* c a \<Longrightarrow> \<exists>k. \<forall>n. history_loop s a n = drop k (history_loop s c (n + k))"
proof (induction rule: converse_rtranclp_induct)
  case base
  have "\<forall>n. history_loop s a n = drop 0 (history_loop s a (n + 0))" by simp
  then show ?case ..
next
  case (step c p)
  then obtain k where k: "\<forall>n. history_loop s a n = drop k (history_loop s p (n + k))" by blast
  from step(1) have "history_loop s c (Suc m) = the (hm_get (sh_commits s) c) # history_loop s p m" for m
    by (auto simp: first_parent_def)
  with k have "\<forall>n. history_loop s a n = drop (Suc k) (history_loop s c (n + Suc k))" by simp
  then show ?case ..
qed

section \<open>The stores that the operations build\<close>

text \<open>No hash collision: the new id is not the id of a commit and is named by none as a parent.\<close>

definition fresh_id :: "commit_id \<Rightarrow> commit_id list \<Rightarrow> shadow_store \<Rightarrow> bool" where
  "fresh_id cid parents s \<longleftrightarrow> hm_get (sh_commits s) cid = None \<and> cid \<notin> set parents \<and>
     (\<forall>c commit. hm_get (sh_commits s) c = Some commit \<longrightarrow> cid \<notin> set (sc_parents commit))"

inductive shadow_step :: "lane_hash \<Rightarrow> shadow_store \<Rightarrow> shadow_store \<Rightarrow> bool" for sip where
  Commit: "sh_commit sip now peer parents sv s = (cid, s') \<Longrightarrow> fresh_id cid parents s \<Longrightarrow> shadow_step sip s s'"
| Reset: "reset_to peer cid s = Some (r, s') \<Longrightarrow> shadow_step sip s s'"

definition store_ok :: "shadow_store \<Rightarrow> bool" where
  "store_ok s \<longleftrightarrow> hm_ok (sh_refs s) \<and> hm_ok (sh_commits s) \<and> acyclic_store s \<and>
     (\<forall>peer tip. hm_get (sh_refs s) peer = Some tip \<longrightarrow> hm_get (sh_commits s) tip \<noteq> None) \<and>
     (\<forall>c commit. hm_get (sh_commits s) c = Some commit \<longrightarrow> sc_id commit = c)"

lemma store_ok_new: "store_ok sh_new"
  by (auto simp: store_ok_def sh_new_def acyclic_store_def first_parent_def)

definition used_parents :: "string \<Rightarrow> commit_id list \<Rightarrow> shadow_store \<Rightarrow> commit_id list" where
  "used_parents peer parents s =
     (if parents = [] then (case hm_get (sh_refs s) peer of Some tip \<Rightarrow> [tip] | None \<Rightarrow> []) else parents)"

lemma sh_commit_result:
  assumes "sh_commit sip now peer parents sv s = (cid, s')"
  shows "s' = s\<lparr>sh_refs := hm_insert peer cid (sh_refs s), sh_commits := hm_insert cid
      \<lparr>sc_id = cid, sc_parents = used_parents peer parents s, sc_peer_id = peer, sc_timestamp_ms = now,
       sc_state_vector = sv\<rparr> (sh_commits s)\<rparr>"
  using assms by (auto simp: sh_commit_def used_parents_def Let_def)

lemma fresh_used_parents:
  "store_ok s \<Longrightarrow> fresh_id cid parents s \<Longrightarrow> cid \<notin> set (used_parents peer parents s)"
proof -
  assume ok: "store_ok s" and fresh: "fresh_id cid parents s"
  show ?thesis
  proof (cases "hm_get (sh_refs s) peer")
    case None
    with fresh show ?thesis by (simp add: fresh_id_def used_parents_def)
  next
    case (Some tip)
    with ok have "hm_get (sh_commits s) tip \<noteq> None" unfolding store_ok_def by blast
    with fresh have "tip \<noteq> cid" unfolding fresh_id_def by metis
    with fresh Some show ?thesis by (auto simp: fresh_id_def used_parents_def)
  qed
qed

lemma first_parent_commit:
  assumes "sh_commit sip now peer parents sv s = (cid, s')"
  shows "first_parent s' c p \<longleftrightarrow>
    (if c = cid then \<exists>ps. used_parents peer parents s = p # ps else first_parent s c p)"
  by (auto simp: sh_commit_result [OF assms] first_parent_def)

lemma store_ok_commit:
  assumes "store_ok s" and "sh_commit sip now peer parents sv s = (cid, s')" and "fresh_id cid parents s"
  shows "store_ok s'"
proof -
  obtain rank :: "commit_id \<Rightarrow> nat" where rank: "\<And>c p. first_parent s c p \<Longrightarrow> rank p < rank c"
    using assms(1) by (auto simp: store_ok_def acyclic_store_def)
  let ?rank = "rank(cid := Suc (case used_parents peer parents s of [] \<Rightarrow> 0 | p # _ \<Rightarrow> rank p))"
  have old: "p \<noteq> cid" if "first_parent s c p" for c p
    using that assms(3) by (force simp: first_parent_def fresh_id_def)
  have "?rank p < ?rank c" if "first_parent s' c p" for c p
    using that fresh_used_parents [OF assms(1,3), of peer] old rank
    by (auto simp: first_parent_commit [OF assms(2)] split: if_splits)
  then have "acyclic_store s'" unfolding acyclic_store_def by blast
  with assms(1) show ?thesis by (auto simp: store_ok_def sh_commit_result [OF assms(2)])
qed

lemma reset_to_result:
  assumes "store_ok s"
  shows "reset_to peer cid s = Some
    (if hm_get (sh_commits s) cid = None then (Inl (CommitNotFound cid), s)
     else case hm_get (sh_refs s) peer of
         None \<Rightarrow> (Inr cid, s\<lparr>sh_refs := hm_insert peer cid (sh_refs s)\<rparr>)
       | Some tip \<Rightarrow> if (first_parent s)\<^sup>*\<^sup>* tip cid
           then (Inr tip, s\<lparr>sh_refs := hm_insert peer cid (sh_refs s)\<rparr>)
           else (Inl (NotInPeerHistory cid peer), s))"
  using assms reach_correct [of s] by (auto simp: store_ok_def reset_to_def Let_def split: option.split)

lemma store_ok_reset:
  assumes "store_ok s" and "reset_to peer cid s = Some (r, s')"
  shows "store_ok s'"
proof -
  from assms(2) have "s' = s \<or> s' = s\<lparr>sh_refs := hm_insert peer cid (sh_refs s)\<rparr> \<and> hm_get (sh_commits s) cid \<noteq> None"
    unfolding reset_to_result [OF assms(1)] by (auto split: if_splits option.splits)
  then show ?thesis
  proof
    assume "s' = s\<lparr>sh_refs := hm_insert peer cid (sh_refs s)\<rparr> \<and> hm_get (sh_commits s) cid \<noteq> None"
    with assms(1) show ?thesis by (auto simp: store_ok_def acyclic_store_def first_parent_def split: if_splits)
  qed (use assms(1) in simp)
qed

lemma reachable_store_ok: "(shadow_step sip)\<^sup>*\<^sup>* sh_new s \<Longrightarrow> store_ok s"
proof (induction rule: rtranclp_induct)
  case base
  show ?case by (rule store_ok_new)
next
  case (step s s')
  from step(2) step.IH show ?case by cases (auto intro: store_ok_commit store_ok_reset)
qed

text \<open>A new commit does not change what lies behind the old ones.\<close>

lemma history_extend:
  assumes "sh_commit sip now peer parents sv s = (cid, s')" and "fresh_id cid parents s" and "c \<noteq> cid"
  shows "history_loop s' c n = history_loop s c n"
  using assms(3)
proof (induction n arbitrary: c)
  case (Suc n)
  show ?case
  proof (cases "hm_get (sh_commits s) c")
    case None
    with Suc.prems show ?thesis by (simp add: sh_commit_result [OF assms(1)])
  next
    case (Some commit)
    then have "cid \<notin> set (sc_parents commit)" using assms(2) by (simp add: fresh_id_def)
    moreover have "hm_get (sh_commits s') c = Some commit"
      using Some Suc.prems by (simp add: sh_commit_result [OF assms(1)])
    ultimately show ?thesis using Some Suc.IH by (auto split: list.split)
  qed
qed simp

section \<open>Properties\<close>

text \<open>Property C31 (shadow_reset_exact). On every store that commits without hash collisions and resets have
  built, a reset returns. It moves the ref exactly when the commit exists and the peer either has no ref
  yet or has the commit on the first-parent chain of its tip; a refused reset changes nothing. A reset that
  succeeds leaves all commits and the refs of other peers as they are, and what the peer's history then
  shows is the tail of what it showed before.
\<close>

theorem shadow_reset_exact:
  assumes "(shadow_step sip)\<^sup>*\<^sup>* sh_new s"
  shows "\<exists>r s'. reset_to peer cid s = Some (r, s') \<and>
    (\<forall>prev. r = Inr prev \<longleftrightarrow> get_commit cid s \<noteq> None \<and>
      (case sh_tip peer s of None \<Rightarrow> prev = cid | Some tip \<Rightarrow> prev = tip \<and> (first_parent s)\<^sup>*\<^sup>* tip cid)) \<and>
    (\<forall>e. r = Inl e \<longrightarrow> s' = s) \<and>
    (\<forall>prev. r = Inr prev \<longrightarrow> sh_tip peer s' = Some cid \<and> (\<forall>q. q \<noteq> peer \<longrightarrow> sh_tip q s' = sh_tip q s) \<and>
      sh_commits s' = sh_commits s \<and>
      (sh_tip peer s \<noteq> None \<longrightarrow> (\<exists>k. \<forall>n. sh_history peer n s' = drop k (sh_history peer (n + k) s))))"
proof -
  have ok: "store_ok s" by (rule reachable_store_ok [OF assms])
  obtain out where out: "reset_to peer cid s = Some out" using reset_to_result [OF ok] by blast
  obtain r s' where "out = (r, s')" by (cases out)
  with out have rs: "reset_to peer cid s = Some (r, s')" by simp
  note res = rs [unfolded reset_to_result [OF ok]]
  have ok_iff: "r = Inr prev \<longleftrightarrow> get_commit cid s \<noteq> None \<and>
      (case sh_tip peer s of None \<Rightarrow> prev = cid | Some tip \<Rightarrow> prev = tip \<and> (first_parent s)\<^sup>*\<^sup>* tip cid)" for prev
    using res by (auto simp: get_commit_def sh_tip_def split: if_splits option.splits)
  have refused: "s' = s" if "r = Inl e" for e
    using res that by (auto split: if_splits option.splits)
  have moved: "s' = s\<lparr>sh_refs := hm_insert peer cid (sh_refs s)\<rparr>" if "r = Inr prev" for prev
    using res that by (auto split: if_splits option.splits)
  have hist: "\<exists>k. \<forall>n. sh_history peer n s' = drop k (sh_history peer (n + k) s)"
    if ret: "r = Inr prev" and had: "sh_tip peer s \<noteq> None" for prev
  proof -
    obtain tip where tip: "hm_get (sh_refs s) peer = Some tip" using had by (auto simp: sh_tip_def)
    with ret ok_iff have "(first_parent s)\<^sup>*\<^sup>* tip cid" by (auto simp: sh_tip_def)
    from history_drop [OF this] obtain k where k: "\<forall>n. history_loop s cid n = drop k (history_loop s tip (n + k))" ..
    have same: "history_loop s' c n = history_loop s c n" for c n
      using moved [OF ret] by (induction n arbitrary: c) (simp_all split: option.split list.split)
    have "hm_get (sh_refs s') peer = Some cid" by (simp add: moved [OF ret])
    then have "sh_history peer n s' = history_loop s cid n" for n by (simp add: sh_history_def same)
    moreover have "sh_history peer n s = history_loop s tip n" for n using tip by (simp add: sh_history_def)
    ultimately show ?thesis using k by auto
  qed
  have after: "sh_tip peer s' = Some cid \<and> (\<forall>q. q \<noteq> peer \<longrightarrow> sh_tip q s' = sh_tip q s) \<and>
      sh_commits s' = sh_commits s" if "r = Inr prev" for prev
    by (simp add: moved [OF that] sh_tip_def)
  show ?thesis
  proof (intro exI [of _ r] exI [of _ s'] conjI)
    show "reset_to peer cid s = Some (r, s')" by (rule rs)
    show "\<forall>prev. r = Inr prev \<longleftrightarrow> get_commit cid s \<noteq> None \<and>
        (case sh_tip peer s of None \<Rightarrow> prev = cid | Some tip \<Rightarrow> prev = tip \<and> (first_parent s)\<^sup>*\<^sup>* tip cid)"
      by (rule allI) (rule ok_iff)
    show "\<forall>e. r = Inl e \<longrightarrow> s' = s" using refused by blast
    show "\<forall>prev. r = Inr prev \<longrightarrow> sh_tip peer s' = Some cid \<and> (\<forall>q. q \<noteq> peer \<longrightarrow> sh_tip q s' = sh_tip q s) \<and>
        sh_commits s' = sh_commits s \<and>
        (sh_tip peer s \<noteq> None \<longrightarrow> (\<exists>k. \<forall>n. sh_history peer n s' = drop k (sh_history peer (n + k) s)))"
      using after hist by metis
  qed
qed

text \<open>A hash that is the clock, for the witnesses.\<close>

definition clock_hash :: lane_hash where
  "clock_hash salt peer_id parents timestamp_ms state_vector = timestamp_ms"

definition tick :: "u64 \<Rightarrow> commit_id" where
  "tick now = concat (map (\<lambda>salt. le_bytes 8 now) salts)"

lemma hash_commit_clock: "hash_commit clock_hash peer ps now sv = tick now"
  by (simp add: hash_commit_def tick_def clock_hash_def)

lemma ticks_differ: "tick 1 \<noteq> tick 2"
  by (simp add: tick_def salts_def le_bytes_def upt_rec)

definition two_commits :: shadow_store where
  "two_commits = snd (sh_commit clock_hash 2 ''p'' [] [8] (snd (sh_commit clock_hash 1 ''p'' [] [7] sh_new)))"

lemma two_commits_eq:
  "two_commits = \<lparr>sh_refs = [(''p'', tick 2)],
     sh_commits = [(tick 1, \<lparr>sc_id = tick 1, sc_parents = [], sc_peer_id = ''p'', sc_timestamp_ms = 1, sc_state_vector = [7]\<rparr>),
       (tick 2, \<lparr>sc_id = tick 2, sc_parents = [tick 1], sc_peer_id = ''p'', sc_timestamp_ms = 2, sc_state_vector = [8]\<rparr>)]\<rparr>"
  by (simp add: two_commits_def sh_commit_def sh_new_def hash_commit_clock hm_insert_def ticks_differ Let_def)

lemma two_commits_reachable: "(shadow_step clock_hash)\<^sup>*\<^sup>* sh_new two_commits"
proof -
  let ?s1 = "snd (sh_commit clock_hash 1 ''p'' [] [7] sh_new)"
  have "shadow_step clock_hash sh_new ?s1"
    by (rule Commit [where cid = "tick 1"])
      (auto simp: sh_commit_def hash_commit_clock sh_new_def fresh_id_def Let_def)
  moreover have "shadow_step clock_hash ?s1 two_commits"
  proof (rule Commit [where cid = "tick 2"])
    show "sh_commit clock_hash 2 ''p'' [] [8] ?s1 = (tick 2, two_commits)"
      by (simp add: two_commits_def sh_commit_def hash_commit_clock Let_def)
    show "fresh_id (tick 2) [] ?s1"
      using ticks_differ by (auto simp: sh_commit_def hash_commit_clock sh_new_def fresh_id_def Let_def split: if_splits)
  qed
  ultimately show ?thesis by (rule converse_rtranclp_into_rtranclp [OF _ r_into_rtranclp])
qed

theorem shadow_reset_exact_witness:
  "\<exists>s'. reset_to ''p'' (tick 1) two_commits = Some (Inr (tick 2), s') \<and> sh_tip ''p'' s' = Some (tick 1)"
proof -
  have "first_parent two_commits (tick 2) (tick 1)"
    by (simp add: first_parent_def two_commits_eq ticks_differ ticks_differ [symmetric])
  then have "(first_parent two_commits)\<^sup>*\<^sup>* (tick 2) (tick 1)" by (rule r_into_rtranclp)
  moreover have "sh_tip ''p'' two_commits = Some (tick 2)" "get_commit (tick 1) two_commits \<noteq> None"
    by (simp_all add: two_commits_eq sh_tip_def get_commit_def)
  ultimately show ?thesis
    using shadow_reset_exact [OF two_commits_reachable, of "''p''" "tick 1"] by force
qed

text \<open>A commit without explicit parents followed by a reset to the former
  tip is an undo: it returns the undone commit, and the peer's tip and its history of any length are again
  what they were. Before the undo the history was the new commit in front of the old history.
\<close>

theorem shadow_undo_restores:
  assumes "(shadow_step sip)\<^sup>*\<^sup>* sh_new s" and "sh_tip peer s = Some tip"
    and "sh_commit sip now peer [] sv s = (cid, s1)" and "fresh_id cid [] s"
  shows "\<exists>s2. reset_to peer tip s1 = Some (Inr cid, s2) \<and> sh_tip peer s2 = Some tip \<and>
    (\<forall>n. sh_history peer n s2 = sh_history peer n s) \<and>
    (\<forall>n. map sc_id (sh_history peer (Suc n) s1) = cid # map sc_id (sh_history peer n s))"
proof -
  have ok: "store_ok s" by (rule reachable_store_ok [OF assms(1)])
  have ok1: "store_ok s1" by (rule store_ok_commit [OF ok assms(3,4)])
  have tip: "hm_get (sh_refs s) peer = Some tip" using assms(2) by (simp add: sh_tip_def)
  have s1: "hm_get (sh_refs s1) peer = Some cid"
    "hm_get (sh_commits s1) cid = Some \<lparr>sc_id = cid, sc_parents = [tip], sc_peer_id = peer, sc_timestamp_ms = now,
       sc_state_vector = sv\<rparr>"
    by (simp_all add: sh_commit_result [OF assms(3)] used_parents_def tip)
  have stored: "hm_get (sh_commits s) tip \<noteq> None" using ok tip unfolding store_ok_def by blast
  then have ne: "tip \<noteq> cid" using assms(4) by (auto simp: fresh_id_def)
  have stored1: "hm_get (sh_commits s1) tip \<noteq> None"
    using stored ne by (simp add: sh_commit_result [OF assms(3)])
  have "first_parent s1 cid tip" using s1(2) by (simp add: first_parent_def)
  then have anc: "(first_parent s1)\<^sup>*\<^sup>* cid tip" by (rule r_into_rtranclp)
  let ?s2 = "s1\<lparr>sh_refs := hm_insert peer tip (sh_refs s1)\<rparr>"
  have "reset_to peer tip s1 = Some (Inr cid, ?s2)"
    using stored1 s1(1) anc by (simp add: reset_to_result [OF ok1])
  moreover have "history_loop ?s2 c n = history_loop s1 c n" for c n
    by (induction n arbitrary: c) (simp_all split: option.split list.split)
  then have "sh_history peer n ?s2 = sh_history peer n s" for n
    using tip by (simp add: sh_history_def history_extend [OF assms(3,4) ne])
  moreover have "map sc_id (sh_history peer (Suc n) s1) = cid # map sc_id (sh_history peer n s)" for n
    using s1 tip by (simp add: sh_history_def history_extend [OF assms(3,4) ne])
  ultimately show ?thesis by (intro exI [of _ ?s2]) (simp add: sh_tip_def)
qed

theorem shadow_undo_restores_witness:
  "\<exists>s2. reset_to ''p'' (tick 2) (snd (sh_commit clock_hash 3 ''p'' [] [9] two_commits)) = Some (Inr (tick 3), s2) \<and>
     sh_tip ''p'' s2 = Some (tick 2)"
proof -
  have tip: "sh_tip ''p'' two_commits = Some (tick 2)" by (simp add: two_commits_eq sh_tip_def)
  have c: "sh_commit clock_hash 3 ''p'' [] [9] two_commits =
      (tick 3, snd (sh_commit clock_hash 3 ''p'' [] [9] two_commits))"
    by (simp add: sh_commit_def hash_commit_clock Let_def)
  have "tick 3 \<noteq> tick 1" "tick 3 \<noteq> tick 2" by (simp_all add: tick_def salts_def le_bytes_def upt_rec)
  then have "fresh_id (tick 3) [] two_commits"
    by (auto simp: fresh_id_def two_commits_eq split: if_splits)
  from shadow_undo_restores [OF two_commits_reachable tip c this] show ?thesis by blast
qed

text \<open>A peer without a ref can take over the commit of another peer.\<close>

lemma reset_without_tip:
  "sh_tip peer s = None \<Longrightarrow> get_commit cid s \<noteq> None \<Longrightarrow>
     \<exists>s'. reset_to peer cid s = Some (Inr cid, s') \<and> sh_tip peer s' = Some cid"
  by (auto simp: sh_tip_def get_commit_def reset_to_def Let_def)

end
