(* ===== verification/Sab.thy ===== *)
theory Sab
  imports Prelude
begin

text \<open>
  The layout writer of the shared array buffer (\<^verbatim>\<open>src/sab/mod.rs\<close>): entries of 16 little-endian bytes with
  a y offset and a height. A panic is a left value. The addition and the comparison of \<^verbatim>\<open>f32\<close> are
  arguments; the values are bit patterns.
\<close>

section \<open>The writer\<close>

definition LAYOUT_ENTRY_BYTES :: nat where
  "LAYOUT_ENTRY_BYTES = 16"

record sab_writer =
  sab_buffer :: bytes
  sab_entry_count :: nat

datatype sab_panic = CapacityOverflow | WouldLeaveGap nat nat | OutOfCapacity nat nat

definition sab_new :: "nat \<Rightarrow> sab_panic + sab_writer" where
  "sab_new capacity_entries =
     (if 2 ^ 64 \<le> capacity_entries * LAYOUT_ENTRY_BYTES then Inl CapacityOverflow
      else Inr \<lparr>sab_buffer = replicate (capacity_entries * LAYOUT_ENTRY_BYTES) 0, sab_entry_count = 0\<rparr>)"

definition write_at :: "nat \<Rightarrow> bytes \<Rightarrow> bytes \<Rightarrow> bytes" where
  "write_at off bs buf = take off buf @ bs @ drop (off + length bs) buf"

definition read_f32 :: "nat \<Rightarrow> bytes \<Rightarrow> f32" where
  "read_f32 off buf = of_le_bytes [buf ! off, buf ! (off + 1), buf ! (off + 2), buf ! (off + 3)]"

definition set_layout :: "nat \<Rightarrow> f32 \<Rightarrow> f32 \<Rightarrow> sab_writer \<Rightarrow> sab_panic + sab_writer" where
  "set_layout index y_offset height w =
     (if sab_entry_count w < index then Inl (WouldLeaveGap index (sab_entry_count w))
      else
        let byte_off = index * LAYOUT_ENTRY_BYTES in
        if length (sab_buffer w) < byte_off + LAYOUT_ENTRY_BYTES
        then Inl (OutOfCapacity index (length (sab_buffer w) div LAYOUT_ENTRY_BYTES))
        else
          let buffer = write_at byte_off (le_bytes 4 y_offset) (sab_buffer w);
              buffer = write_at (byte_off + 4) (le_bytes 4 height) buffer
          in Inr (w\<lparr>sab_buffer := buffer,
            sab_entry_count := (if index = sab_entry_count w then sab_entry_count w + 1 else sab_entry_count w)\<rparr>))"

function recompute_loop :: "(f32 \<Rightarrow> f32 \<Rightarrow> f32) \<Rightarrow> nat \<Rightarrow> sab_writer \<Rightarrow> sab_writer" where
  "recompute_loop fadd i w =
     (if i < sab_entry_count w
      then
        let prev_off = (i - 1) * LAYOUT_ENTRY_BYTES;
            cur_off = i * LAYOUT_ENTRY_BYTES;
            prev_y = read_f32 prev_off (sab_buffer w);
            prev_h = read_f32 (prev_off + 4) (sab_buffer w);
            new_y = fadd prev_y prev_h
        in recompute_loop fadd (i + 1) (w\<lparr>sab_buffer := write_at cur_off (le_bytes 4 new_y) (sab_buffer w)\<rparr>)
      else w)"
  by pat_completeness auto
termination
  by (relation "measure (\<lambda>(f, i, w). sab_entry_count w - i)") auto

declare recompute_loop.simps [simp del]

definition recompute_offsets :: "(f32 \<Rightarrow> f32 \<Rightarrow> f32) \<Rightarrow> nat \<Rightarrow> sab_writer \<Rightarrow> sab_writer" where
  "recompute_offsets fadd start_index w =
     (if sab_entry_count w = 0 \<or> sab_entry_count w \<le> start_index then w
      else recompute_loop fadd (if start_index = 0 then 1 else start_index) w)"

definition total_height :: "(f32 \<Rightarrow> f32 \<Rightarrow> f32) \<Rightarrow> (f32 \<Rightarrow> f32 \<Rightarrow> bool) \<Rightarrow> sab_writer \<Rightarrow> f32" where
  "total_height fadd fgt w =
     foldl (\<lambda>m i. let off = i * LAYOUT_ENTRY_BYTES;
                     bottom = fadd (read_f32 off (sab_buffer w)) (read_f32 (off + 4) (sab_buffer w))
                 in if fgt bottom m then bottom else m) 0 [0..<sab_entry_count w]"

definition capacity_entries :: "sab_writer \<Rightarrow> nat" where
  "capacity_entries w = length (sab_buffer w) div LAYOUT_ENTRY_BYTES"

definition get_layout :: "nat \<Rightarrow> sab_writer \<Rightarrow> (f32 \<times> f32) option" where
  "get_layout index w =
     (if sab_entry_count w \<le> index then None
      else let off = index * LAYOUT_ENTRY_BYTES
        in Some (read_f32 off (sab_buffer w), read_f32 (off + 4) (sab_buffer w)))"

section \<open>The list of entries\<close>

definition entries :: "sab_writer \<Rightarrow> (f32 \<times> f32) list" where
  "entries w = map (\<lambda>i. (read_f32 (16 * i) (sab_buffer w), read_f32 (16 * i + 4) (sab_buffer w)))
     [0..<sab_entry_count w]"

text \<open>The buffer holds whole entries, enough of them, and the padding of every entry is zero.\<close>

definition sab_ok :: "sab_writer \<Rightarrow> bool" where
  "sab_ok w \<longleftrightarrow> length (sab_buffer w) = 16 * capacity_entries w \<and> sab_entry_count w \<le> capacity_entries w \<and>
     (\<forall>j < length (sab_buffer w). 8 \<le> j mod 16 \<longrightarrow> sab_buffer w ! j = 0)"

lemma length_write_at [simp]: "off + length bs \<le> length buf \<Longrightarrow> length (write_at off bs buf) = length buf"
  by (simp add: write_at_def)

lemma nth_write_at:
  "off + length bs \<le> length buf \<Longrightarrow> j < length buf \<Longrightarrow>
     write_at off bs buf ! j = (if off \<le> j \<and> j < off + length bs then bs ! (j - off) else buf ! j)"
  by (auto simp: write_at_def nth_append min_def)

lemma read_same:
  assumes "off + 4 \<le> length buf"
  shows "read_f32 off (write_at off (le_bytes 4 v) buf) = v"
proof -
  let ?b = "write_at off (le_bytes 4 v) buf"
  have "?b ! (off + k) = le_bytes 4 v ! k" if "k < 4" for k
    using assms that by (subst nth_write_at) auto
  from this [of 0] this [of 1] this [of 2] this [of 3]
  have "[?b ! off, ?b ! (off + 1), ?b ! (off + 2), ?b ! (off + 3)] =
      [le_bytes 4 v ! 0, le_bytes 4 v ! 1, le_bytes 4 v ! 2, le_bytes 4 v ! 3]" by simp
  also have "\<dots> = le_bytes 4 v" by (simp add: le_bytes_def upt_rec)
  finally have "read_f32 off ?b = of_le_bytes (le_bytes 4 v)" unfolding read_f32_def by (rule arg_cong)
  then show ?thesis by (simp add: of_le_bytes_id)
qed

lemma read_other:
  assumes "off + 4 \<le> length buf" and "p + 4 \<le> length buf" and "p + 4 \<le> off \<or> off + 4 \<le> p"
  shows "read_f32 p (write_at off (le_bytes 4 v) buf) = read_f32 p buf"
  using assms by (auto simp: read_f32_def nth_write_at)

lemma aligned_apart: "i \<noteq> k \<Longrightarrow> a \<le> 12 \<Longrightarrow> b \<le> 12 \<Longrightarrow> 16 * i + a + 4 \<le> 16 * k + b \<or> 16 * k + b + 4 \<le> 16 * i + (a :: nat)"
  by (cases "i < k") auto

lemma padding_kept:
  assumes "16 * i + a + 4 \<le> length buf" and "a \<le> 4" and "j < length buf" and "8 \<le> j mod 16"
  shows "write_at (16 * i + a) (le_bytes 4 v) buf ! j = buf ! j"
proof -
  have "\<not> (16 * i + a \<le> j \<and> j < 16 * i + a + 4)"
  proof
    assume "16 * i + a \<le> j \<and> j < 16 * i + a + 4"
    then obtain d where d: "j = 16 * i + d" "d < 8" using assms(2) by (auto simp: le_iff_add)
    then have "j mod 16 = d" by simp
    with d(2) assms(4) show False by simp
  qed
  then show ?thesis using assms(1,3) by (subst nth_write_at) auto
qed

lemma length_entries [simp]: "length (entries w) = sab_entry_count w"
  by (simp add: entries_def)

lemma nth_entries: "i < sab_entry_count w \<Longrightarrow>
  entries w ! i = (read_f32 (16 * i) (sab_buffer w), read_f32 (16 * i + 4) (sab_buffer w))"
  by (simp add: entries_def)

lemma entry_inside: "sab_ok w \<Longrightarrow> i < capacity_entries w \<Longrightarrow> 16 * i + 16 \<le> length (sab_buffer w)"
  by (simp add: sab_ok_def)

text \<open>Writing a field of one entry.\<close>

lemma write_field_ok:
  assumes "sab_ok w" and "i < capacity_entries w" and "a \<le> 4"
  shows "sab_ok (w\<lparr>sab_buffer := write_at (16 * i + a) (le_bytes 4 v) (sab_buffer w)\<rparr>)" (is "sab_ok ?w")
proof -
  have len: "16 * i + a + 4 \<le> length (sab_buffer w)" using entry_inside [OF assms(1,2)] assms(3) by simp
  then have "length (sab_buffer ?w) = length (sab_buffer w)" by simp
  moreover have "sab_buffer ?w ! j = 0" if "j < length (sab_buffer w)" "8 \<le> j mod 16" for j
    using padding_kept [OF len assms(3) that] that assms(1) by (simp add: sab_ok_def)
  ultimately show ?thesis using assms(1) by (simp add: sab_ok_def capacity_entries_def)
qed

lemma write_y_entries:
  assumes "sab_ok w" and "i < sab_entry_count w"
  shows "entries (w\<lparr>sab_buffer := write_at (16 * i) (le_bytes 4 v) (sab_buffer w)\<rparr>) =
    (entries w)[i := (v, snd (entries w ! i))]" (is "entries ?w = _")
proof (rule nth_equalityI)
  fix k
  assume "k < length (entries ?w)"
  then have k: "k < sab_entry_count w" by simp
  have cap: "sab_entry_count w \<le> capacity_entries w" using assms(1) by (simp add: sab_ok_def)
  have ki: "16 * i + 16 \<le> length (sab_buffer w)" "16 * k + 16 \<le> length (sab_buffer w)"
    using entry_inside [OF assms(1)] assms(2) k cap by auto
  have same: "read_f32 (16 * i) (sab_buffer ?w) = v" using ki by (simp add: read_same)
  have y: "read_f32 (16 * k) (sab_buffer ?w) = read_f32 (16 * k) (sab_buffer w)" if "k \<noteq> i"
    using aligned_apart [OF that, of 0 0] ki by (simp add: read_other)
  have h: "read_f32 (16 * k + 4) (sab_buffer ?w) = read_f32 (16 * k + 4) (sab_buffer w)"
    using aligned_apart [of k i 4 0] ki by (cases "k = i") (simp_all add: read_other)
  show "entries ?w ! k = (entries w)[i := (v, snd (entries w ! i))] ! k"
    using k assms(2) same y h by (cases "k = i") (simp_all add: nth_entries)
qed simp

text \<open>The cascade: every y offset is the bottom of the entry before.\<close>

fun restack :: "(f32 \<Rightarrow> f32 \<Rightarrow> f32) \<Rightarrow> f32 \<times> f32 \<Rightarrow> (f32 \<times> f32) list \<Rightarrow> (f32 \<times> f32) list" where
  "restack fadd e [] = []"
| "restack fadd e (e' # es) = (fadd (fst e) (snd e), snd e') # restack fadd (fadd (fst e) (snd e), snd e') es"

definition stack_from :: "(f32 \<Rightarrow> f32 \<Rightarrow> f32) \<Rightarrow> nat \<Rightarrow> (f32 \<times> f32) list \<Rightarrow> (f32 \<times> f32) list" where
  "stack_from fadd i es = take i es @ restack fadd (es ! (i - 1)) (drop i es)"

lemma recompute_loop_entries:
  "sab_ok w \<Longrightarrow> 0 < i \<Longrightarrow> sab_ok (recompute_loop fadd i w) \<and>
     entries (recompute_loop fadd i w) = stack_from fadd i (entries w) \<and>
     capacity_entries (recompute_loop fadd i w) = capacity_entries w \<and>
     sab_entry_count (recompute_loop fadd i w) = sab_entry_count w"
proof (induction fadd i w rule: recompute_loop.induct)
  case (1 fadd i w)
  show ?case
  proof (cases "i < sab_entry_count w")
    case False
    then show ?thesis using 1(2) by (simp add: recompute_loop.simps stack_from_def)
  next
    case True
    let ?es = "entries w"
    let ?y = "fadd (fst (?es ! (i - 1))) (snd (?es ! (i - 1)))"
    let ?w = "w\<lparr>sab_buffer := write_at (16 * i) (le_bytes 4 ?y) (sab_buffer w)\<rparr>"
    let ?es' = "?es[i := (?y, snd (?es ! i))]"
    have prev: "?es ! (i - 1) = (read_f32 ((i - 1) * 16) (sab_buffer w), read_f32 ((i - 1) * 16 + 4) (sab_buffer w))"
      using nth_entries [of "i - 1" w] True 1(3) by (simp add: mult.commute)
    have y: "?y = fadd (read_f32 ((i - 1) * 16) (sab_buffer w)) (read_f32 ((i - 1) * 16 + 4) (sab_buffer w))"
      by (simp only: prev fst_conv snd_conv)
    have step: "recompute_loop fadd i w = recompute_loop fadd (i + 1) ?w"
      unfolding y by (subst recompute_loop.simps) (simp add: True LAYOUT_ENTRY_BYTES_def mult.commute Let_def)
    have ok: "sab_ok ?w"
      using write_field_ok [OF 1(2), of i 0] True 1(2) by (simp add: sab_ok_def)
    have es: "entries ?w = ?es'" by (rule write_y_entries [OF 1(2) True])
    have "16 * i + 16 \<le> length (sab_buffer w)"
      using True 1(2) by (intro entry_inside) (simp_all add: sab_ok_def)
    then have cap: "capacity_entries ?w = capacity_entries w" by (simp add: capacity_entries_def)
    have IH: "sab_ok (recompute_loop fadd (i + 1) ?w) \<and>
        entries (recompute_loop fadd (i + 1) ?w) = stack_from fadd (i + 1) (entries ?w) \<and>
        capacity_entries (recompute_loop fadd (i + 1) ?w) = capacity_entries ?w \<and>
        sab_entry_count (recompute_loop fadd (i + 1) ?w) = sab_entry_count ?w"
      using 1(1) [OF True refl refl refl refl refl, unfolded LAYOUT_ENTRY_BYTES_def] ok
      unfolding y by (simp add: mult.commute)
    have "stack_from fadd (i + 1) ?es' = stack_from fadd i ?es"
    proof -
      have "take (Suc i) ?es' = take i ?es @ [(?y, snd (?es ! i))]" using True by (simp add: take_Suc_conv_app_nth)
      moreover have "drop (Suc i) ?es' = drop (Suc i) ?es" by simp
      moreover have "drop i ?es = ?es ! i # drop (Suc i) ?es" using True by (simp add: Cons_nth_drop_Suc)
      moreover have "?es' ! i = (?y, snd (?es ! i))" using True by simp
      ultimately show ?thesis by (simp add: stack_from_def)
    qed
    with IH step es cap show ?thesis by simp
  qed
qed

lemma set_layout_writes:
  assumes "sab_ok w" and "i \<le> sab_entry_count w" and "i < capacity_entries w"
  shows "\<exists>w'. set_layout i y h w = Inr w' \<and> sab_ok w' \<and> capacity_entries w' = capacity_entries w \<and>
    entries w' = (if i = length (entries w) then entries w @ [(y, h)] else (entries w)[i := (y, h)])"
proof -
  note i = assms(2,3)
  let ?n = "if i = sab_entry_count w then sab_entry_count w + 1 else sab_entry_count w"
  let ?w1 = "w\<lparr>sab_buffer := write_at (16 * i + 0) (le_bytes 4 y) (sab_buffer w)\<rparr>"
  let ?w2 = "?w1\<lparr>sab_buffer := write_at (16 * i + 4) (le_bytes 4 h) (sab_buffer ?w1)\<rparr>"
  let ?w' = "?w2\<lparr>sab_entry_count := ?n\<rparr>"
  have len: "16 * i + 16 \<le> length (sab_buffer w)" by (rule entry_inside [OF assms(1) i(2)])
  have set: "set_layout i y h w = Inr ?w'"
    using i len by (simp add: set_layout_def LAYOUT_ENTRY_BYTES_def Let_def mult.commute)
  have ok1: "sab_ok ?w1" by (rule write_field_ok [OF assms(1) i(2)]) simp
  have cap1: "capacity_entries ?w1 = capacity_entries w" using len by (simp add: capacity_entries_def)
  have ok2: "sab_ok ?w2" by (rule write_field_ok [OF ok1]) (use i cap1 in simp_all)
  have cap2: "capacity_entries ?w' = capacity_entries w" using len by (simp add: capacity_entries_def)
  have ok': "sab_ok ?w'" using ok2 i cap2 by (simp add: sab_ok_def capacity_entries_def)
  have read: "read_f32 (16 * i) (sab_buffer ?w') = y" "read_f32 (16 * i + 4) (sab_buffer ?w') = h"
    using len by (simp_all add: read_same read_other)
  have other: "read_f32 (16 * k) (sab_buffer ?w') = read_f32 (16 * k) (sab_buffer w)"
    "read_f32 (16 * k + 4) (sab_buffer ?w') = read_f32 (16 * k + 4) (sab_buffer w)"
    if "k < sab_entry_count w" "k \<noteq> i" for k
  proof -
    have k: "16 * k + 16 \<le> length (sab_buffer w)" using that(1) assms(1) entry_inside [OF assms(1)] by (simp add: sab_ok_def)
    show "read_f32 (16 * k) (sab_buffer ?w') = read_f32 (16 * k) (sab_buffer w)"
      using k len aligned_apart [OF that(2), of 0 0] aligned_apart [OF that(2), of 0 4] by (simp add: read_other)
    show "read_f32 (16 * k + 4) (sab_buffer ?w') = read_f32 (16 * k + 4) (sab_buffer w)"
      using k len aligned_apart [OF that(2), of 4 0] aligned_apart [OF that(2), of 4 4] by (simp add: read_other)
  qed
  have "entries ?w' = (if i = length (entries w) then entries w @ [(y, h)] else (entries w)[i := (y, h)])"
  proof (rule nth_equalityI)
    fix k
    assume "k < length (entries ?w')"
    then have "k < ?n" by simp
    then show "entries ?w' ! k =
        (if i = length (entries w) then entries w @ [(y, h)] else (entries w)[i := (y, h)]) ! k"
      using i read other [of k] by (cases "k = i") (auto simp: nth_entries nth_append)
  qed simp
  with set ok' cap2 show ?thesis by blast
qed

section \<open>Properties\<close>

text \<open>Property C32 (sab_writer_refines_list). The writer is a list of entries of a fixed capacity. Setting an
  entry panics exactly when it would leave a gap or exceed the capacity, with the message of that case; otherwise it
  replaces the entry or appends one. Reading returns the entry or nothing. Recomputing from a position keeps what is before
  it and all heights and stacks every later entry under the one before. Both writing operations keep the length of the
  buffer, hence the capacity, and the zero padding.
\<close>

theorem sab_writer_refines_list:
  assumes "sab_ok w"
  shows "(case set_layout i y h w of
      Inl e \<Rightarrow> (length (entries w) < i \<or> capacity_entries w \<le> i) \<and>
        e = (if length (entries w) < i then WouldLeaveGap i (length (entries w)) else OutOfCapacity i (capacity_entries w))
    | Inr w' \<Rightarrow> i \<le> length (entries w) \<and> i < capacity_entries w \<and> sab_ok w' \<and>
        length (sab_buffer w') = length (sab_buffer w) \<and> capacity_entries w' = capacity_entries w \<and>
        entries w' = (if i = length (entries w) then entries w @ [(y, h)] else (entries w)[i := (y, h)])) \<and>
    get_layout i w = (if i < length (entries w) then Some (entries w ! i) else None) \<and>
    sab_ok (recompute_offsets fadd i w) \<and>
    length (sab_buffer (recompute_offsets fadd i w)) = length (sab_buffer w) \<and>
    capacity_entries (recompute_offsets fadd i w) = capacity_entries w \<and>
    entries (recompute_offsets fadd i w) =
      (if i < length (entries w) then stack_from fadd (max 1 i) (entries w) else entries w)"
proof (intro conjI)
  have cap: "16 * capacity_entries w = length (sab_buffer w)" "sab_entry_count w \<le> capacity_entries w"
    using assms by (simp_all add: sab_ok_def)
  show "case set_layout i y h w of
      Inl e \<Rightarrow> (length (entries w) < i \<or> capacity_entries w \<le> i) \<and>
        e = (if length (entries w) < i then WouldLeaveGap i (length (entries w)) else OutOfCapacity i (capacity_entries w))
    | Inr w' \<Rightarrow> i \<le> length (entries w) \<and> i < capacity_entries w \<and> sab_ok w' \<and>
        length (sab_buffer w') = length (sab_buffer w) \<and> capacity_entries w' = capacity_entries w \<and>
        entries w' = (if i = length (entries w) then entries w @ [(y, h)] else (entries w)[i := (y, h)])"
  proof (cases "sab_entry_count w < i \<or> capacity_entries w \<le> i")
    case True
    then show ?thesis
      using cap by (auto simp: set_layout_def LAYOUT_ENTRY_BYTES_def Let_def simp flip: cap(1))
  next
    case False
    then have i: "i \<le> sab_entry_count w" "i < capacity_entries w" by simp_all
    from set_layout_writes [OF assms i, of y h] obtain w' where w': "set_layout i y h w = Inr w'" "sab_ok w'"
      "capacity_entries w' = capacity_entries w"
      "entries w' = (if i = length (entries w) then entries w @ [(y, h)] else (entries w)[i := (y, h)])" by blast
    moreover from w'(2,3) cap(1) have "length (sab_buffer w') = length (sab_buffer w)" by (simp add: sab_ok_def)
    ultimately show ?thesis using i by simp
  qed
  show "get_layout i w = (if i < length (entries w) then Some (entries w ! i) else None)"
    by (simp add: get_layout_def nth_entries LAYOUT_ENTRY_BYTES_def mult.commute Let_def)
  have r: "sab_ok (recompute_offsets fadd i w) \<and> capacity_entries (recompute_offsets fadd i w) = capacity_entries w \<and>
      entries (recompute_offsets fadd i w) =
        (if i < length (entries w) then stack_from fadd (max 1 i) (entries w) else entries w)"
    using recompute_loop_entries [OF assms, of "max 1 i" fadd] assms
    by (auto simp: recompute_offsets_def max_def)
  then show "sab_ok (recompute_offsets fadd i w)"
    "capacity_entries (recompute_offsets fadd i w) = capacity_entries w"
    "entries (recompute_offsets fadd i w) =
      (if i < length (entries w) then stack_from fadd (max 1 i) (entries w) else entries w)" by simp_all
  from r cap(1) show "length (sab_buffer (recompute_offsets fadd i w)) = length (sab_buffer w)"
    by (simp add: sab_ok_def)
qed

theorem sab_writer_refines_list_witness:
  "case sab_new 2 of Inl _ \<Rightarrow> False | Inr w \<Rightarrow> sab_ok w \<and>
     (case set_layout 0 5 7 w of Inl _ \<Rightarrow> False | Inr w' \<Rightarrow> entries w' = [(5, 7)] \<and> sab_ok w')"
proof -
  let ?w = "\<lparr>sab_buffer = replicate 32 0, sab_entry_count = 0\<rparr>"
  have n: "sab_new 2 = Inr ?w" by (simp add: sab_new_def LAYOUT_ENTRY_BYTES_def)
  have ok: "sab_ok ?w" by (simp add: sab_ok_def capacity_entries_def LAYOUT_ENTRY_BYTES_def)
  have "entries ?w = []" "capacity_entries ?w = 2"
    by (simp_all add: entries_def capacity_entries_def LAYOUT_ENTRY_BYTES_def)
  with sab_writer_refines_list [OF ok, of 0 5 7, THEN conjunct1] n ok show ?thesis
    by (cases "set_layout 0 5 7 ?w") simp_all
qed

end
