(* ===== verification/Embedding.thy ===== *)
theory Embedding
  imports Complex_Main Batcher
begin

text \<open>
  Text embeddings (\<^verbatim>\<open>src/hydration/vector.rs\<close>): the seed of a text, the SplitMix64 generator, the numbers
  made of its output, and the write of the vector into grafeo past the Loro document. A component is the
  quotient of a 24-bit number by a power of two, which \<^verbatim>\<open>f32\<close> holds exactly, so it is a rational here.
\<close>

section \<open>The generator\<close>

unbundle bit_operations_syntax

definition rng_gamma :: u64 where
  "rng_gamma = 0x9E3779B97F4A7C15"

definition mix :: "u64 \<Rightarrow> u64" where
  "mix z =
     (let z = (z XOR drop_bit 30 z) * 0xBF58476D1CE4E5B9;
          z = (z XOR drop_bit 27 z) * 0x94D049BB133111EB
      in z XOR drop_bit 31 z)"

text \<open>\<^verbatim>\<open>SplitMix64::next_u64\<close>: the output and the next state.\<close>

definition next_u64 :: "u64 \<Rightarrow> u64 \<times> u64" where
  "next_u64 state = (let state = state + rng_gamma in (mix state, state))"

fun rng_take :: "nat \<Rightarrow> u64 \<Rightarrow> u64 list" where
  "rng_take 0 state = []"
| "rng_take (Suc n) state = (case next_u64 state of (x, state) \<Rightarrow> x # rng_take n state)"

definition u64_to_f01 :: "u64 \<Rightarrow> rat" where
  "u64_to_f01 x = of_nat (unat (drop_bit 40 x)) / 2 ^ 24"

definition text_seed :: "string \<Rightarrow> u64" where
  "text_seed text = foldl (\<lambda>acc b. acc * 31 + ucast b) 0 (as_bytes text)"

definition generate_local_embedding :: "string \<Rightarrow> rat list result" where
  "generate_local_embedding text = Inr (map u64_to_f01 (rng_take DEFAULT_EMBEDDING_DIM (text_seed text)))"

section \<open>Writing the vector\<close>

record 's vector_api =
  va_db :: "'s db_api"
  va_has_node :: "node_id \<Rightarrow> 's \<Rightarrow> bool"
  va_f32 :: "rat \<Rightarrow> f32"

definition vector_node_missing :: "node_id \<Rightarrow> grafeo_loro_error" where
  "vector_node_missing node_id =
     Bridge (Msg ''VectorOffloadManager: node {node_id:?} not found'' [A_Num (unat node_id)])"

definition handle_text_update :: "'s vector_api \<Rightarrow> node_id \<Rightarrow> string \<Rightarrow> 's \<Rightarrow> unit result \<times> 's" where
  "handle_text_update va node_id text s =
     (let db = va_db va in
      case generate_local_embedding text of Inl e \<Rightarrow> (Inl e, s) | Inr embedding \<Rightarrow>
     (case d_begin_transaction db s of
        (Inl e, s) \<Rightarrow> (Inl (Grafeo e), d_drop_session db s)
      | (Inr _, s) \<Rightarrow>
          if \<not> va_has_node va node_id s then (Inl (vector_node_missing node_id), d_drop_session db s)
          else
            let vector_value = GR_Vector (map (va_f32 va) embedding) in
     (case s_set_node_property (d_session db) node_id EMBEDDING_PROPERTY vector_value s of
        (Inl e, s) \<Rightarrow> (Inl (Grafeo e), d_drop_session db s)
      | (Inr _, s) \<Rightarrow>
     (case d_prepare_commit db s of
        (Inl e, s) \<Rightarrow> (Inl (Grafeo e), d_drop_session db s)
      | (Inr _, s) \<Rightarrow>
     (case d_commit db s of
        (Inl e, s) \<Rightarrow> (Inl (Grafeo e), d_drop_session db s)
      | (Inr epoch, s) \<Rightarrow> (Inr (), s))))))"

section \<open>The mixer is a bijection\<close>

lemma bit_xorshift:
  fixes x :: u64
  shows "bit (x XOR drop_bit k x) n \<longleftrightarrow> (bit x n \<noteq> bit x (n + k))"
  by (simp only: bit_xor_iff bit_drop_bit_eq comp_apply add.commute)

lemma xorshift_inj:
  fixes x y :: u64
  assumes "x XOR drop_bit k x = y XOR drop_bit k y" and "0 < k"
  shows "x = y"
proof (rule bit_word_eqI)
  have eq: "(bit x n \<noteq> bit x (n + k)) = (bit y n \<noteq> bit y (n + k))" for n
    by (simp only: bit_xorshift [symmetric] assms(1))
  have high: "bit x n = bit y n" if "64 - m \<le> n" for m n
    using that
  proof (induction m arbitrary: n)
    case 0
    then show ?case using bit_imp_le_length [of x n] bit_imp_le_length [of y n] by auto
  next
    case (Suc m)
    have "bit x (n + k) = bit y (n + k)" using Suc assms(2) by (intro Suc.IH) simp
    with eq [of n] show ?case by blast
  qed
  show "bit x n = bit y n" for n using high [where m = 64] by simp
qed

lemma mult_inj:
  fixes x y c d :: u64
  assumes "x * c = y * c" and "c * d = 1"
  shows "x = y"
proof -
  have "x = x * c * d" using assms(2) by (simp only: mult.assoc mult_1_right)
  also have "\<dots> = y * c * d" by (simp only: assms(1))
  also have "\<dots> = y" using assms(2) by (simp only: mult.assoc mult_1_right)
  finally show ?thesis .
qed

lemma mix_inj: "mix x = mix y \<Longrightarrow> x = y"
proof -
  let ?f = "\<lambda>z :: u64. (z XOR drop_bit 30 z) * 0xBF58476D1CE4E5B9"
  let ?g = "\<lambda>z :: u64. (z XOR drop_bit 27 z) * 0x94D049BB133111EB"
  assume "mix x = mix y"
  then have "?g (?f x) XOR drop_bit 31 (?g (?f x)) = ?g (?f y) XOR drop_bit 31 (?g (?f y))"
    by (simp only: mix_def Let_def)
  then have "?g (?f x) = ?g (?f y)" by (rule xorshift_inj) simp
  then have "?f x XOR drop_bit 27 (?f x) = ?f y XOR drop_bit 27 (?f y)"
    by (rule mult_inj [where d = "0x319642B2D24D8EC3"]) simp
  then have "?f x = ?f y" by (rule xorshift_inj) simp
  then have "x XOR drop_bit 30 x = y XOR drop_bit 30 y"
    by (rule mult_inj [where d = "0x96DE1B173F119089"]) simp
  then show "x = y" by (rule xorshift_inj) simp
qed

lemma rng_take_eq: "rng_take n state = map (\<lambda>i. mix (state + of_nat (Suc i) * rng_gamma)) [0..<n]"
proof (induction n arbitrary: state)
  case (Suc n)
  have "rng_take (Suc n) state = mix (state + rng_gamma) # rng_take n (state + rng_gamma)"
    by (simp add: next_u64_def Let_def)
  also have "\<dots> = map (\<lambda>i. mix (state + of_nat (Suc i) * rng_gamma)) (0 # map Suc [0..<n])"
    by (simp add: Suc.IH algebra_simps)
  also have "0 # map Suc [0..<n] = [0..<Suc n]" by (simp add: map_Suc_upt upt_conv_Cons del: upt_Suc)
  finally show ?case .
qed simp

lemma rng_take_distinct: "n < 2 ^ 64 \<Longrightarrow> distinct (rng_take n state)"
proof -
  assume n: "n < 2 ^ 64"
  have "i = j" if ij: "i < n" "j < n" and "mix (state + of_nat (Suc i) * rng_gamma) = mix (state + of_nat (Suc j) * rng_gamma)"
    for i j
  proof -
    have "state + of_nat (Suc i) * rng_gamma = state + of_nat (Suc j) * rng_gamma" by (rule mix_inj) (fact that)
    then have "(of_nat (Suc i) :: u64) * rng_gamma = of_nat (Suc j) * rng_gamma" by (simp only: add_left_cancel)
    then have "(of_nat (Suc i) :: u64) = of_nat (Suc j)"
      by (rule mult_inj [where d = "0xF1DE83E19937733D"]) (simp add: rng_gamma_def)
    then have "(of_nat i :: u64) = of_nat j" by simp
    then have "unat (of_nat i :: u64) = unat (of_nat j :: u64)" by simp
    then show ?thesis using ij n by (simp add: unat_of_nat take_bit_eq_mod)
  qed
  then show ?thesis by (auto simp: rng_take_eq distinct_map inj_on_def)
qed

text \<open>A vector is written only to a node that exists in the transaction; otherwise the session is dropped
  before any write.\<close>

lemma missing_node_not_written:
  assumes "d_begin_transaction (va_db va) s = (Inr u, s1)" and "\<not> va_has_node va nid s1"
  shows "handle_text_update va nid text s = (Inl (vector_node_missing nid), d_drop_session (va_db va) s1)"
  using assms by (simp add: handle_text_update_def generate_local_embedding_def Let_def)

lemma vector_written:
  assumes "handle_text_update va nid text s = (Inr (), s')"
  obtains s1 s2 s3 where "d_begin_transaction (va_db va) s = (Inr (), s1)" "va_has_node va nid s1"
    "s_set_node_property (d_session (va_db va)) nid EMBEDDING_PROPERTY
       (GR_Vector (map (va_f32 va \<circ> u64_to_f01) (rng_take DEFAULT_EMBEDDING_DIM (text_seed text)))) s1 = (Inr (), s2)"
    "d_prepare_commit (va_db va) s2 = (Inr (), s3)"
  using assms by (auto simp: handle_text_update_def generate_local_embedding_def Let_def
      split: prod.splits sum.splits if_splits)

section \<open>Properties\<close>

text \<open>Every text has an embedding of 384 components, each a multiple of two to
  the power of minus 24 in the half-open unit interval, made of 384 different 64-bit outputs of the
  generator: the mixing step is a bijection and the state does not repeat.
\<close>

theorem embedding_shape:
  "\<exists>v. generate_local_embedding text = Inr v \<and> length v = 384 \<and>
    set v \<subseteq> {of_nat n / 2 ^ 24 | n. n < 2 ^ 24} \<and> set v \<subseteq> {0..<1} \<and>
    distinct (rng_take DEFAULT_EMBEDDING_DIM (text_seed text)) \<and>
    v = map u64_to_f01 (rng_take DEFAULT_EMBEDDING_DIM (text_seed text))"
proof -
  have small: "unat (drop_bit 40 x) < 2 ^ 24" for x :: u64
  proof -
    have "unat x < 2 ^ 64" using unsigned_less [of x] by simp
    moreover from this have "take_bit LENGTH(64) (unat x) = unat x" by (intro take_bit_nat_eq_self) simp
    then have "unat (drop_bit 40 x) = unat x div 2 ^ 40"
      by (simp only: unsigned_drop_bit_eq) (simp only: drop_bit_eq_div)
    ultimately show ?thesis by simp
  qed
  have c1: "u64_to_f01 x \<in> {of_nat n / 2 ^ 24 | n. n < 2 ^ 24}" for x
    unfolding u64_to_f01_def by (rule CollectI, rule exI, rule conjI [OF refl small])
  have unit: "(of_nat n / 2 ^ 24 :: rat) \<in> {0..<1}" if "n < 2 ^ 24" for n :: nat
  proof -
    have "(of_nat n :: rat) < of_nat (2 ^ 24)" using that by (simp only: of_nat_less_iff)
    then show ?thesis by simp
  qed
  have c2: "u64_to_f01 x \<in> {0..<1}" for x unfolding u64_to_f01_def by (rule unit [OF small])
  let ?xs = "rng_take DEFAULT_EMBEDDING_DIM (text_seed text)"
  have len: "length ?xs = 384" by (simp add: rng_take_eq DEFAULT_EMBEDDING_DIM_def)
  have d: "distinct ?xs" by (rule rng_take_distinct) (simp add: DEFAULT_EMBEDDING_DIM_def)
  show ?thesis
  proof (intro exI [of _ "map u64_to_f01 ?xs"] conjI)
    show "generate_local_embedding text = Inr (map u64_to_f01 ?xs)" by (rule generate_local_embedding_def)
    show "length (map u64_to_f01 ?xs) = 384" by (simp only: length_map len)
    show "set (map u64_to_f01 ?xs) \<subseteq> {of_nat n / 2 ^ 24 | n. n < 2 ^ 24}"
      "set (map u64_to_f01 ?xs) \<subseteq> {0..<1}"
      unfolding set_map by (rule image_subsetI, rule c1) (rule image_subsetI, rule c2)
  qed (rule d, rule refl)
qed

end
