(* ===== verification/Ffi.thy ===== *)
theory Ffi
  imports Batcher Origin
begin

text \<open>
  The hot-path entry points of \<^verbatim>\<open>src/ffi/mod.rs\<close>: node batches, encoded operations, the registry of
  batcher slots with its flush callbacks, and the conflict callbacks. The statics of the module are one
  record; \<open>'w\<close> is the state the callbacks work on. bincode is the record \<open>bincode_api\<close>. The text merge of
  the same file is in its own theory.
\<close>

section \<open>Node batches\<close>

datatype node_value = NV_Null | NV_Bool bool | NV_Integer "64 word" | NV_Float f64 | NV_Str string

record node_op =
  no_loro_key :: string
  no_labels :: "string list"
  no_property_count :: nat
  no_property_keys :: "string list"
  no_property_values :: "node_value list"

primrec gval_from_node_value :: "node_value \<Rightarrow> graph_value" where
  "gval_from_node_value NV_Null = GV_Null"
| "gval_from_node_value (NV_Bool b) = GV_Bool b"
| "gval_from_node_value (NV_Integer i) = GV_Integer i"
| "gval_from_node_value (NV_Float f) = GV_Float f"
| "gval_from_node_value (NV_Str s) = GV_String s"

definition loro_op_from_node_op :: "node_op \<Rightarrow> loro_op" where
  "loro_op_from_node_op op =
     UpsertNode (no_loro_key op) (no_labels op)
       (foldl (\<lambda>properties (k, v). hm_insert k (gval_from_node_value v) properties) []
         (zip (no_property_keys op) (no_property_values op)))"

fun apply_node_batch :: "'s session_api \<Rightarrow> node_op list \<Rightarrow> 's tx \<Rightarrow> unit result \<times> 's tx" where
  "apply_node_batch api [] t = (Inr (), t)"
| "apply_node_batch api (node # nodes) t = (case apply_loro_op api (loro_op_from_node_op node) t of
     (Inl e, t) \<Rightarrow> (Inl e, t)
   | (Inr _, t) \<Rightarrow> apply_node_batch api nodes t)"

record bincode_api =
  bc_ops :: "bytes \<Rightarrow> string + loro_op list"
  bc_op :: "bytes \<Rightarrow> string + loro_op"

definition apply_loro_op_bytes ::
  "bincode_api \<Rightarrow> 's session_api \<Rightarrow> bytes \<Rightarrow> 's tx \<Rightarrow> unit result \<times> 's tx" where
  "apply_loro_op_bytes bc api bytes t = (case bc_ops bc bytes of
     Inl e \<Rightarrow> (Inl (Bridge (Msg ''bincode decode: {e}'' [A_Str e])), t)
   | Inr ops \<Rightarrow> apply_loro_ops api ops t)"

section \<open>The registry of batcher slots\<close>

type_synonym batcher_handle = usize

definition handle_unknown :: batcher_handle where
  "handle_unknown = - 1"

record 'w ffi_state =
  fs_registry :: "(usize, loro_op list) hmap option"
  fs_flush_callbacks :: "(bytes \<Rightarrow> 'w \<Rightarrow> 'w) list"
  fs_next_handle :: usize
  fs_conflict_callbacks :: "(conflict_detected \<Rightarrow> 'w \<Rightarrow> 'w) list"

definition ffi_init :: "'w ffi_state" where
  "ffi_init = \<lparr>fs_registry = None, fs_flush_callbacks = [], fs_next_handle = 0, fs_conflict_callbacks = []\<rparr>"

definition batcher_register :: "'w ffi_state \<Rightarrow> batcher_handle \<times> 'w ffi_state" where
  "batcher_register st =
     (let hid = fs_next_handle st;
          m = (case fs_registry st of None \<Rightarrow> [] | Some m \<Rightarrow> m)
      in (hid, st\<lparr>fs_next_handle := hid + 1, fs_registry := Some (hm_insert hid [] m)\<rparr>))"

definition not_initialised :: err_msg where
  "not_initialised = Msg ''batcher registry not initialised'' []"

definition unknown_handle :: "batcher_handle \<Rightarrow> err_msg" where
  "unknown_handle h = Msg ''unknown BatcherHandle: {}'' [A_Num (unat h)]"

definition find_slot :: "batcher_handle \<Rightarrow> 'w ffi_state \<Rightarrow> err_msg + ((usize, loro_op list) hmap \<times> loro_op list)" where
  "find_slot h st = (case fs_registry st of
     None \<Rightarrow> Inl not_initialised
   | Some m \<Rightarrow> (case hm_get m h of None \<Rightarrow> Inl (unknown_handle h) | Some pending \<Rightarrow> Inr (m, pending)))"

definition batcher_enqueue ::
  "bincode_api \<Rightarrow> batcher_handle \<Rightarrow> bytes \<Rightarrow> 'w ffi_state \<Rightarrow> (err_msg + unit) \<times> 'w ffi_state" where
  "batcher_enqueue bc h op_bytes st = (case bc_op bc op_bytes of
     Inl e \<Rightarrow> (Inl (Msg ''bincode decode LoroOp: {e}'' [A_Str e]), st)
   | Inr op \<Rightarrow> (case find_slot h st of
       Inl e \<Rightarrow> (Inl e, st)
     | Inr (m, pending) \<Rightarrow> (Inr (), st\<lparr>fs_registry := Some (hm_insert h (pending @ [op]) m)\<rparr>)))"

text \<open>The 16 bytes a flush callback receives: epoch and count, both big-endian.\<close>

definition flush_payload :: "u64 \<Rightarrow> u64 \<Rightarrow> bytes" where
  "flush_payload epoch op_count = rev (le_bytes 8 epoch) @ rev (le_bytes 8 op_count)"

definition run_flush_callbacks :: "bytes \<Rightarrow> 'w ffi_state \<Rightarrow> 'w \<Rightarrow> 'w" where
  "run_flush_callbacks payload st w = foldl (\<lambda>w cb. cb payload w) w (fs_flush_callbacks st)"

definition batcher_flush ::
  "batcher_handle \<Rightarrow> 'w ffi_state \<times> 'w \<Rightarrow> (err_msg + unit) \<times> 'w ffi_state \<times> 'w" where
  "batcher_flush h = (\<lambda>(st, w). case find_slot h st of
     Inl e \<Rightarrow> (Inl e, st, w)
   | Inr (m, drained) \<Rightarrow>
       (let st = st\<lparr>fs_registry := Some (hm_insert h [] m)\<rparr>;
            op_count = of_nat (length drained);
            payload = flush_payload 0 op_count
        in (Inr (), st, run_flush_callbacks payload st w)))"

definition batcher_on_flush :: "(bytes \<Rightarrow> 'w \<Rightarrow> 'w) \<Rightarrow> 'w ffi_state \<Rightarrow> 'w ffi_state" where
  "batcher_on_flush callback st = st\<lparr>fs_flush_callbacks := fs_flush_callbacks st @ [callback]\<rparr>"

definition dispatch_flush_callbacks :: "epoch_id \<Rightarrow> u64 \<Rightarrow> 'w ffi_state \<Rightarrow> 'w \<Rightarrow> 'w" where
  "dispatch_flush_callbacks epoch op_count st w = run_flush_callbacks (flush_payload epoch op_count) st w"

definition ffi_set_next_commit_origin ::
  "origin_kind \<Rightarrow> string option \<Rightarrow> next_commit_origin \<Rightarrow> (string + unit) \<times> next_commit_origin" where
  "ffi_set_next_commit_origin kind node_id cell = (Inr (), set_next_commit_origin kind node_id cell)"

definition on_conflict_detected :: "(conflict_detected \<Rightarrow> 'w \<Rightarrow> 'w) \<Rightarrow> 'w ffi_state \<Rightarrow> 'w ffi_state" where
  "on_conflict_detected callback st = st\<lparr>fs_conflict_callbacks := fs_conflict_callbacks st @ [callback]\<rparr>"

definition dispatch_conflict_detected :: "conflict_detected \<Rightarrow> 'w ffi_state \<Rightarrow> 'w \<Rightarrow> 'w" where
  "dispatch_conflict_detected ev st w = foldl (\<lambda>w cb. cb ev w) w (fs_conflict_callbacks st)"

section \<open>Batches and single operations\<close>

lemma apply_node_batch_ops: "apply_node_batch api nodes t = apply_loro_ops api (map loro_op_from_node_op nodes) t"
  by (induction nodes arbitrary: t) (auto split: prod.split sum.split)

text \<open>Of two properties with the same key the later one counts, and a longer array is cut to the shorter.\<close>

lemma node_op_properties:
  "hm_get (foldl (\<lambda>m (k, v). hm_insert k (gval_from_node_value v) m) m0 kvs) k =
     (case map_of (rev kvs) k of Some v \<Rightarrow> Some (gval_from_node_value v) | None \<Rightarrow> hm_get m0 k)"
  by (induction kvs arbitrary: m0) (auto simp: map_add_def split: option.split)

section \<open>What is pending\<close>

definition pending :: "batcher_handle \<Rightarrow> 'w ffi_state \<Rightarrow> loro_op list option" where
  "pending h st = (case fs_registry st of None \<Rightarrow> None | Some m \<Rightarrow> hm_get m h)"

lemma find_slot_pending:
  "find_slot h st = Inr (m, ops) \<longleftrightarrow> fs_registry st = Some m \<and> pending h st = Some ops"
  "(\<exists>e. find_slot h st = Inl e) \<longleftrightarrow> pending h st = None"
  by (auto simp: find_slot_def pending_def split: option.split)

text \<open>Every registered handle is below the counter.\<close>

definition handles_ok :: "'w ffi_state \<Rightarrow> bool" where
  "handles_ok st \<longleftrightarrow> (\<forall>h. pending h st \<noteq> None \<longrightarrow> h < fs_next_handle st)"

lemma handles_ok_init: "handles_ok ffi_init"
  by (simp add: handles_ok_def pending_def ffi_init_def)

lemma register_pending:
  "pending g (snd (batcher_register st)) = (if g = fs_next_handle st then Some [] else pending g st)"
  by (simp add: batcher_register_def pending_def Let_def split: option.split)

lemma handles_ok_register:
  assumes "handles_ok st" and "fs_next_handle st < - 1"
  shows "handles_ok (snd (batcher_register st))"
proof -
  have "fs_next_handle st < fs_next_handle st + 1"
    using assms(2) by (simp add: word_less_nat_alt unat_word_ariths unsigned_minus_1_eq_mask mask_eq_exp_minus_1)
  moreover have "fs_next_handle (snd (batcher_register st)) = fs_next_handle st + 1"
    by (simp add: batcher_register_def Let_def)
  ultimately show ?thesis
    using assms(1) by (auto simp: handles_ok_def register_pending intro: less_trans split: if_splits)
qed

lemma handles_ok_same:
  "handles_ok st \<Longrightarrow> fs_next_handle st' = fs_next_handle st \<Longrightarrow>
     \<forall>g. pending g st' = (if g = h then Some ops else pending g st) \<Longrightarrow> pending h st \<noteq> None \<Longrightarrow> handles_ok st'"
  unfolding handles_ok_def by metis

lemma enqueue_pending:
  assumes "bc_op bc bytes = Inr op" and "pending h st = Some ops"
  shows "\<exists>st'. batcher_enqueue bc h bytes st = (Inr (), st') \<and>
    (\<forall>g. pending g st' = (if g = h then Some (ops @ [op]) else pending g st)) \<and>
    fs_next_handle st' = fs_next_handle st \<and> fs_flush_callbacks st' = fs_flush_callbacks st"
proof -
  obtain m where "fs_registry st = Some m" "hm_get m h = Some ops"
    using assms(2) by (auto simp: pending_def split: option.splits)
  then show ?thesis by (simp add: batcher_enqueue_def assms(1) find_slot_def pending_def)
qed

lemma flush_pending:
  assumes "pending h st = Some ops"
  shows "\<exists>st'. batcher_flush h (st, w) =
      (Inr (), st', run_flush_callbacks (flush_payload 0 (of_nat (length ops))) st w) \<and>
    (\<forall>g. pending g st' = (if g = h then Some [] else pending g st)) \<and>
    fs_next_handle st' = fs_next_handle st \<and> fs_flush_callbacks st' = fs_flush_callbacks st"
proof -
  obtain m where "fs_registry st = Some m" "hm_get m h = Some ops"
    using assms by (auto simp: pending_def split: option.splits)
  then show ?thesis by (simp add: batcher_flush_def find_slot_def pending_def run_flush_callbacks_def Let_def)
qed

lemma unknown_slot:
  assumes "pending h st = None"
  shows "\<exists>e. batcher_flush h (st, w) = (Inl e, st, w)" "\<exists>e. batcher_enqueue bc h bytes st = (Inl e, st)"
  using assms by (auto simp: batcher_flush_def batcher_enqueue_def find_slot_def pending_def split: option.splits sum.splits)

lemma payload_decodes:
  "of_le_bytes (rev (take 8 (flush_payload e n))) = e" "of_le_bytes (rev (drop 8 (flush_payload e n))) = n"
  "length (flush_payload e n) = 16"
  by (simp_all add: flush_payload_def of_le_bytes_id)

section \<open>Histories of a slot\<close>

datatype ffi_op = Register | Enqueue batcher_handle bytes | FlushSlot batcher_handle

fun ffi_apply :: "bincode_api \<Rightarrow> ffi_op \<Rightarrow> 'w ffi_state \<times> 'w \<Rightarrow> 'w ffi_state \<times> 'w" where
  "ffi_apply bc Register (st, w) = (snd (batcher_register st), w)"
| "ffi_apply bc (Enqueue h bytes) (st, w) = (snd (batcher_enqueue bc h bytes st), w)"
| "ffi_apply bc (FlushSlot h) (st, w) = snd (batcher_flush h (st, w))"

text \<open>What the callers put into a slot since its last flush.\<close>

fun since_flush :: "bincode_api \<Rightarrow> batcher_handle \<Rightarrow> ffi_op list \<Rightarrow> loro_op list \<Rightarrow> loro_op list" where
  "since_flush bc h [] acc = acc"
| "since_flush bc h (Register # ops) acc = since_flush bc h ops acc"
| "since_flush bc h (Enqueue g bytes # ops) acc =
     since_flush bc h ops (if g = h then (case bc_op bc bytes of Inr op \<Rightarrow> acc @ [op] | Inl _ \<Rightarrow> acc) else acc)"
| "since_flush bc h (FlushSlot g # ops) acc = since_flush bc h ops (if g = h then [] else acc)"

lemma ffi_step_pending:
  assumes "pending h st = Some acc" and "handles_ok st" and "op = Register \<longrightarrow> fs_next_handle st < - 1"
  shows "pending h (fst (ffi_apply bc op (st, w))) = Some (since_flush bc h [op] acc) \<and>
    handles_ok (fst (ffi_apply bc op (st, w))) \<and>
    unat (fs_next_handle (fst (ffi_apply bc op (st, w)))) \<le> unat (fs_next_handle st) + (if op = Register then 1 else 0)"
proof (cases op)
  case Register
  have "h \<noteq> fs_next_handle st" using assms(1,2) by (auto simp: handles_ok_def)
  moreover have "unat (fs_next_handle st + 1) \<le> unat (fs_next_handle st) + 1"
    by (simp add: unat_word_ariths mod_less_eq_dividend)
  ultimately show ?thesis
    using assms Register handles_ok_register [of st] by (simp add: register_pending) (simp add: batcher_register_def Let_def)
next
  case (Enqueue g bytes)
  show ?thesis
  proof (cases "bc_op bc bytes")
    case (Inl e)
    then have "batcher_enqueue bc g bytes st = (Inl (Msg ''bincode decode LoroOp: {e}'' [A_Str e]), st)"
      by (simp add: batcher_enqueue_def)
    with assms(1,2) Enqueue Inl show ?thesis by simp
  next
    case (Inr op')
    show ?thesis
    proof (cases "pending g st")
      case None
      with unknown_slot(2) [OF None, of bc bytes] assms(1,2) Enqueue show ?thesis by auto
    next
      case (Some ops)
      then show ?thesis
        using enqueue_pending [OF Inr Some] assms(1,2) Enqueue Inr by (auto intro: handles_ok_same)
    qed
  qed
next
  case (FlushSlot g)
  show ?thesis
  proof (cases "pending g st")
    case None
    with unknown_slot(1) [OF None, of w] assms(1,2) FlushSlot show ?thesis by auto
  next
    case (Some ops)
    then show ?thesis using flush_pending [OF Some, of w] assms(1,2) FlushSlot by (auto intro: handles_ok_same)
  qed
qed

lemma since_flush_step: "since_flush bc h (op # ops) acc = since_flush bc h ops (since_flush bc h [op] acc)"
  by (cases op) simp_all

lemma ffi_run_pending:
  "pending h st = Some acc \<Longrightarrow> handles_ok st \<Longrightarrow>
     unat (fs_next_handle st) + length (filter (\<lambda>op. op = Register) ops) < 2 ^ 64 \<Longrightarrow>
     pending h (fst (fold (ffi_apply bc) ops (st, w))) = Some (since_flush bc h ops acc)"
proof (induction ops arbitrary: st w acc)
  case (Cons op ops)
  let ?st = "fst (ffi_apply bc op (st, w))" and ?w = "snd (ffi_apply bc op (st, w))"
  have "op = Register \<longrightarrow> fs_next_handle st < - 1"
    using Cons.prems(3) by (auto simp: word_less_nat_alt unsigned_minus_1_eq_mask mask_eq_exp_minus_1)
  note step = ffi_step_pending [OF Cons.prems(1,2) this, of bc w]
  have "unat (fs_next_handle ?st) + length (filter (\<lambda>op. op = Register) ops) < 2 ^ 64"
    using step Cons.prems(3) by (auto split: if_splits)
  with Cons.IH [of ?st "since_flush bc h [op] acc" ?w] step show ?case
    by (simp add: since_flush_step [of bc h op ops])
qed simp

section \<open>Properties\<close>

text \<open>A registered slot gets a handle no other slot has. After any
  interleaving of calls on all slots, a flush of it succeeds, calls every callback once with the number of
  operations decoded into the slot since its last flush, leaves it empty and does not touch the other
  slots. It drops those operations: nothing outside the slot receives them.
\<close>

theorem batcher_slot_accounting:
  assumes "handles_ok st" and "batcher_register st = (h, st0)"
    and "unat (fs_next_handle st) + length (filter (\<lambda>op. op = Register) ops) + 1 < 2 ^ 64"
    and "fold (ffi_apply bc) ops (st0, w) = (st1, w1)"
  shows "pending h st = None \<and> h \<noteq> handle_unknown \<and>
    (\<exists>st2 payload. batcher_flush h (st1, w1) = (Inr (), st2, foldl (\<lambda>w cb. cb payload w) w1 (fs_flush_callbacks st1)) \<and>
      of_le_bytes (rev (take 8 payload)) = (0 :: u64) \<and>
      of_le_bytes (rev (drop 8 payload)) = (of_nat (length (since_flush bc h ops [])) :: u64) \<and>
      (\<forall>g. pending g st2 = (if g = h then Some [] else pending g st1)))"
proof (intro conjI)
  have h: "h = fs_next_handle st" and st0: "st0 = snd (batcher_register st)"
    using assms(2) by (auto simp: batcher_register_def Let_def)
  have small: "fs_next_handle st < - 1"
    using assms(3) by (simp add: word_less_nat_alt unsigned_minus_1_eq_mask mask_eq_exp_minus_1)
  show "pending h st = None"
  proof (rule ccontr)
    assume "pending h st \<noteq> None"
    with assms(1) have "h < fs_next_handle st" unfolding handles_ok_def by blast
    with h show False by simp
  qed
  show "h \<noteq> handle_unknown" using small by (auto simp: h handle_unknown_def)
  have p0: "pending h st0 = Some []" by (simp add: st0 register_pending h)
  have ok0: "handles_ok st0" unfolding st0 by (rule handles_ok_register [OF assms(1) small])
  have "fs_next_handle st0 = fs_next_handle st + 1" by (simp add: st0 batcher_register_def Let_def)
  then have "unat (fs_next_handle st0) \<le> unat (fs_next_handle st) + 1"
    by (simp add: unat_word_ariths mod_less_eq_dividend)
  with assms(3) have "pending h (fst (fold (ffi_apply bc) ops (st0, w))) = Some (since_flush bc h ops [])"
    by (intro ffi_run_pending [OF p0 ok0]) simp
  then have "pending h st1 = Some (since_flush bc h ops [])" by (simp add: assms(4))
  from flush_pending [OF this, of w1] show
    "\<exists>st2 payload. batcher_flush h (st1, w1) = (Inr (), st2, foldl (\<lambda>w cb. cb payload w) w1 (fs_flush_callbacks st1)) \<and>
      of_le_bytes (rev (take 8 payload)) = (0 :: u64) \<and>
      of_le_bytes (rev (drop 8 payload)) = (of_nat (length (since_flush bc h ops [])) :: u64) \<and>
      (\<forall>g. pending g st2 = (if g = h then Some [] else pending g st1))"
    unfolding run_flush_callbacks_def using payload_decodes by metis
qed

text \<open>A codec in which every byte string is the deletion of one node, for the witness.\<close>

definition delete_codec :: bincode_api where
  "delete_codec = \<lparr>bc_ops = (\<lambda>bs. Inl ''unused''), bc_op = (\<lambda>bs. if bs = [] then Inl ''empty'' else Inr (DeleteNode ''x''))\<rparr>"

theorem batcher_slot_accounting_witness:
  "\<exists>st2 payload. batcher_flush 0 (fold (ffi_apply delete_codec) [Enqueue 0 [1], Register, Enqueue 1 [1], Enqueue 0 [2]]
       (snd (batcher_register ffi_init), 0 :: nat)) = (Inr (), st2, 0) \<and>
     of_le_bytes (rev (drop 8 payload)) = (2 :: u64) \<and> pending 0 st2 = Some []"
proof -
  let ?ops = "[Enqueue 0 [1], Register, Enqueue 1 [1], Enqueue 0 [2]]"
  let ?st0 = "snd (batcher_register (ffi_init :: nat ffi_state))"
  obtain st1 w1 where run: "fold (ffi_apply delete_codec) ?ops (?st0, 0 :: nat) = (st1, w1)" by fastforce
  have reg: "batcher_register (ffi_init :: nat ffi_state) = (0, ?st0)" by (simp add: batcher_register_def ffi_init_def)
  have none: "fs_flush_callbacks st1 = []" "w1 = 0"
    using run by (auto simp: batcher_register_def ffi_init_def batcher_enqueue_def delete_codec_def find_slot_def
        Let_def split: option.splits)
  have "since_flush delete_codec 0 ?ops [] = [DeleteNode ''x'', DeleteNode ''x'']"
    by (simp add: delete_codec_def)
  with batcher_slot_accounting [OF handles_ok_init reg _ run] none show ?thesis
    unfolding run by (auto simp: ffi_init_def)
qed

end
