(* ===== verification/Mailbox.thy ===== *)
theory Mailbox
  imports Prelude "HOL-Library.Sublist"
begin

text \<open>
  The mailbox over a bounded channel (\<^verbatim>\<open>src/runtime/mod.rs\<close>). Both handles share the two halves of the
  channel; a send clones the sender and waits for room, a receive takes the receiver out, waits without the
  lock, and a guard puts it back, also when the wait is cancelled. The channel of tokio is the record
  \<open>mpsc_api\<close> with the documented laws \<open>mpsc_laws\<close>: an operation that has to wait gives \<open>None\<close>.
\<close>

section \<open>The channel\<close>

record ('c, 'a) mpsc_api =
  mp_channel :: "nat \<Rightarrow> 'c"
  mp_clone_tx :: "'c \<Rightarrow> 'c"
  mp_drop_tx :: "'c \<Rightarrow> 'c"
  mp_drop_rx :: "'c \<Rightarrow> 'c"
  mp_send :: "'a \<Rightarrow> 'c \<Rightarrow> (bool \<times> 'c) option"
  mp_recv :: "'c \<Rightarrow> ('a option \<times> 'c) option"

text \<open>What can be seen of a channel: its messages, oldest first, its live senders, and whether its receiver lives.\<close>

record ('c, 'a) mpsc_view =
  content :: "'c \<Rightarrow> 'a list"
  senders :: "'c \<Rightarrow> nat"
  rx_open :: "'c \<Rightarrow> bool"

text \<open>
  The laws, from the documentation of \<^verbatim>\<open>tokio::sync::mpsc\<close>: a send to a live receiver appends its message or
  waits, and does not wait on an empty channel; a send to a dropped receiver fails; a receive gives the oldest
  message, else it waits while a sender lives and reports the end when none does.
\<close>

definition mpsc_handle_laws :: "('c, 'a) mpsc_api \<Rightarrow> ('c, 'a) mpsc_view \<Rightarrow> bool" where
  "mpsc_handle_laws api v \<longleftrightarrow>
     (\<forall>n. 0 < n \<longrightarrow> content v (mp_channel api n) = [] \<and> senders v (mp_channel api n) = 1 \<and> rx_open v (mp_channel api n)) \<and>
     (\<forall>c. content v (mp_clone_tx api c) = content v c \<and> senders v (mp_clone_tx api c) = Suc (senders v c) \<and>
        rx_open v (mp_clone_tx api c) = rx_open v c) \<and>
     (\<forall>c. content v (mp_drop_tx api c) = content v c \<and> senders v (mp_drop_tx api c) = senders v c - 1 \<and>
        rx_open v (mp_drop_tx api c) = rx_open v c) \<and>
     (\<forall>c. \<not> rx_open v (mp_drop_rx api c) \<and> senders v (mp_drop_rx api c) = senders v c)"

definition mpsc_send_law :: "('c, 'a) mpsc_api \<Rightarrow> ('c, 'a) mpsc_view \<Rightarrow> bool" where
  "mpsc_send_law api v \<longleftrightarrow> (\<forall>m c. case mp_send api m c of
       None \<Rightarrow> rx_open v c \<and> content v c \<noteq> []
     | Some (ok, c') \<Rightarrow> ok = rx_open v c \<and> rx_open v c' = rx_open v c \<and> senders v c' = senders v c \<and>
         (ok \<longrightarrow> content v c' = content v c @ [m]))"

definition mpsc_recv_law :: "('c, 'a) mpsc_api \<Rightarrow> ('c, 'a) mpsc_view \<Rightarrow> bool" where
  "mpsc_recv_law api v \<longleftrightarrow> (\<forall>c. rx_open v c \<longrightarrow> (case mp_recv api c of
       None \<Rightarrow> content v c = [] \<and> 0 < senders v c
     | Some (r, c') \<Rightarrow> rx_open v c' \<and> senders v c' = senders v c \<and>
         (case r of None \<Rightarrow> content v c = [] \<and> senders v c = 0 \<and> content v c' = []
          | Some x \<Rightarrow> content v c = x # content v c')))"

definition mpsc_laws :: "('c, 'a) mpsc_api \<Rightarrow> ('c, 'a) mpsc_view \<Rightarrow> bool" where
  "mpsc_laws api v \<longleftrightarrow> mpsc_handle_laws api v \<and> mpsc_send_law api v \<and> mpsc_recv_law api v"

lemma mpsc_send_cases:
  assumes "mpsc_laws api v" and "mp_send api m c = Some (ok, c')"
  shows "senders v c' = senders v c \<and> ok = rx_open v c \<and> rx_open v c' = rx_open v c \<and>
    (ok \<longrightarrow> content v c' = content v c @ [m])"
proof -
  from assms(1) have "case mp_send api m c of
       None \<Rightarrow> rx_open v c \<and> content v c \<noteq> []
     | Some (ok, c') \<Rightarrow> ok = rx_open v c \<and> rx_open v c' = rx_open v c \<and> senders v c' = senders v c \<and>
         (ok \<longrightarrow> content v c' = content v c @ [m])"
    by (simp add: mpsc_laws_def mpsc_send_law_def)
  with assms(2) show ?thesis by simp
qed

lemma mpsc_recv_law:
  assumes "mpsc_laws api v" and "rx_open v c"
  shows "case mp_recv api c of
       None \<Rightarrow> content v c = [] \<and> 0 < senders v c
     | Some (r, c') \<Rightarrow> rx_open v c' \<and> senders v c' = senders v c \<and>
         (case r of None \<Rightarrow> content v c = [] \<and> senders v c = 0 \<and> content v c' = []
          | Some x \<Rightarrow> content v c = x # content v c')"
  using assms by (simp add: mpsc_laws_def mpsc_recv_law_def)

lemma mpsc_recv_cases:
  assumes "mpsc_laws api v" and "rx_open v c" and "mp_recv api c = Some (r, c')"
  shows "senders v c' = senders v c \<and> rx_open v c' \<and> (case r of Some x \<Rightarrow> [x] | None \<Rightarrow> []) @ content v c' = content v c"
  using mpsc_recv_law [OF assms(1,2)] assms(3) by (cases r) simp_all

lemma mpsc_new_tx:
  assumes "mpsc_laws api v"
  shows "content v (mp_clone_tx api c) = content v c" "senders v (mp_clone_tx api c) = Suc (senders v c)"
    "rx_open v (mp_clone_tx api c) = rx_open v c" "content v (mp_drop_tx api c) = content v c"
    "senders v (mp_drop_tx api c) = senders v c - 1" "rx_open v (mp_drop_tx api c) = rx_open v c"
    "\<not> rx_open v (mp_drop_rx api c)" "senders v (mp_drop_rx api c) = senders v c"
  using assms by (simp_all add: mpsc_laws_def mpsc_handle_laws_def)

section \<open>The mailbox\<close>

datatype mailbox_role = Tx | Rx

text \<open>The shared state: which half is in place. What the halves refer to is the channel.\<close>

record 'c mailbox =
  mb_chan :: 'c
  mb_tx :: bool
  mb_rx :: bool

definition mb_new :: "('c, 'a) mpsc_api \<Rightarrow> nat \<Rightarrow> 'c mailbox" where
  "mb_new api capacity = \<lparr>mb_chan = mp_channel api capacity, mb_tx = True, mb_rx = True\<rparr>"

text \<open>Dropping a handle takes its half out and drops it, when it is in place.\<close>

fun mb_drop :: "('c, 'a) mpsc_api \<Rightarrow> mailbox_role \<Rightarrow> 'c mailbox \<Rightarrow> 'c mailbox" where
  "mb_drop api Tx b = (if mb_tx b then b\<lparr>mb_tx := False, mb_chan := mp_drop_tx api (mb_chan b)\<rparr> else b)"
| "mb_drop api Rx b = (if mb_rx b then b\<lparr>mb_rx := False, mb_chan := mp_drop_rx api (mb_chan b)\<rparr> else b)"

datatype mailbox_closed = MailboxClosed

text \<open>
  A send: the clone of the sender, taken under the lock, or the error; then the waiting send on the clone, which
  is dropped at its end.
\<close>

definition send_begin :: "('c, 'a) mpsc_api \<Rightarrow> 'c mailbox \<Rightarrow> bool \<times> 'c mailbox" where
  "send_begin api b =
     (if mb_tx b then (True, b\<lparr>mb_chan := mp_clone_tx api (mb_chan b)\<rparr>) else (False, b))"

definition send_await :: "('c, 'a) mpsc_api \<Rightarrow> 'a \<Rightarrow> 'c mailbox \<Rightarrow> ((mailbox_closed + unit) \<times> 'c mailbox) option" where
  "send_await api msg b = (case mp_send api msg (mb_chan b) of
       None \<Rightarrow> None
     | Some (ok, c) \<Rightarrow>
         Some (if ok then Inr () else Inl MailboxClosed, b\<lparr>mb_chan := mp_drop_tx api c\<rparr>))"

definition mb_send :: "('c, 'a) mpsc_api \<Rightarrow> 'a \<Rightarrow> 'c mailbox \<Rightarrow> ((mailbox_closed + unit) \<times> 'c mailbox) option" where
  "mb_send api msg b = (case send_begin api b of
       (False, b) \<Rightarrow> Some (Inl MailboxClosed, b)
     | (True, b) \<Rightarrow> send_await api msg b)"

text \<open>A receive: taking the receiver gives a guard that holds it or not; the guard receives and is dropped.\<close>

definition mb_take :: "'c mailbox \<Rightarrow> bool \<times> 'c mailbox" where
  "mb_take b = (mb_rx b, b\<lparr>mb_rx := False\<rparr>)"

definition guard_recv :: "('c, 'a) mpsc_api \<Rightarrow> bool \<Rightarrow> 'c mailbox \<Rightarrow> ('a option \<times> 'c mailbox) option" where
  "guard_recv api guard b =
     (if guard then map_option (\<lambda>(r, c). (r, b\<lparr>mb_chan := c\<rparr>)) (mp_recv api (mb_chan b)) else Some (None, b))"

definition guard_drop :: "bool \<Rightarrow> 'c mailbox \<Rightarrow> 'c mailbox" where
  "guard_drop guard b = (if guard then b\<lparr>mb_rx := True\<rparr> else b)"

definition mb_recv :: "('c, 'a) mpsc_api \<Rightarrow> 'c mailbox \<Rightarrow> ('a option \<times> 'c mailbox) option" where
  "mb_recv api b = (case mb_take b of (guard, b) \<Rightarrow>
     map_option (\<lambda>(r, b). (r, guard_drop guard b)) (guard_recv api guard b))"

section \<open>Interleavings\<close>

text \<open>
  The mailbox with the sends that wait on their clone and the guards of the receives under way, and what was
  accepted and delivered so far. Any of them may complete when it is ready, or be cancelled; the handles may be dropped.
\<close>

record ('c, 'a) mailbox_world =
  mw_box :: "'c mailbox"
  mw_sends :: "'a list"
  mw_guards :: "bool list"
  mw_accepted :: "'a list"
  mw_delivered :: "'a list"

inductive mb_step :: "('c, 'a) mpsc_api \<Rightarrow> ('c, 'a) mailbox_world \<Rightarrow> ('c, 'a) mailbox_world \<Rightarrow> bool" for api where
  SendBegin: "send_begin api (mw_box w) = (ok, b) \<Longrightarrow>
    mb_step api w (w\<lparr>mw_box := b, mw_sends := (if ok then m # mw_sends w else mw_sends w)\<rparr>)"
| SendReady: "mw_sends w = ms1 @ m # ms2 \<Longrightarrow> send_await api m (mw_box w) = Some (r, b) \<Longrightarrow>
    mb_step api w (w\<lparr>mw_box := b, mw_sends := ms1 @ ms2,
      mw_accepted := mw_accepted w @ (if r = Inr () then [m] else [])\<rparr>)"
| SendCancel: "mw_sends w = ms1 @ m # ms2 \<Longrightarrow>
    mb_step api w (w\<lparr>mw_box := (mw_box w)\<lparr>mb_chan := mp_drop_tx api (mb_chan (mw_box w))\<rparr>, mw_sends := ms1 @ ms2\<rparr>)"
| RecvBegin: "mb_take (mw_box w) = (g, b) \<Longrightarrow> mb_step api w (w\<lparr>mw_box := b, mw_guards := g # mw_guards w\<rparr>)"
| RecvReady: "mw_guards w = gs1 @ g # gs2 \<Longrightarrow> guard_recv api g (mw_box w) = Some (r, b) \<Longrightarrow>
    mb_step api w (w\<lparr>mw_box := guard_drop g b, mw_guards := gs1 @ gs2,
      mw_delivered := mw_delivered w @ (case r of Some x \<Rightarrow> [x] | None \<Rightarrow> [])\<rparr>)"
| RecvCancel: "mw_guards w = gs1 @ g # gs2 \<Longrightarrow>
    mb_step api w (w\<lparr>mw_box := guard_drop g (mw_box w), mw_guards := gs1 @ gs2\<rparr>)"
| Drop: "mb_step api w (w\<lparr>mw_box := mb_drop api role (mw_box w)\<rparr>)"

definition mw_new :: "('c, 'a) mpsc_api \<Rightarrow> nat \<Rightarrow> ('c, 'a) mailbox_world" where
  "mw_new api capacity =
     \<lparr>mw_box = mb_new api capacity, mw_sends = [], mw_guards = [], mw_accepted = [], mw_delivered = []\<rparr>"

text \<open>
  The invariant: the receiver is held once while it lives, by the mailbox or by one guard, and by nobody after;
  the senders alive are that of the mailbox and the clones; what was delivered is the oldest part of what was
  accepted, and the rest is in the channel while the receiver lives.
\<close>

definition holders :: "('c, 'a) mailbox_world \<Rightarrow> nat" where
  "holders w = length (filter id (mw_guards w)) + (if mb_rx (mw_box w) then 1 else 0)"

definition mw_ok :: "('c, 'a) mpsc_view \<Rightarrow> ('c, 'a) mailbox_world \<Rightarrow> bool" where
  "mw_ok v w \<longleftrightarrow>
     holders w = (if rx_open v (mb_chan (mw_box w)) then 1 else 0) \<and>
     senders v (mb_chan (mw_box w)) = length (mw_sends w) + (if mb_tx (mw_box w) then 1 else 0) \<and>
     prefix (mw_delivered w) (mw_accepted w) \<and>
     (rx_open v (mb_chan (mw_box w)) \<longrightarrow> mw_delivered w @ content v (mb_chan (mw_box w)) = mw_accepted w)"

lemma mw_ok_new:
  assumes "mpsc_laws api v" and "0 < capacity"
  shows "mw_ok v (mw_new api capacity)"
  using assms by (simp add: mw_ok_def mw_new_def mb_new_def holders_def mpsc_laws_def mpsc_handle_laws_def)

lemma mw_ok_step:
  assumes laws: "mpsc_laws api v" and "mb_step api w w'" and ok: "mw_ok v w"
  shows "mw_ok v w'"
  using assms(2)
proof cases
  case (SendBegin t b m)
  with ok show ?thesis
    by (auto simp: send_begin_def mw_ok_def holders_def mpsc_new_tx [OF laws] split: if_splits)
next
  case (SendReady ms1 m ms2 r b)
  from SendReady(3) obtain t c where c: "mp_send api m (mb_chan (mw_box w)) = Some (t, c)"
    "r = (if t then Inr () else Inl MailboxClosed)" "b = mw_box w\<lparr>mb_chan := mp_drop_tx api c\<rparr>"
    by (auto simp: send_await_def split: option.splits prod.splits)
  note l = mpsc_send_cases [OF laws c(1)]
  show ?thesis
  proof (cases t)
    case True
    with l ok have "mw_delivered w @ content v c = mw_accepted w @ [m]"
      by (simp add: mw_ok_def)
    with True l ok SendReady(1,2) c show ?thesis
      by (simp add: mw_ok_def holders_def mpsc_new_tx [OF laws])
  next
    case False
    with l ok SendReady(1,2) c show ?thesis
      by (simp add: mw_ok_def holders_def mpsc_new_tx [OF laws] split: if_splits)
  qed
next
  case (SendCancel ms1 m ms2)
  with ok show ?thesis by (simp add: mw_ok_def holders_def mpsc_new_tx [OF laws])
next
  case (RecvBegin g b)
  with ok show ?thesis
    by (cases "rx_open v (mb_chan (mw_box w))"; cases "mb_rx (mw_box w)") (auto simp: mb_take_def mw_ok_def holders_def)
next
  case (RecvReady gs1 g gs2 r b)
  show ?thesis
  proof (cases g)
    case True
    from RecvReady(3) True obtain c where c: "mp_recv api (mb_chan (mw_box w)) = Some (r, c)" "b = mw_box w\<lparr>mb_chan := c\<rparr>"
      by (auto simp: guard_recv_def)
    have op: "rx_open v (mb_chan (mw_box w))" and rx: "\<not> mb_rx (mw_box w)"
      using ok True RecvReady(2) by (auto simp: mw_ok_def holders_def split: if_splits)
    note l = mpsc_recv_cases [OF laws op c(1)]
    have e: "(mw_delivered w @ (case r of Some x \<Rightarrow> [x] | None \<Rightarrow> [])) @ content v c = mw_accepted w"
      using ok op l by (simp add: mw_ok_def)
    then have "prefix (mw_delivered w @ (case r of Some x \<Rightarrow> [x] | None \<Rightarrow> [])) (mw_accepted w)"
      by (metis prefixI)
    with e l ok op rx True RecvReady(1,2) c(2) show ?thesis
      by (simp add: mw_ok_def holders_def guard_drop_def)
  next
    case False
    with RecvReady ok show ?thesis by (auto simp: mw_ok_def holders_def guard_drop_def guard_recv_def)
  qed
next
  case (RecvCancel gs1 g gs2)
  show ?thesis
  proof (cases g)
    case True
    with ok RecvCancel(2) have "rx_open v (mb_chan (mw_box w)) \<and> \<not> mb_rx (mw_box w)"
      by (auto simp: mw_ok_def holders_def split: if_splits)
    with ok RecvCancel True show ?thesis by (simp add: mw_ok_def holders_def guard_drop_def)
  next
    case False
    with ok RecvCancel show ?thesis by (simp add: mw_ok_def holders_def guard_drop_def)
  qed
next
  case (Drop role)
  with ok show ?thesis
    by (cases role) (auto simp: mw_ok_def holders_def mpsc_new_tx [OF laws] split: if_splits)
qed

lemma mw_ok_reachable:
  assumes "mpsc_laws api v" and "0 < capacity" and "(mb_step api)\<^sup>*\<^sup>* (mw_new api capacity) w"
  shows "mw_ok v w"
  using assms(3)
proof (induction rule: rtranclp_induct)
  case base
  show ?case by (rule mw_ok_new [OF assms(1,2)])
next
  case (step w w')
  then show ?case using mw_ok_step [OF assms(1)] by blast
qed

section \<open>Delivery\<close>

lemma guard_delivers:
  assumes laws: "mpsc_laws api v" and op: "rx_open v (mb_chan b)" and "content v (mb_chan b) = x # xs"
  obtains c where "guard_recv api True b = Some (Some x, b\<lparr>mb_chan := c\<rparr>)" "content v c = xs" "rx_open v c"
  using mpsc_recv_law [OF laws op] assms(3) that by (auto simp: guard_recv_def split: option.splits)

lemma mb_recv_oldest:
  assumes "mpsc_laws api v" and "rx_open v (mb_chan b)" and "content v (mb_chan b) = x # xs" and "mb_rx b"
  shows "\<exists>b'. mb_recv api b = Some (Some x, b') \<and> mb_rx b' \<and> content v (mb_chan b') = xs"
proof -
  obtain c where "guard_recv api True (b\<lparr>mb_rx := False\<rparr>) = Some (Some x, b\<lparr>mb_rx := False, mb_chan := c\<rparr>)" "content v c = xs"
    using guard_delivers [of api v "b\<lparr>mb_rx := False\<rparr>" x xs] assms by auto
  with assms(4) show ?thesis by (simp add: mb_recv_def mb_take_def guard_drop_def)
qed

lemma guard_step:
  assumes laws: "mpsc_laws api v" and "mw_guards w = gs1 @ True # gs2"
    and "rx_open v (mb_chan (mw_box w))" and "content v (mb_chan (mw_box w)) = x # xs"
  shows "\<exists>w'. mb_step api w w' \<and> mw_delivered w' = mw_delivered w @ [x] \<and> mw_accepted w' = mw_accepted w \<and>
    rx_open v (mb_chan (mw_box w')) \<and> content v (mb_chan (mw_box w')) = xs"
proof -
  obtain c where c: "guard_recv api True (mw_box w) = Some (Some x, (mw_box w)\<lparr>mb_chan := c\<rparr>)" "content v c = xs" "rx_open v c"
    by (rule guard_delivers [OF laws assms(3,4)])
  note st = mb_step.RecvReady [OF assms(2) c(1)]
  show ?thesis by (rule exI, rule conjI, rule st) (simp add: guard_drop_def c)
qed

lemma mw_delivers_one:
  assumes laws: "mpsc_laws api v" and ok: "mw_ok v w" and op: "rx_open v (mb_chan (mw_box w))"
    and x: "content v (mb_chan (mw_box w)) = x # xs"
  shows "\<exists>w'. (mb_step api)\<^sup>*\<^sup>* w w' \<and> mw_delivered w' = mw_delivered w @ [x] \<and> mw_accepted w' = mw_accepted w \<and>
    rx_open v (mb_chan (mw_box w')) \<and> content v (mb_chan (mw_box w')) = xs"
proof (cases "mb_rx (mw_box w)")
  case True
  let ?w = "w\<lparr>mw_box := (mw_box w)\<lparr>mb_rx := False\<rparr>, mw_guards := True # mw_guards w\<rparr>"
  have "mb_step api w ?w" by (rule mb_step.RecvBegin) (simp add: mb_take_def True)
  moreover obtain w' where "mb_step api ?w w'" "mw_delivered w' = mw_delivered ?w @ [x]" "mw_accepted w' = mw_accepted ?w"
    "rx_open v (mb_chan (mw_box w'))" "content v (mb_chan (mw_box w')) = xs"
    using guard_step [OF laws, of ?w "[]" "mw_guards w" x xs] op x by auto
  ultimately show ?thesis by (intro exI [of _ w']) (auto intro: converse_rtranclp_into_rtranclp)
next
  case False
  with ok op have "length (filter id (mw_guards w)) = 1" by (simp add: mw_ok_def holders_def)
  then have "True \<in> set (mw_guards w)" by (induction "mw_guards w") (auto simp: filter_eq_Cons_iff length_Suc_conv)
  then obtain gs1 gs2 where "mw_guards w = gs1 @ True # gs2" by (meson split_list)
  from guard_step [OF laws this op x] show ?thesis by blast
qed

lemma mw_delivers_all:
  assumes laws: "mpsc_laws api v" and "mw_ok v w" and "rx_open v (mb_chan (mw_box w))"
  shows "\<exists>w'. (mb_step api)\<^sup>*\<^sup>* w w' \<and> mw_delivered w' = mw_accepted w"
  using assms(2,3)
proof (induction "content v (mb_chan (mw_box w))" arbitrary: w)
  case Nil
  then have "mw_delivered w = mw_accepted w" by (simp add: mw_ok_def)
  then show ?case by blast
next
  case (Cons x xs)
  obtain w' where w': "(mb_step api)\<^sup>*\<^sup>* w w'" "mw_accepted w' = mw_accepted w"
    "rx_open v (mb_chan (mw_box w'))" "content v (mb_chan (mw_box w')) = xs"
    using mw_delivers_one [OF laws Cons.prems Cons.hyps(2) [symmetric]] by blast
  from w'(1) have "mw_ok v w'"
    by (induction rule: rtranclp_induct) (use Cons.prems(1) mw_ok_step [OF laws] in blast)+
  from Cons.hyps(1) [OF _ this w'(3)] w' show ?case by (metis rtranclp_trans)
qed

text \<open>Property C13 (mailbox_delivers_accepted). In every interleaving of sends, receives, cancellations and drops of
  the handles, what was delivered is an initial part of what was accepted, in order; the receiver is held exactly once
  while it lives; and while it lives nothing is lost: what is not yet delivered can all be delivered from here, and a
  receive that finds the receiver in place returns the oldest message not delivered.\<close>
theorem mailbox_delivers_accepted:
  assumes "mpsc_laws api v" and "0 < capacity" and "(mb_step api)\<^sup>*\<^sup>* (mw_new api capacity) w"
  shows "prefix (mw_delivered w) (mw_accepted w) \<and>
    (rx_open v (mb_chan (mw_box w)) \<longrightarrow>
       holders w = 1 \<and> (\<exists>w'. (mb_step api)\<^sup>*\<^sup>* w w' \<and> mw_delivered w' = mw_accepted w)) \<and>
    (mb_rx (mw_box w) \<longrightarrow> (\<forall>x xs. mw_accepted w = mw_delivered w @ x # xs \<longrightarrow>
       (\<exists>b'. mb_recv api (mw_box w) = Some (Some x, b') \<and> mb_rx b' \<and> content v (mb_chan b') = xs)))"
proof -
  have ok: "mw_ok v w" by (rule mw_ok_reachable [OF assms])
  then have "prefix (mw_delivered w) (mw_accepted w)" by (simp add: mw_ok_def)
  moreover have "holders w = 1 \<and> (\<exists>w'. (mb_step api)\<^sup>*\<^sup>* w w' \<and> mw_delivered w' = mw_accepted w)"
    if "rx_open v (mb_chan (mw_box w))"
    using ok that mw_delivers_all [OF assms(1) ok that] by (simp add: mw_ok_def)
  moreover have "\<exists>b'. mb_recv api (mw_box w) = Some (Some x, b') \<and> mb_rx b' \<and> content v (mb_chan b') = xs"
    if rx: "mb_rx (mw_box w)" and x: "mw_accepted w = mw_delivered w @ x # xs" for x xs
  proof -
    have op: "rx_open v (mb_chan (mw_box w))" using ok rx by (auto simp: mw_ok_def holders_def split: if_splits)
    with ok x have "content v (mb_chan (mw_box w)) = x # xs" by (simp add: mw_ok_def)
    with op rx show ?thesis using mb_recv_oldest [OF assms(1)] by blast
  qed
  ultimately show ?thesis by blast
qed

text \<open>A channel for the witness: the capacity, the messages, the number of senders and whether the receiver lives.\<close>

type_synonym list_channel = "nat \<times> nat list \<times> nat \<times> bool"

definition list_mpsc :: "(list_channel, nat) mpsc_api" where
  "list_mpsc = \<lparr>mp_channel = (\<lambda>n. (n, [], 1, True)),
     mp_clone_tx = (\<lambda>(n, ms, k, r). (n, ms, Suc k, r)),
     mp_drop_tx = (\<lambda>(n, ms, k, r). (n, ms, k - 1, r)),
     mp_drop_rx = (\<lambda>(n, ms, k, r). (n, [], k, False)),
     mp_send = (\<lambda>m (n, ms, k, r). if \<not> r then Some (False, n, ms, k, r)
        else if ms = [] \<or> length ms < n then Some (True, n, ms @ [m], k, r) else None),
     mp_recv = (\<lambda>(n, ms, k, r). case ms of x # xs \<Rightarrow> Some (Some x, n, xs, k, r)
        | [] \<Rightarrow> if k = 0 then Some (None, n, [], k, r) else None)\<rparr>"

definition list_view :: "(list_channel, nat) mpsc_view" where
  "list_view = \<lparr>content = (\<lambda>(n, ms, k, r). ms), senders = (\<lambda>(n, ms, k, r). k), rx_open = (\<lambda>(n, ms, k, r). r)\<rparr>"

lemma list_mpsc_laws: "mpsc_laws list_mpsc list_view"
  by (auto simp: mpsc_laws_def mpsc_handle_laws_def mpsc_send_law_def mpsc_recv_law_def list_mpsc_def list_view_def
      split: list.splits)

text \<open>One message sent through a mailbox of capacity 8, as in the tests of the module.\<close>

definition sent_one :: "(list_channel, nat) mailbox_world" where
  "sent_one = \<lparr>mw_box = \<lparr>mb_chan = (8, [42], 1, True), mb_tx = True, mb_rx = True\<rparr>,
     mw_sends = [], mw_guards = [], mw_accepted = [42], mw_delivered = []\<rparr>"

lemma sent_one_reachable: "(mb_step list_mpsc)\<^sup>*\<^sup>* (mw_new list_mpsc 8) sent_one"
proof -
  let ?w = "\<lparr>mw_box = \<lparr>mb_chan = (8, [], 2, True), mb_tx = True, mb_rx = True\<rparr>,
     mw_sends = [42], mw_guards = [], mw_accepted = [], mw_delivered = []\<rparr>"
  have "mb_step list_mpsc (mw_new list_mpsc 8) ?w"
    using mb_step.SendBegin [of list_mpsc "mw_new list_mpsc 8" True "mw_box ?w" 42]
    by (simp add: mw_new_def mb_new_def send_begin_def list_mpsc_def)
  moreover have "mb_step list_mpsc ?w sent_one"
    using mb_step.SendReady [of ?w "[]" 42 "[]" list_mpsc "Inr ()" "mw_box sent_one"]
    by (simp add: send_await_def list_mpsc_def sent_one_def)
  ultimately show ?thesis by (meson rtranclp.rtrancl_into_rtrancl rtranclp.rtrancl_refl)
qed

lemma mailbox_delivers_accepted_witness:
  "prefix (mw_delivered sent_one) (mw_accepted sent_one) \<and>
   (\<exists>w'. (mb_step list_mpsc)\<^sup>*\<^sup>* sent_one w' \<and> mw_delivered w' = [42]) \<and>
   (\<exists>b'. mb_recv list_mpsc (mw_box sent_one) = Some (Some 42, b') \<and> mb_rx b' \<and> content list_view (mb_chan b') = [])"
  using mailbox_delivers_accepted [OF list_mpsc_laws _ sent_one_reachable]
  by (simp add: sent_one_def list_view_def)

text \<open>
  A receive begun on the sending handle holds the receiver: dropping the receiving handle meanwhile drops nothing,
  the guard puts the receiver back at its end, and sends are accepted from then on.
\<close>

lemma drop_during_receive_keeps_open:
  assumes "mb_rx b" and "mb_take b = (g, b1)"
  shows "mb_drop api Rx b1 = b1 \<and> guard_drop g (mb_drop api Rx b1) = b"
  using assms by (auto simp: mb_take_def guard_drop_def)

end
