(* ===== verification/Health.thy ===== *)
theory Health
  imports Prelude
begin

text \<open>
  The health probe (\<^verbatim>\<open>telemetry/health.rs\<close>) and the clocks it shares with the runtime
  (\<^verbatim>\<open>now_ms\<close> of \<^verbatim>\<open>runtime/mod.rs\<close>). A reading of the system clock is the number of milliseconds since
  the epoch of Unix, or \<open>None\<close> when the clock is set before it; \<open>loro_free\<close> says that no writer holds the
  lock of the document and \<open>query_ok\<close> that grafeo answered the dummy query.
\<close>

definition unix_timestamp_ms :: "nat option \<Rightarrow> u64" where
  "unix_timestamp_ms clock = (case clock of Some ms \<Rightarrow> word_of_nat ms | None \<Rightarrow> 0)"

text \<open>The native clock of the runtime is read the same way.\<close>

definition now_ms :: "nat option \<Rightarrow> u64" where
  "now_ms clock = (case clock of Some ms \<Rightarrow> word_of_nat ms | None \<Rightarrow> 0)"

text \<open>The lock and the database of a probe are not owned by it: what it finds there is an argument of \<open>health_check\<close>.\<close>

record health_probe =
  last_sync_ts :: u64

record health_status =
  hs_overall :: bool
  hs_components :: "(string \<times> bool) list"

definition health_new :: "nat option \<Rightarrow> health_probe" where
  "health_new clock = \<lparr>last_sync_ts = unix_timestamp_ms clock\<rparr>"

definition update_sync_ts :: "nat option \<Rightarrow> health_probe \<Rightarrow> health_probe" where
  "update_sync_ts clock p = p\<lparr>last_sync_ts := unix_timestamp_ms clock\<rparr>"

definition health_check :: "bool \<Rightarrow> bool \<Rightarrow> nat option \<Rightarrow> u64 \<Rightarrow> health_probe \<Rightarrow> health_status" where
  "health_check loro_free query_ok clock max_staleness_ms p =
     (let now = unix_timestamp_ms clock;
          sync_ok = saturating_sub now (last_sync_ts p) \<le> max_staleness_ms
      in \<lparr>hs_overall = (loro_free \<and> query_ok \<and> sync_ok),
          hs_components = [(''loro_doc'', loro_free), (''grafeo_db'', query_ok), (''sync_freshness'', sync_ok)]\<rparr>)"

lemma overall_is_and_of_components:
  "hs_overall (health_check l q clock m p) = list_all snd (hs_components (health_check l q clock m p))"
  by (simp add: health_check_def Let_def)

lemma unat_unix_timestamp: "ms < 2 ^ 64 \<Longrightarrow> unat (unix_timestamp_ms (Some ms)) = ms"
  by (simp add: unix_timestamp_ms_def unat_of_nat take_bit_nat_eq_self)

text \<open>
  The age is compared with the bound inclusively, and a clock that went back counts as just synced. The
  module header and the contract of the method state the strict comparison.
\<close>

lemma health_check_freshness:
  assumes "synced < 2 ^ 64" and "now < 2 ^ 64"
  shows "hs_overall (health_check l q (Some now) m (update_sync_ts (Some synced) p)) \<longleftrightarrow>
    l \<and> q \<and> now - synced \<le> unat m"
  using assms
  by (simp add: health_check_def Let_def update_sync_ts_def word_le_nat_alt unat_saturating_sub unat_unix_timestamp)

lemma new_probe_is_fresh: "hs_overall (health_check True True clock m (health_new clock))"
  by (simp add: health_check_def Let_def health_new_def saturating_sub_def)

lemma stale_bound_is_fresh:
  assumes "synced + unat m < 2 ^ 64"
  shows "hs_overall (health_check True True (Some (synced + unat m)) m (update_sync_ts (Some synced) p))"
  using assms by (subst health_check_freshness) auto

section \<open>Hydration mode\<close>

text \<open>The label of the hydration metric (\<^verbatim>\<open>telemetry/metrics.rs\<close>).\<close>

datatype hydration_mode = HmLoro | HmGrafeo

fun hydration_mode_str :: "hydration_mode \<Rightarrow> string" where
  "hydration_mode_str HmLoro = ''loro''"
| "hydration_mode_str HmGrafeo = ''grafeo''"

section \<open>Metrics and spans\<close>

text \<open>The instruments (\<^verbatim>\<open>MetricsRegistry\<close>) and the spans (\<^verbatim>\<open>telemetry/traces.rs\<close>). A meter builds an instrument
  from its name, a tracer starts a span of a name; \<open>'i\<close> and \<open>'sp\<close> are what they return. The log is the
  sequence of values recorded with their attributes.\<close>

record 'i meter_api =
  u64_counter :: "string \<Rightarrow> 'i"
  f64_histogram :: "string \<Rightarrow> 'i"

datatype otel_value = OV_I64 "64 word" | OV_Str string

record 'i metrics_registry =
  mr_inbound_events :: 'i
  mr_outbound_events :: 'i
  mr_echo_filtered :: 'i
  mr_batch_flush_duration :: 'i
  mr_hydration_duration :: 'i

type_synonym 'i observations = "('i \<times> f64 \<times> (string \<times> otel_value) list) list"

definition metrics_init :: "'i meter_api \<Rightarrow> 'i metrics_registry" where
  "metrics_init meter = \<lparr>
     mr_inbound_events = u64_counter meter ''inbound_events_total'',
     mr_outbound_events = u64_counter meter ''outbound_events_total'',
     mr_echo_filtered = u64_counter meter ''echo_filtered_total'',
     mr_batch_flush_duration = f64_histogram meter ''batch_flush_duration_ms'',
     mr_hydration_duration = f64_histogram meter ''hydration_duration_ms''\<rparr>"

text \<open>\<^verbatim>\<open>batch_size as i64\<close> keeps the bits; the sign of the result is how the consumer reads them.\<close>

definition record_batch_flush :: "f64 \<Rightarrow> u64 \<Rightarrow> 'i metrics_registry \<Rightarrow> 'i observations \<Rightarrow> 'i observations" where
  "record_batch_flush duration_ms batch_size r log =
     log @ [(mr_batch_flush_duration r, duration_ms, [(''batch_size'', OV_I64 batch_size)])]"

definition record_hydration :: "f64 \<Rightarrow> hydration_mode \<Rightarrow> 'i metrics_registry \<Rightarrow> 'i observations \<Rightarrow> 'i observations" where
  "record_hydration duration_ms mode r log =
     log @ [(mr_hydration_duration r, duration_ms, [(''mode'', OV_Str (hydration_mode_str mode))])]"

definition create_cold_start_span :: "(string \<Rightarrow> 'sp) \<Rightarrow> 'sp" where
  "create_cold_start_span start = start ''cold_start_hydration''"

definition create_inbound_sync_span :: "(string \<Rightarrow> 'sp) \<Rightarrow> 'sp" where
  "create_inbound_sync_span start = start ''inbound_sync_loop''"

definition create_outbound_sync_span :: "(string \<Rightarrow> 'sp) \<Rightarrow> 'sp" where
  "create_outbound_sync_span start = start ''outbound_sync_loop''"

definition create_hybrid_query_span :: "(string \<Rightarrow> 'sp) \<Rightarrow> 'sp" where
  "create_hybrid_query_span start = start ''hybrid_query''"

text \<open>The consumer reads the batch size back as long as it is below \<open>2 ^ 63\<close>, and the two modes apart.\<close>

lemma batch_size_label:
  assumes "uint n < 2 ^ 63"
  shows "\<exists>w. last (record_batch_flush d n r log) = (mr_batch_flush_duration r, d, [(''batch_size'', OV_I64 w)]) \<and>
    sint w = uint n"
proof -
  have "sint n = signed_take_bit 63 (uint n)" by (simp add: sint_uint)
  also have "\<dots> = uint n" by (rule signed_take_bit_int_eq_self) (use assms in \<open>simp_all add: order_trans [OF _ uint_ge_0]\<close>)
  finally show ?thesis by (simp add: record_batch_flush_def)
qed

lemma hydration_mode_label: "hydration_mode_str a = hydration_mode_str b \<longleftrightarrow> a = b"
  by (cases a; cases b) simp_all

end
