(* ===== verification/Engine_Workers.thy ===== *)
theory Engine_Workers
  imports App "HOL-Library.Sublist"
begin

text \<open>
  The tasks of the sync engine together (\<^verbatim>\<open>bridge/sync_engine.rs\<close>, \<^verbatim>\<open>bridge/batcher.rs\<close>, \<^verbatim>\<open>app.rs\<close>): any
  sequence of turns of the four tasks, of commits on the Loro document that call the subscriber, and of changes to the
  two stores by others. Shown are the order of the inbound pipeline, the end of all tasks after a shutdown, and
  what a shutdown misses that comes before the batcher's first turn.
\<close>

section \<open>Turns\<close>

record ('s, 'd) engine_env =
  ee_db :: "'s db_api"
  ee_widen :: "f32 \<Rightarrow> f64"
  ee_loro :: "'d loro_api"
  ee_cdc :: "'s cdc_api"

datatype ('s, 'd) turn =
    T_Inbound
  | T_Batcher task_outcome
  | T_Outbound
  | T_Poller
  | T_Commit diff_event
  | T_Others "'s \<Rightarrow> 's" "'d \<Rightarrow> 'd"

fun turn_step :: "('s, 'd) engine_env \<Rightarrow> ('s, 'd) turn \<Rightarrow> ('s, 'd) sync_engine \<Rightarrow> ('s, 'd) sync_engine" where
  "turn_step env T_Inbound e = inbound_worker_step e"
| "turn_step env (T_Batcher oc) e = batcher_task_step (ee_db env) oc e"
| "turn_step env T_Outbound e = outbound_worker_step (ee_widen env) (ee_loro env) e"
| "turn_step env T_Poller e = poller_step (ee_cdc env) e"
| "turn_step env (T_Commit ev) e = (if se_subscribed e then subscriber_handler ev e else e)"
| "turn_step env (T_Others f g) e =
     e\<lparr>se_batcher := (se_batcher e)\<lparr>bt_db := f (bt_db (se_batcher e))\<rparr>, se_doc := g (se_doc e)\<rparr>"

definition run_turns :: "('s, 'd) engine_env \<Rightarrow> ('s, 'd) turn list \<Rightarrow> ('s, 'd) sync_engine \<Rightarrow> ('s, 'd) sync_engine" where
  "run_turns env ts e = foldl (\<lambda>e t. turn_step env t e) e ts"

lemma run_turns_simps [simp]:
  "run_turns env [] e = e"
  "run_turns env (t # ts) e = run_turns env ts (turn_step env t e)"
  "run_turns env (ts @ us) e = run_turns env us (run_turns env ts e)"
  by (simp_all add: run_turns_def)

text \<open>A property that every turn keeps holds at the end; one that some turn of the sequence establishes, too.\<close>

lemma run_turns_keeps:
  assumes "\<And>t e. I e \<Longrightarrow> I (turn_step env t e)" and "I e"
  shows "I (run_turns env ts e)"
  using assms(2) by (induction ts arbitrary: e) (auto intro: assms(1))

lemma run_turns_reaches:
  assumes inv: "\<And>t e. I e \<Longrightarrow> I (turn_step env t e)"
    and keep: "\<And>t e. I e \<Longrightarrow> P e \<Longrightarrow> P (turn_step env t e)"
    and hit: "t \<in> set ts" "\<And>e. I e \<Longrightarrow> P (turn_step env t e)"
    and e: "I e"
  shows "P (run_turns env ts e)"
proof -
  obtain us vs where ts: "ts = us @ t # vs" using hit(1) by (meson split_list)
  have "I (run_turns env us e)" by (rule run_turns_keeps [of I, OF inv e])
  then have "I (turn_step env t (run_turns env us e)) \<and> P (turn_step env t (run_turns env us e))"
    using inv hit(2) by blast
  then have "I (run_turns env vs (turn_step env t (run_turns env us e))) \<and>
      P (run_turns env vs (turn_step env t (run_turns env us e)))"
    by (rule run_turns_keeps [of "\<lambda>e. I e \<and> P e", rotated]) (use inv keep in blast)
  then show ?thesis by (simp add: ts)
qed

section \<open>What a turn leaves alone\<close>

text \<open>Everything about an engine but its batcher, its document and its counters.\<close>

lemma forward_op_cases:
  "forward_op op e = (if ch_closed (se_batch e) then inbound_exit e
     else if length (ch_items (se_batch e)) < CHANNEL_CAPACITY
     then e\<lparr>se_batch := (se_batch e)\<lparr>ch_items := ch_items (se_batch e) @ [op]\<rparr>, se_forward := None\<rparr>
     else e\<lparr>se_forward := Some op\<rparr>)"
  by (auto simp: forward_op_def try_send_def)

lemma inbound_exit_simps [simp]:
  "se_outbound (inbound_exit e) = se_outbound e" "se_batcher (inbound_exit e) = se_batcher e"
  "se_inbound (inbound_exit e) = se_inbound e" "se_batch (inbound_exit e) = se_batch e"
  "se_status (inbound_exit e) = (se_status e)(W_Inbound := Joining)" "se_poll (inbound_exit e) = se_poll e"
  "se_last_epoch (inbound_exit e) = se_last_epoch e" "se_forward (inbound_exit e) = None"
  by (simp_all add: inbound_exit_def)

lemma send_ops_simps [simp]:
  "se_outbound (send_ops ops e) = se_outbound e" "se_batcher (send_ops ops e) = se_batcher e"
  "se_batch (send_ops ops e) = se_batch e" "se_status (send_ops ops e) = se_status e"
  "se_poll (send_ops ops e) = se_poll e" "se_last_epoch (send_ops ops e) = se_last_epoch e"
  "se_forward (send_ops ops e) = se_forward e" "ch_closed (se_inbound (send_ops ops e)) = ch_closed (se_inbound e)"
  by (simp_all add: send_ops_conv Let_def)

lemma subscriber_simps [simp]:
  "se_outbound (subscriber_handler ev e) = se_outbound e" "se_batcher (subscriber_handler ev e) = se_batcher e"
  "se_batch (subscriber_handler ev e) = se_batch e" "se_status (subscriber_handler ev e) = se_status e"
  "se_poll (subscriber_handler ev e) = se_poll e" "se_last_epoch (subscriber_handler ev e) = se_last_epoch e"
  "se_forward (subscriber_handler ev e) = se_forward e"
  "ch_closed (se_inbound (subscriber_handler ev e)) = ch_closed (se_inbound e)"
  by (simp_all add: subscriber_handler_def count_metric_def)

lemma outbound_message_simps [simp]:
  "se_outbound (outbound_message c api msg e) = se_outbound e" "se_inbound (outbound_message c api msg e) = se_inbound e"
  "se_batch (outbound_message c api msg e) = se_batch e" "se_status (outbound_message c api msg e) = se_status e"
  "se_poll (outbound_message c api msg e) = se_poll e" "se_last_epoch (outbound_message c api msg e) = se_last_epoch e"
  "se_forward (outbound_message c api msg e) = se_forward e"
  "bt_buffer (se_batcher (outbound_message c api msg e)) = bt_buffer (se_batcher e)"
  by (simp_all add: outbound_message_def Let_def split: prod.splits sum.splits)

lemma batcher_step_shutdown_ends: "\<exists>r b'. batcher_step api (Shutdown oc) b = (Some r, b')"
  by (auto simp: Let_def split: prod.splits)

declare batcher_step.simps [simp del]

definition poller_frame :: "('s, 'd) sync_engine \<Rightarrow> ('s, 'd) sync_engine \<Rightarrow> bool" where
  "poller_frame e e' \<longleftrightarrow>
     se_inbound e' = se_inbound e \<and> se_batch e' = se_batch e \<and> se_forward e' = se_forward e \<and>
     ch_closed (se_outbound e') = ch_closed (se_outbound e) \<and> bt_buffer (se_batcher e') = bt_buffer (se_batcher e) \<and>
     (\<forall>w. w \<noteq> W_Poller \<longrightarrow> se_status e' w = se_status e w) \<and>
     (se_status e' W_Poller = Ended \<or> se_status e' W_Poller = se_status e W_Poller)"

lemma poll_resume_frame: "poller_frame e (poll_resume h l c evs e)"
proof -
  obtain r e1 where r: "poll_events h evs e = (r, e1)" by fastforce
  from poll_events_frame [OF r] r show ?thesis
    by (cases r) (simp_all add: poll_resume_def poller_frame_def)
qed

lemma poller_step_frame: "poller_frame e (poller_step cdc e)"
proof -
  have "poller_frame e (poll_cycle cdc l e)" for l
    using poll_resume_frame by (auto simp: poll_cycle_def poller_frame_def [of e e] split: option.split)
  then show ?thesis
    by (auto simp: poller_step_def poller_frame_def [of e e] poller_frame_def [of e "set_status _ _ e"]
        poller_frame_def [of e "e\<lparr>se_last_epoch := _\<rparr>"] split: option.split)
qed

lemma poller_step_status:
  "se_status (poller_step cdc e) w = se_status e w \<or> w = W_Poller \<and> se_status (poller_step cdc e) w = Ended"
  using poller_step_frame [of e cdc] by (cases "w = W_Poller") (simp_all add: poller_frame_def, blast)

lemma all_worker: "(\<forall>w. P w) \<longleftrightarrow> P W_Inbound \<and> P W_Batcher \<and> P W_Outbound \<and> P W_Poller"
  by (metis worker.exhaust)

section \<open>Shutdown\<close>

text \<open>
  What holds of an engine whose tasks have been spawned: a channel is closed when the task that owned the receiver
  has ended, a cycle under way has its starting epoch, and a worker that left its loop has nothing in hand.
\<close>

definition workers_ok :: "('s, 'd) sync_engine \<Rightarrow> bool" where
  "workers_ok e \<longleftrightarrow>
     (se_status e W_Batcher = Ended \<longleftrightarrow> ch_closed (se_batch e)) \<and>
     (se_status e W_Outbound = Ended \<longleftrightarrow> ch_closed (se_outbound e)) \<and>
     (se_poll e \<noteq> None \<longrightarrow> se_last_epoch e \<noteq> None) \<and>
     (se_status e W_Inbound \<in> {Joining, Ended} \<longrightarrow> se_forward e = None) \<and>
     (se_status e W_Inbound = Ended \<longrightarrow> se_status e W_Batcher = Ended) \<and>
     (\<forall>w. w \<noteq> W_Inbound \<longrightarrow> se_status e w \<noteq> Joining)"

lemma workers_ok_spawned: "workers_ok (spawn_all (engine_new db doc n ms metrics health))"
  by (simp add: workers_ok_def spawn_all_def spawn_cdc_poller_def spawn_outbound_worker_def spawn_inbound_worker_def
      init_loro_subscriber_def engine_new_def ch_new_def)

lemma workers_ok_shutdown: "workers_ok e \<Longrightarrow> workers_ok (engine_shutdown e)"
  by (simp add: workers_ok_def engine_shutdown_def)

lemma poller_step_keeps_epoch:
  assumes "se_poll e \<noteq> None \<longrightarrow> se_last_epoch e \<noteq> None"
  shows "se_poll (poller_step cdc e) \<noteq> None \<longrightarrow> se_last_epoch (poller_step cdc e) \<noteq> None"
proof -
  have "se_poll (poll_cycle cdc l e) \<noteq> None \<longrightarrow> se_last_epoch (poll_cycle cdc l e) \<noteq> None"
    if "se_last_epoch e = Some l" for l
  proof (cases "poll_work cdc l e")
    case None
    with that show ?thesis by (simp add: poll_cycle_def)
  next
    case (Some work)
    obtain c evs r e1 where "work = (c, evs)" and r: "poll_events (se_poll e \<noteq> None) evs e = (r, e1)" by (metis surj_pair)
    with Some poll_events_frame [OF r] that show ?thesis
      by (cases r) (simp_all add: poll_cycle_def poll_resume_def)
  qed
  with assms show ?thesis by (auto simp: poller_step_def split: option.split)
qed

lemma workers_ok_finish:
  assumes "workers_ok e" and "se_status e W_Batcher \<in> {Listening, Signalled}"
  shows "workers_ok (batcher_finish x e)"
proof -
  obtain r b where "x = (r, b)" by fastforce
  with assms show ?thesis
    by (cases r) (auto simp: batcher_finish_def workers_ok_def ch_close_def)
qed

lemma workers_ok_items: "workers_ok e \<Longrightarrow> workers_ok (e\<lparr>se_batch := (se_batch e)\<lparr>ch_items := xs\<rparr>\<rparr>)"
  by (simp add: workers_ok_def)

lemma workers_ok_turn:
  assumes "workers_ok e"
  shows "workers_ok (turn_step env t e)"
proof (cases t)
  case T_Inbound
  with assms show ?thesis
    by (auto simp: inbound_worker_step_def forward_op_cases workers_ok_def
        split: option.splits list.splits worker_status.splits if_splits)
next
  case (T_Batcher oc)
  have "workers_ok (set_status W_Batcher Listening e)" if "se_status e W_Batcher = Starting"
    using assms that by (auto simp: workers_ok_def)
  with assms workers_ok_finish [OF assms] workers_ok_finish [OF workers_ok_items [OF assms]] T_Batcher show ?thesis
    by (simp add: batcher_task_step_def split: worker_status.split list.split)
next
  case T_Outbound
  with assms show ?thesis
    by (auto simp: outbound_worker_step_def workers_ok_def ch_close_def split: list.splits worker_status.splits)
next
  case T_Poller
  have "se_poll (poller_step (ee_cdc env) e) \<noteq> None \<longrightarrow> se_last_epoch (poller_step (ee_cdc env) e) \<noteq> None"
    by (rule poller_step_keeps_epoch) (use assms in \<open>simp add: workers_ok_def\<close>)
  with T_Poller assms poller_step_frame [of e "ee_cdc env"] show ?thesis
    by (simp add: workers_ok_def poller_frame_def all_worker) auto
next
  case (T_Commit ev)
  with assms show ?thesis by (simp add: workers_ok_def)
next
  case (T_Others f g)
  with assms show ?thesis by (simp add: workers_ok_def)
qed

text \<open>A status only moves forward: a task that has ended stays so, and a signal is not lost.\<close>

lemma batcher_finish_status [simp]:
  "se_status (batcher_finish x e) w = (if w = W_Batcher \<and> fst x \<noteq> None then Ended else se_status e w)"
  by (auto simp: batcher_finish_def split: prod.splits option.splits)

lemma batcher_finish_poll [simp]: "se_poll (batcher_finish x e) = se_poll e"
  by (auto simp: batcher_finish_def split: prod.splits option.splits)

lemma turn_keeps_ended:
  assumes "workers_ok e" and "se_status e w = Ended"
  shows "se_status (turn_step env t e) w = Ended"
proof (cases t)
  case T_Inbound
  with assms show ?thesis
    by (auto simp: inbound_worker_step_def forward_op_cases workers_ok_def split: option.split list.split worker_status.split)
next
  case (T_Batcher oc)
  with T_Batcher assms show ?thesis
    by (auto simp: batcher_task_step_def split: worker_status.split list.split)
next
  case T_Poller
  with assms poller_step_status [of "ee_cdc env" e w] show ?thesis by auto
qed (use assms in \<open>auto simp: outbound_worker_step_def split: worker_status.split list.split\<close>)

lemma turn_status_cases:
  "se_status (turn_step env t e) w = se_status e w \<or> se_status (turn_step env t e) w \<in> {Joining, Ended} \<or>
     w = W_Batcher \<and> se_status e w = Starting \<and> se_status (turn_step env t e) w = Listening"
proof (cases t)
  case T_Inbound
  then show ?thesis
    by (auto simp: inbound_worker_step_def forward_op_cases split: option.split list.split worker_status.split)
next
  case (T_Batcher oc)
  then show ?thesis
    by (simp add: batcher_task_step_def split: worker_status.split list.split)
next
  case T_Poller
  with poller_step_status [of "ee_cdc env" e w] show ?thesis by auto
qed (auto simp: outbound_worker_step_def split: worker_status.split list.split)

definition signalled :: "worker_status \<Rightarrow> bool" where
  "signalled st \<longleftrightarrow> st \<in> {Signalled, Joining, Ended}"

lemma signalled_simps [simp]:
  "signalled Signalled" "signalled Joining" "signalled Ended"
  "\<not> signalled Listening" "\<not> signalled Starting" "\<not> signalled Absent"
  by (simp_all add: signalled_def)

lemma turn_keeps_signalled:
  "signalled (se_status e w) \<Longrightarrow> signalled (se_status (turn_step env t e) w)"
  using turn_status_cases [of env t e w] by auto

definition spawned :: "('s, 'd) sync_engine \<Rightarrow> bool" where
  "spawned e \<longleftrightarrow> (\<forall>w. se_status e w \<noteq> Absent \<and> (se_status e w = Starting \<longrightarrow> w = W_Batcher))"

lemma spawned_turn:
  assumes "spawned e"
  shows "spawned (turn_step env t e)"
  unfolding spawned_def
proof
  fix w
  show "se_status (turn_step env t e) w \<noteq> Absent \<and> (se_status (turn_step env t e) w = Starting \<longrightarrow> w = W_Batcher)"
    using turn_status_cases [of env t e w] assms [unfolded spawned_def, rule_format, of w] by auto
qed

lemma spawned_all: "spawned (spawn_all e)"
  by (simp add: spawned_def all_worker spawn_all_def spawn_cdc_poller_def spawn_outbound_worker_def
      spawn_inbound_worker_def init_loro_subscriber_def)

declare turn_step.simps [simp del]

text \<open>After the signal: the batcher and the outbound worker end first, whatever they were doing.\<close>

definition stopping :: "('s, 'd) sync_engine \<Rightarrow> bool" where
  "stopping e \<longleftrightarrow> workers_ok e \<and> (\<forall>w. signalled (se_status e w))"

lemma stopping_turn: "stopping e \<Longrightarrow> stopping (turn_step env t e)"
  by (simp add: stopping_def workers_ok_turn turn_keeps_signalled)

lemma stopping_batcher: "stopping e \<Longrightarrow> se_status (turn_step env (T_Batcher oc) e) W_Batcher = Ended"
proof -
  assume st: "stopping e"
  then have "se_status e W_Batcher = Signalled \<or> se_status e W_Batcher = Ended"
    by (auto simp: stopping_def workers_ok_def signalled_def)
  moreover obtain r b where "batcher_step (ee_db env) (Shutdown oc) (se_batcher e) = (Some r, b)"
    using batcher_step_shutdown_ends by blast
  ultimately show ?thesis by (auto simp: turn_step.simps batcher_task_step_def batcher_finish_def)
qed

lemma stopping_outbound: "stopping e \<Longrightarrow> se_status (turn_step env T_Outbound e) W_Outbound = Ended"
  by (auto simp: stopping_def workers_ok_def signalled_def all_worker turn_step.simps outbound_worker_step_def)

text \<open>Then no send waits any more: the inbound worker leaves its loop, and the poller its cycle.\<close>

definition unblocked :: "('s, 'd) sync_engine \<Rightarrow> bool" where
  "unblocked e \<longleftrightarrow> stopping e \<and> se_status e W_Batcher = Ended \<and> se_status e W_Outbound = Ended"

lemma unblocked_turn: "unblocked e \<Longrightarrow> unblocked (turn_step env t e)"
  using stopping_turn turn_keeps_ended unfolding unblocked_def by (metis stopping_def)

lemma unblocked_inbound:
  "unblocked e \<Longrightarrow> se_status (turn_step env T_Inbound e) W_Inbound \<in> {Joining, Ended}"
  by (auto simp: unblocked_def stopping_def workers_ok_def signalled_def all_worker turn_step.simps inbound_worker_step_def
      forward_op_cases split: option.split)

lemma poll_events_closed:
  "ch_closed (se_outbound e) \<Longrightarrow> poll_events h evs e = (r, e') \<Longrightarrow> r = Poll_Done \<or> r = Poll_Closed"
  by (induction h evs e rule: poll_events.induct) (auto split: if_splits)

definition idle_poller :: "('s, 'd) sync_engine \<Rightarrow> bool" where
  "idle_poller e \<longleftrightarrow> se_status e W_Poller = Ended \<or> se_poll e = None"

lemma unblocked_poller:
  assumes "unblocked e"
  shows "idle_poller (turn_step env T_Poller e)"
proof (cases "se_poll e")
  case None
  with assms show ?thesis
    by (auto simp: turn_step.simps idle_poller_def poller_step_def unblocked_def stopping_def workers_ok_def signalled_def all_worker)
next
  case (Some work)
  obtain c evs r e1 where w: "work = (c, evs)" and r: "poll_events (se_poll e \<noteq> None) evs e = (r, e1)" by (metis surj_pair)
  from assms have cl: "ch_closed (se_outbound e)" and st: "se_status e W_Poller \<in> {Signalled, Ended}"
    and "se_last_epoch e \<noteq> None"
    using Some by (auto simp: unblocked_def stopping_def workers_ok_def signalled_def all_worker)
  then obtain l where l: "se_last_epoch e = Some l" by blast
  from poll_events_closed [OF cl r] poll_events_frame [OF r] show ?thesis
    using st Some w r l by (auto simp: turn_step.simps idle_poller_def poller_step_def poll_cycle_def poll_work_def poll_resume_def)
qed

definition winding_up :: "('s, 'd) sync_engine \<Rightarrow> bool" where
  "winding_up e \<longleftrightarrow> unblocked e \<and> se_status e W_Inbound \<in> {Joining, Ended} \<and> idle_poller e"

lemma joining_stays:
  assumes "workers_ok e" and "se_status e W_Inbound \<in> {Joining, Ended}"
  shows "se_status (turn_step env t e) W_Inbound \<in> {Joining, Ended}"
proof (cases t)
  case T_Inbound
  with assms show ?thesis by (auto simp: turn_step.simps inbound_worker_step_def workers_ok_def)
next
  case (T_Batcher oc)
  with T_Batcher assms show ?thesis
    by (auto simp: turn_step.simps batcher_task_step_def split: worker_status.split list.split)
next
  case T_Poller
  with assms poller_step_frame [of e "ee_cdc env"] show ?thesis by (simp add: turn_step.simps poller_frame_def)
qed (use assms in \<open>auto simp: turn_step.simps outbound_worker_step_def split: worker_status.split list.split\<close>)

lemma idle_poller_stays:
  assumes "stopping e" and "idle_poller e"
  shows "idle_poller (turn_step env t e)"
proof (cases t)
  case T_Inbound
  with assms show ?thesis
    by (auto simp: turn_step.simps idle_poller_def inbound_worker_step_def forward_op_cases split: option.split list.split worker_status.split)
next
  case (T_Batcher oc)
  with assms(2) show ?thesis
    by (auto simp: turn_step.simps batcher_task_step_def idle_poller_def split: worker_status.split list.split)
next
  case T_Poller
  from assms have "signalled (se_status e W_Poller)" "se_status e W_Poller \<noteq> Joining"
    by (simp_all add: stopping_def workers_ok_def)
  with assms(2) T_Poller show ?thesis by (auto simp: turn_step.simps idle_poller_def poller_step_def signalled_def)
qed (use assms in \<open>auto simp: turn_step.simps idle_poller_def outbound_worker_step_def split: worker_status.split list.split\<close>)

lemma winding_up_turn: "winding_up e \<Longrightarrow> winding_up (turn_step env t e)"
proof -
  assume w: "winding_up e"
  then have st: "stopping e" "workers_ok e" by (simp_all add: winding_up_def unblocked_def stopping_def)
  with w show ?thesis
    unfolding winding_up_def using unblocked_turn joining_stays [OF st(2)] idle_poller_stays [OF st(1)] by blast
qed

lemma winding_up_inbound: "winding_up e \<Longrightarrow> se_status (turn_step env T_Inbound e) W_Inbound = Ended"
proof -
  assume "winding_up e"
  then have "se_status e W_Inbound \<in> {Joining, Ended}" "se_status e W_Batcher = Ended" "workers_ok e"
    by (simp_all add: winding_up_def unblocked_def stopping_def)
  moreover from this have "se_forward e = None" by (simp add: workers_ok_def)
  ultimately show ?thesis by (auto simp: turn_step.simps inbound_worker_step_def)
qed

lemma winding_up_poller: "winding_up e \<Longrightarrow> se_status (turn_step env T_Poller e) W_Poller = Ended"
proof -
  assume "winding_up e"
  then have "idle_poller e" "signalled (se_status e W_Poller)" "workers_ok e"
    by (simp_all add: winding_up_def unblocked_def stopping_def)
  moreover from this(3) have "se_status e W_Poller \<noteq> Joining" by (simp add: workers_ok_def)
  ultimately show ?thesis by (auto simp: turn_step.simps idle_poller_def signalled_def poller_step_def)
qed

text \<open>A round gives every task a turn; other turns may come between.\<close>

definition is_round :: "('s, 'd) turn list \<Rightarrow> bool" where
  "is_round ts \<longleftrightarrow> T_Inbound \<in> set ts \<and> (\<exists>oc. T_Batcher oc \<in> set ts) \<and> T_Outbound \<in> set ts \<and> T_Poller \<in> set ts"

lemma round_unblocks:
  assumes "stopping e" and "is_round ts"
  shows "unblocked (run_turns env ts e)"
proof -
  have keep: "se_status (turn_step env t e') w = Ended" if "stopping e'" "se_status e' w = Ended" for t e' w
    using that by (simp add: turn_keeps_ended stopping_def)
  obtain oc where b: "T_Batcher oc \<in> set ts" using assms(2) by (auto simp: is_round_def)
  have "se_status (run_turns env ts e) W_Batcher = Ended"
    by (rule run_turns_reaches [of stopping env _ "T_Batcher oc"])
      (use b assms(1) in \<open>auto intro: stopping_turn keep stopping_batcher\<close>)
  moreover have "se_status (run_turns env ts e) W_Outbound = Ended"
    by (rule run_turns_reaches [of stopping env _ T_Outbound])
      (use assms in \<open>auto simp: is_round_def intro: stopping_turn keep stopping_outbound\<close>)
  moreover have "stopping (run_turns env ts e)"
    by (rule run_turns_keeps) (use assms(1) in \<open>auto intro: stopping_turn\<close>)
  ultimately show ?thesis by (simp add: unblocked_def)
qed

lemma round_winds_up:
  assumes "unblocked e" and "is_round ts"
  shows "winding_up (run_turns env ts e)"
proof -
  have st: "stopping e'" "workers_ok e'" if "unblocked e'" for e' :: "('a, 'b) sync_engine"
    using that by (simp_all add: unblocked_def stopping_def)
  have "se_status (run_turns env ts e) W_Inbound \<in> {Joining, Ended}"
    by (rule run_turns_reaches [of unblocked env "\<lambda>e. se_status e W_Inbound \<in> {Joining, Ended}" T_Inbound])
      (use assms in \<open>simp_all add: is_round_def unblocked_turn joining_stays unblocked_inbound st del: insert_iff\<close>)
  moreover have "idle_poller (run_turns env ts e)"
    by (rule run_turns_reaches [of unblocked env _ T_Poller])
      (use assms in \<open>simp_all add: is_round_def unblocked_turn idle_poller_stays unblocked_poller st\<close>)
  moreover have "unblocked (run_turns env ts e)"
    by (rule run_turns_keeps) (use assms(1) in \<open>simp_all add: unblocked_turn\<close>)
  ultimately show ?thesis by (simp add: winding_up_def)
qed

lemma round_ends:
  assumes "winding_up e" and "is_round ts"
  shows "se_status (run_turns env ts e) w = Ended"
proof -
  have keep: "se_status (turn_step env t e') w = Ended" if "winding_up e'" "se_status e' w = Ended" for t e' w
    using that by (simp add: turn_keeps_ended winding_up_def unblocked_def stopping_def)
  show ?thesis
  proof (cases w)
    case W_Inbound
    show ?thesis unfolding W_Inbound
      by (rule run_turns_reaches [of winding_up env _ T_Inbound])
        (use assms in \<open>simp_all add: is_round_def winding_up_turn keep winding_up_inbound\<close>)
  next
    case W_Poller
    show ?thesis unfolding W_Poller
      by (rule run_turns_reaches [of winding_up env _ T_Poller])
        (use assms in \<open>simp_all add: is_round_def winding_up_turn keep winding_up_poller\<close>)
  next
    case W_Batcher
    have "winding_up e \<and> se_status e w = Ended" using assms(1) W_Batcher by (simp add: winding_up_def unblocked_def)
    then have "winding_up (run_turns env ts e) \<and> se_status (run_turns env ts e) w = Ended"
      by (rule run_turns_keeps [rotated]) (simp add: winding_up_turn keep)
    then show ?thesis by simp
  next
    case W_Outbound
    have "winding_up e \<and> se_status e w = Ended" using assms(1) W_Outbound by (simp add: winding_up_def unblocked_def)
    then have "winding_up (run_turns env ts e) \<and> se_status (run_turns env ts e) w = Ended"
      by (rule run_turns_keeps [rotated]) (simp add: winding_up_turn keep)
    then show ?thesis by simp
  qed
qed

text \<open>Property C10 (shutdown_ends_all_tasks). When every task has subscribed, a shutdown ends them all: after three
  rounds that give every task a turn, in any order and with anything else in between (further commits, changes of the
  stores by others, any outcome of the last flush), all tasks have ended and the shutdown of the application returns.
  This holds from any state the engine can be in, also with full channels and with a send of the inbound worker or the
  poller under way: the batcher and the outbound worker end first and take the receivers with them.\<close>

theorem shutdown_ends_all_tasks:
  assumes "e = run_turns env ts (spawn_all (engine_new db doc n ms metrics health))"
    and "se_status e W_Batcher \<noteq> Starting"
    and "is_round r1" and "is_round r2" and "is_round r3"
    and "e' = run_turns env (r1 @ r2 @ r3) (engine_shutdown e)"
  shows "(\<forall>w. se_status e' w = Ended) \<and> shutdown_returns e'"
proof -
  have "workers_ok e" "spawned e"
    unfolding assms(1) by (rule run_turns_keeps; auto intro: workers_ok_turn workers_ok_spawned spawned_turn spawned_all)+
  moreover from this(2) assms(2) have "signalled (receive_signal (se_status e w))" for w
    by (cases "se_status e w") (auto simp: spawned_def receive_signal_def)
  ultimately have "stopping (engine_shutdown e)"
    by (simp add: stopping_def workers_ok_shutdown) (simp add: engine_shutdown_def)
  then have "winding_up (run_turns env (r1 @ r2) (engine_shutdown e))"
    by (simp add: round_unblocks round_winds_up assms(3,4))
  then have "se_status e' w = Ended" for w
    unfolding assms(6) append_assoc [symmetric] run_turns_simps(3) [of env "r1 @ r2"] by (rule round_ends) (rule assms(5))
  then show ?thesis by (simp add: shutdown_returns_def)
qed

text \<open>An engine over a database without changes; the batcher has had its first turn.\<close>

definition quiet_env :: "(nat \<times> nat, table_doc) engine_env" where
  "quiet_env = \<lparr>ee_db = counter_db, ee_widen = (\<lambda>x. 0), ee_loro = table_doc_api,
     ee_cdc = \<lparr>c_current_epoch = (\<lambda>s. 0), c_changes_between = (\<lambda>a b s. Inr [])\<rparr>\<rparr>"

definition quiet_engine :: "(nat \<times> nat, table_doc) sync_engine" where
  "quiet_engine = spawn_all (engine_new (0, 0) [] 4 100 None None)"

definition quiet_round :: "(nat \<times> nat, table_doc) turn list" where
  "quiet_round = [T_Inbound, T_Poller, T_Outbound, T_Batcher TimedOut]"

theorem shutdown_ends_all_tasks_witness:
  "shutdown_returns (run_turns quiet_env (quiet_round @ quiet_round @ quiet_round)
     (engine_shutdown (run_turns quiet_env [T_Batcher Finished] quiet_engine)))"
proof -
  have r: "is_round quiet_round" by (auto simp: is_round_def quiet_round_def)
  have "se_status (run_turns quiet_env [T_Batcher Finished] quiet_engine) W_Batcher \<noteq> Starting"
    by (simp add: quiet_engine_def turn_step.simps batcher_task_step_def spawn_all_def spawn_cdc_poller_def
        spawn_outbound_worker_def spawn_inbound_worker_def)
  from shutdown_ends_all_tasks [OF quiet_engine_def [THEN arg_cong] this r r r refl] show ?thesis by blast
qed

section \<open>A shutdown before the batcher has run\<close>

text \<open>The batcher has not seen the signal, the inbound worker leaves its loop and waits for it, and nothing comes in any more.\<close>

definition stuck :: "('s, 'd) sync_engine \<Rightarrow> bool" where
  "stuck e \<longleftrightarrow> se_status e W_Inbound \<in> {Signalled, Joining} \<and> se_status e W_Batcher \<in> {Starting, Listening} \<and>
     se_forward e = None \<and> ch_items (se_batch e) = [] \<and> bt_buffer (se_batcher e) = []"

lemma stuck_turn:
  assumes "stuck e"
  shows "stuck (turn_step env t e)"
proof (cases t)
  case T_Inbound
  with assms show ?thesis by (auto simp: stuck_def turn_step.simps inbound_worker_step_def)
next
  case (T_Batcher oc)
  with assms show ?thesis
    by (auto simp: stuck_def turn_step.simps batcher_task_step_def batcher_step.simps flush_def continue_or_leave_def
        batcher_finish_def)
next
  case T_Outbound
  with assms show ?thesis
    by (auto simp: stuck_def turn_step.simps outbound_worker_step_def split: worker_status.split list.split)
next
  case T_Poller
  with assms poller_step_frame [of e "ee_cdc env"] show ?thesis
    by (simp add: stuck_def turn_step.simps poller_frame_def)
qed (use assms in \<open>auto simp: stuck_def turn_step.simps\<close>)

text \<open>Property C39 (early_shutdown_never_returns). The hypothesis of the previous property is needed: the batcher
  subscribes to the shutdown only in its first turn, so a shutdown sent right after the tasks were spawned does not reach
  it. Then no continuation ends it or the inbound worker, which waits for it, and the shutdown of the
  application does not return.\<close>

theorem early_shutdown_never_returns:
  "\<not> shutdown_returns (run_turns env ts (engine_shutdown (spawn_all (engine_new db doc n ms metrics health))))"
proof -
  have "stuck (engine_shutdown (spawn_all (engine_new db doc n ms metrics health)))"
    by (simp add: stuck_def engine_shutdown_def spawn_all_def spawn_cdc_poller_def spawn_outbound_worker_def
        spawn_inbound_worker_def init_loro_subscriber_def engine_new_def batcher_new_def ch_new_def receive_signal_def)
  then have "stuck (run_turns env ts (engine_shutdown (spawn_all (engine_new db doc n ms metrics health))))"
    by (rule run_turns_keeps [rotated]) (rule stuck_turn)
  then show ?thesis by (auto simp: stuck_def shutdown_returns_def worker_handles_def)
qed

section \<open>The inbound pipeline\<close>

text \<open>What a turn adds to the inbound channel, what the batcher takes in it, and what is on its way between the two.\<close>

definition accepted_ops :: "('s, 'd) turn \<Rightarrow> ('s, 'd) sync_engine \<Rightarrow> loro_op list" where
  "accepted_ops t e = (case t of
     T_Commit ev \<Rightarrow>
       (if se_subscribed e then drop (length (ch_items (se_inbound e))) (ch_items (se_inbound (subscriber_handler ev e))) else [])
   | _ \<Rightarrow> [])"

definition received_ops :: "('s, 'd) turn \<Rightarrow> ('s, 'd) sync_engine \<Rightarrow> loro_op list" where
  "received_ops t e = (case t of
     T_Batcher oc \<Rightarrow> (if se_status e W_Batcher = Listening then take 1 (ch_items (se_batch e)) else [])
   | _ \<Rightarrow> [])"

definition in_flight :: "('s, 'd) sync_engine \<Rightarrow> loro_op list" where
  "in_flight e = ch_items (se_batch e) @ (case se_forward e of Some op \<Rightarrow> [op] | None \<Rightarrow> []) @ ch_items (se_inbound e)"

fun history ::
  "(('s, 'd) turn \<Rightarrow> ('s, 'd) sync_engine \<Rightarrow> loro_op list) \<Rightarrow> ('s, 'd) engine_env \<Rightarrow> ('s, 'd) turn list \<Rightarrow>
     ('s, 'd) sync_engine \<Rightarrow> loro_op list" where
  "history f env [] e = []"
| "history f env (t # ts) e = f t e @ history f env ts (turn_step env t e)"

lemma pipeline_turn:
  assumes ok: "workers_ok e" and "se_status (turn_step env t e) W_Batcher \<noteq> Ended"
  shows "received_ops t e @ in_flight (turn_step env t e) = in_flight e @ accepted_ops t e"
proof -
  have open_e: "se_status e W_Batcher \<noteq> Ended"
    using assms turn_keeps_ended by blast
  then have nc: "\<not> ch_closed (se_batch e)" using ok by (simp add: workers_ok_def)
  show ?thesis
  proof (cases t)
    case T_Inbound
    with ok nc open_e show ?thesis
      by (auto simp: turn_step.simps received_ops_def accepted_ops_def in_flight_def inbound_worker_step_def
          forward_op_cases workers_ok_def split: option.split list.split worker_status.split)
  next
    case (T_Batcher oc)
    with assms(2) show ?thesis
      by (auto simp: turn_step.simps received_ops_def accepted_ops_def in_flight_def batcher_task_step_def
          batcher_finish_def split: list.splits worker_status.splits prod.splits option.splits)
  next
    case T_Outbound
    then show ?thesis
      by (auto simp: turn_step.simps received_ops_def accepted_ops_def in_flight_def outbound_worker_step_def
          split: list.split worker_status.split)
  next
    case T_Poller
    with poller_step_frame [of e "ee_cdc env"] show ?thesis
      by (simp add: turn_step.simps received_ops_def accepted_ops_def in_flight_def poller_frame_def)
  next
    case (T_Commit ev)
    have "\<exists>ops. ch_items (se_inbound (subscriber_handler ev e)) = ch_items (se_inbound e) @ ops"
      by (auto simp: subscriber_handler_def send_ops_conv Let_def)
    with T_Commit show ?thesis
      by (auto simp: turn_step.simps received_ops_def accepted_ops_def in_flight_def)
  qed (simp add: turn_step.simps received_ops_def accepted_ops_def in_flight_def)
qed

lemma received_prefix: "prefix (received_ops t e) (in_flight e)"
  by (auto simp: received_ops_def in_flight_def take_is_prefix split: turn.split)

lemma ended_receives_nothing:
  "workers_ok e \<Longrightarrow> se_status e W_Batcher = Ended \<Longrightarrow> history received_ops env ts e = []"
proof (induction ts arbitrary: e)
  case (Cons t ts)
  then have "received_ops t e = []" by (auto simp: received_ops_def split: turn.split)
  with Cons show ?case by (simp add: turn_keeps_ended workers_ok_turn)
qed simp

lemma pipeline_history:
  assumes "workers_ok e"
  shows "prefix (history received_ops env ts e) (in_flight e @ history accepted_ops env ts e) \<and>
    (se_status (run_turns env ts e) W_Batcher \<noteq> Ended \<longrightarrow>
       history received_ops env ts e @ in_flight (run_turns env ts e) = in_flight e @ history accepted_ops env ts e)"
  using assms
proof (induction ts arbitrary: e)
  case (Cons t ts)
  let ?e = "turn_step env t e"
  have ok: "workers_ok ?e" using Cons.prems by (rule workers_ok_turn)
  note IH = Cons.IH [OF ok]
  show ?case
  proof (cases "se_status ?e W_Batcher = Ended")
    case True
    then have "se_status (run_turns env ts ?e) W_Batcher = Ended"
      using ok run_turns_keeps [of "\<lambda>e. workers_ok e \<and> se_status e W_Batcher = Ended" env ?e ts]
      by (simp add: workers_ok_turn turn_keeps_ended)
    with True ended_receives_nothing [OF ok True] received_prefix [of t e] show ?thesis
      by (simp add: prefix_prefix)
  next
    case False
    from pipeline_turn [OF Cons.prems this]
    have eq: "in_flight e @ accepted_ops t e @ xs = received_ops t e @ in_flight ?e @ xs" for xs
      by (metis append_assoc)
    show ?thesis using IH by (simp add: eq)
  qed
qed simp

text \<open>Property C9 (inbound_pipeline_keeps_order). Between the subscriber and the batcher no operation is reordered or
  duplicated, in any interleaving of the tasks: what the batcher has received is an initial part of what the inbound channel
  accepted. As long as the batcher has not ended nothing is lost either: the rest is in the batcher's channel, in the
  hands of the inbound worker or in the inbound channel, in this order.\<close>

theorem inbound_pipeline_keeps_order:
  assumes "e0 = spawn_all (engine_new db doc n ms metrics health)" and "e = run_turns env ts e0"
  shows "prefix (history received_ops env ts e0) (history accepted_ops env ts e0) \<and>
    (se_status e W_Batcher \<noteq> Ended \<longrightarrow>
       history received_ops env ts e0 @ ch_items (se_batch e) @
         (case se_forward e of Some op \<Rightarrow> [op] | None \<Rightarrow> []) @ ch_items (se_inbound e) =
       history accepted_ops env ts e0)"
proof -
  have "in_flight e0 = []"
    by (simp add: assms(1) in_flight_def spawn_all_def spawn_cdc_poller_def spawn_outbound_worker_def
        spawn_inbound_worker_def init_loro_subscriber_def engine_new_def ch_new_def)
  with pipeline_history [of e0 env ts] workers_ok_spawned [of db doc n ms metrics health] show ?thesis
    unfolding assms(2) in_flight_def [of "run_turns env ts e0"] by (simp add: assms(1))
qed

definition two_deletes :: "(nat \<times> nat, table_doc) turn list" where
  "two_deletes = [T_Batcher Finished,
     T_Commit \<lparr>de_origin = ''user'', de_events = [\<lparr>cd_target = CID_Root ROOT_VERTICES,
       cd_diff = Diff_Map [(''v1'', None), (''v2'', None)]\<rparr>]\<rparr>,
     T_Inbound, T_Inbound, T_Batcher Finished]"

lemma two_deletes_run:
  "history received_ops quiet_env two_deletes quiet_engine = [DeleteNode ''v1''] \<and>
   se_status (run_turns quiet_env two_deletes quiet_engine) W_Batcher = Listening"
proof -
  let ?ev = "\<lparr>de_origin = ''user'', de_events = [\<lparr>cd_target = CID_Root ROOT_VERTICES,
    cd_diff = Diff_Map [(''v1'', None), (''v2'', None)]\<rparr>]\<rparr>"
  let ?e0 = quiet_engine
  have e0: "se_status ?e0 W_Batcher = Starting" "se_status ?e0 W_Inbound = Listening" "se_inbound ?e0 = ch_new"
    "se_batch ?e0 = ch_new" "se_forward ?e0 = None" "se_subscribed ?e0" "bt_buffer (se_batcher ?e0) = []"
    "bt_batch_size (se_batcher ?e0) = 4"
    by (simp_all add: quiet_engine_def spawn_all_def spawn_cdc_poller_def spawn_outbound_worker_def set_status_def
        spawn_inbound_worker_def init_loro_subscriber_def engine_new_def batcher_new_def ch_new_def)
  define e1 where "e1 = set_status W_Batcher Listening ?e0"
  have t1: "turn_step quiet_env (T_Batcher Finished) ?e0 = e1" "received_ops (T_Batcher Finished) ?e0 = []"
    by (simp_all add: turn_step.simps batcher_task_step_def e0 e1_def received_ops_def)
  have ops: "translate_diff_event ?ev = [DeleteNode ''v1'', DeleteNode ''v2'']"
    by (simp add: translate_diff_event_def translate_container_def translate_vertex_entry_def)
  define e2 where "e2 = turn_step quiet_env (T_Commit ?ev) e1"
  have e2: "ch_items (se_inbound e2) = [DeleteNode ''v1'', DeleteNode ''v2'']" "se_status e2 W_Batcher = Listening"
    "se_status e2 W_Inbound = Listening" "se_batch e2 = ch_new" "se_forward e2 = None"
    "se_batcher e2 = se_batcher ?e0"
    by (simp_all add: e2_def e1_def turn_step.simps subscriber_handler_def send_ops_conv ops Let_def room_def ch_new_def
        CHANNEL_CAPACITY_def ORIGIN_GRAFEO_BRIDGE_def ORIGIN_LORO_BRIDGE_def e0 set_status_def)
  define e3 where "e3 = turn_step quiet_env T_Inbound e2"
  have e3: "ch_items (se_inbound e3) = [DeleteNode ''v2'']" "se_status e3 W_Batcher = Listening"
    "se_status e3 W_Inbound = Listening" "se_batch e3 = \<lparr>ch_items = [DeleteNode ''v1''], ch_closed = False\<rparr>"
    "se_forward e3 = None" "se_batcher e3 = se_batcher ?e0"
    by (simp_all add: e3_def turn_step.simps inbound_worker_step_def e2 forward_op_cases ch_new_def CHANNEL_CAPACITY_def)
  define e4 where "e4 = turn_step quiet_env T_Inbound e3"
  have e4: "se_status e4 W_Batcher = Listening" "ch_items (se_batch e4) = [DeleteNode ''v1'', DeleteNode ''v2'']"
    "se_batcher e4 = se_batcher ?e0"
    by (simp_all add: e4_def turn_step.simps inbound_worker_step_def e3 forward_op_cases CHANNEL_CAPACITY_def)
  have "se_status (turn_step quiet_env (T_Batcher Finished) e4) W_Batcher = Listening"
    by (simp add: turn_step.simps batcher_task_step_def e4 batcher_step.simps e0 Let_def)
  then show ?thesis
    by (simp add: two_deletes_def t1 e2_def [symmetric] e3_def [symmetric] e4_def [symmetric] e4)
      (simp add: received_ops_def e4)
qed

theorem inbound_pipeline_keeps_order_witness:
  "let e = run_turns quiet_env two_deletes quiet_engine in
     prefix [DeleteNode ''v1''] (history accepted_ops quiet_env two_deletes quiet_engine) \<and>
     [DeleteNode ''v1''] @ ch_items (se_batch e) @ (case se_forward e of Some op \<Rightarrow> [op] | None \<Rightarrow> []) @
       ch_items (se_inbound e) = history accepted_ops quiet_env two_deletes quiet_engine"
  using inbound_pipeline_keeps_order [OF quiet_engine_def refl, of quiet_env two_deletes] two_deletes_run
  by (simp add: Let_def)

text \<open>
  A shutdown is not a drain: an operation that waits in a channel when the batcher sees the signal is dropped with it.
\<close>

lemma shutdown_drops_queued:
  assumes "se_status e W_Batcher = Signalled"
  shows "ch_items (se_batch (turn_step env (T_Batcher oc) e)) = [] \<and> received_ops (T_Batcher oc) e = []"
proof -
  obtain r b where "batcher_step (ee_db env) (Shutdown oc) (se_batcher e) = (Some r, b)"
    using batcher_step_shutdown_ends by blast
  with assms show ?thesis
    by (simp add: turn_step.simps batcher_task_step_def batcher_finish_def ch_close_def received_ops_def)
qed

end
