(* ===== verification/Fuzz_Corpus.thy ===== *)
theory Fuzz_Corpus
  imports Values
begin

text \<open>
  The shared types of the fuzz crate (\<^verbatim>\<open>fuzz/fuzz_targets/lib.rs\<close>) and the generator of its seed corpus
  (\<^verbatim>\<open>fuzz/fuzz_targets/gen_corpus.rs\<close>). The file system is the record \<open>fs_api\<close>; the decoder that reads the
  seeds back belongs to the crate \<^verbatim>\<open>arbitrary\<close> and is not modelled. What is shown is that the encoding
  itself loses nothing: it is a code with unique decoding.
\<close>

section \<open>Fuzz operations\<close>

datatype fuzz_value =
    FV_Null
  | FV_Bool bool
  | FV_I64 "64 word"
  | FV_F64 f64
  | FV_Str string

datatype fuzz_op =
    FzUpsertNode string "string list" "(string \<times> fuzz_value) list"
  | FzUpsertEdge string string string "(string \<times> fuzz_value) list"
  | FzDeleteNode string
  | FzDeleteEdge string string string
  | FzTreeMove string string string

fun to_graph_value :: "fuzz_value \<Rightarrow> graph_value" where
  "to_graph_value FV_Null = GV_Null"
| "to_graph_value (FV_Bool b) = GV_Bool b"
| "to_graph_value (FV_I64 i) = GV_Integer i"
| "to_graph_value (FV_F64 f) = GV_Float f"
| "to_graph_value (FV_Str s) = GV_String s"

text \<open>\<^verbatim>\<open>collect\<close> into a \<^verbatim>\<open>HashMap\<close> inserts one entry after the other.\<close>

fun collect_properties ::
  "(string \<times> fuzz_value) list \<Rightarrow> (string, graph_value) hmap \<Rightarrow> (string, graph_value) hmap" where
  "collect_properties [] m = m"
| "collect_properties ((k, v) # ps) m = collect_properties ps (hm_insert k (to_graph_value v) m)"

fun convert_fuzz_op :: "fuzz_op \<Rightarrow> loro_op" where
  "convert_fuzz_op (FzUpsertNode loro_key labels properties) =
     UpsertNode loro_key labels (collect_properties properties [])"
| "convert_fuzz_op (FzUpsertEdge src_key dst_key label properties) =
     UpsertEdge src_key dst_key label (collect_properties properties [])"
| "convert_fuzz_op (FzDeleteNode loro_key) = DeleteNode loro_key"
| "convert_fuzz_op (FzDeleteEdge src_key dst_key label) = DeleteEdge src_key dst_key label"
| "convert_fuzz_op (FzTreeMove node_key old_parent_key new_parent_key) =
     TreeMove node_key old_parent_key new_parent_key"

section \<open>The encoder\<close>

definition enc_u64 :: "bytes \<Rightarrow> u64 \<Rightarrow> bytes" where
  "enc_u64 buf v = buf @ le_bytes 8 v"

definition enc_u16 :: "bytes \<Rightarrow> u16 \<Rightarrow> bytes" where
  "enc_u16 buf v = buf @ le_bytes 2 v"

definition enc_u8 :: "bytes \<Rightarrow> u8 \<Rightarrow> bytes" where
  "enc_u8 buf v = buf @ [v]"

text \<open>\<^verbatim>\<open>(n as u32).to_le_bytes()\<close>.\<close>

definition enc_len :: "bytes \<Rightarrow> nat \<Rightarrow> bytes" where
  "enc_len buf n = buf @ le_bytes 4 (of_nat n :: u32)"

definition enc_string :: "bytes \<Rightarrow> string \<Rightarrow> bytes" where
  "enc_string buf s = (let bytes = as_bytes s; buf = enc_len buf (length bytes) in buf @ bytes)"

fun enc_fuzz_value :: "bytes \<Rightarrow> fuzz_value \<Rightarrow> bytes" where
  "enc_fuzz_value buf FV_Null = enc_u8 buf 0"
| "enc_fuzz_value buf (FV_Bool b) = enc_u8 (enc_u8 buf 1) (if b then 1 else 0)"
| "enc_fuzz_value buf (FV_I64 i) = enc_u8 buf 2 @ le_bytes 8 i"
| "enc_fuzz_value buf (FV_F64 f) = enc_u8 buf 3 @ le_bytes 8 f"
| "enc_fuzz_value buf (FV_Str s) = enc_string (enc_u8 buf 4) s"

fun enc_labels :: "bytes \<Rightarrow> string list \<Rightarrow> bytes" where
  "enc_labels buf [] = buf"
| "enc_labels buf (l # ls) = enc_labels (enc_string buf l) ls"

fun enc_properties :: "bytes \<Rightarrow> (string \<times> fuzz_value) list \<Rightarrow> bytes" where
  "enc_properties buf [] = buf"
| "enc_properties buf ((k, v) # ps) = enc_properties (enc_fuzz_value (enc_string buf k) v) ps"

fun enc_fuzz_op :: "bytes \<Rightarrow> fuzz_op \<Rightarrow> bytes" where
  "enc_fuzz_op buf (FzUpsertNode loro_key labels properties) =
     (let buf = enc_u8 buf 0;
          buf = enc_string buf loro_key;
          buf = enc_len buf (length labels);
          buf = enc_labels buf labels;
          buf = enc_len buf (length properties)
      in enc_properties buf properties)"
| "enc_fuzz_op buf (FzUpsertEdge src_key dst_key label properties) =
     (let buf = enc_u8 buf 1;
          buf = enc_string buf src_key;
          buf = enc_string buf dst_key;
          buf = enc_string buf label;
          buf = enc_len buf (length properties)
      in enc_properties buf properties)"
| "enc_fuzz_op buf (FzDeleteNode loro_key) = enc_string (enc_u8 buf 2) loro_key"
| "enc_fuzz_op buf (FzDeleteEdge src_key dst_key label) =
     enc_string (enc_string (enc_string (enc_u8 buf 3) src_key) dst_key) label"
| "enc_fuzz_op buf (FzTreeMove node_key old_parent_key new_parent_key) =
     enc_string (enc_string (enc_string (enc_u8 buf 4) node_key) old_parent_key) new_parent_key"

fun enc_fuzz_ops :: "bytes \<Rightarrow> fuzz_op list \<Rightarrow> bytes" where
  "enc_fuzz_ops buf [] = buf"
| "enc_fuzz_ops buf (op # ops) = enc_fuzz_ops (enc_fuzz_op buf op) ops"

definition enc_fuzz_input :: "u64 \<Rightarrow> fuzz_op list \<Rightarrow> u8 \<Rightarrow> u16 \<Rightarrow> bytes" where
  "enc_fuzz_input seed ops peer_count bail_after_ops =
     (let buf = enc_u64 [] seed;
          buf = enc_fuzz_ops buf ops;
          buf = enc_u8 buf peer_count;
          buf = enc_u16 buf bail_after_ops
      in buf @ [of_nat (length ops mod 256)])"

section \<open>The seeds\<close>

fun decimal :: "nat \<Rightarrow> string" where
  "decimal n = (if n < 10 then [char_of (48 + n)] else decimal (n div 10) @ [char_of (48 + n mod 10)])"

declare decimal.simps [simp del]

definition single_upsert_ops :: "fuzz_op list" where
  "single_upsert_ops = [FzUpsertNode ''V/alice'' [''Person''] [(''name'', FV_Str ''Alice''), (''age'', FV_I64 30)]]"

definition all_variants_ops :: "fuzz_op list" where
  "all_variants_ops =
     [FzUpsertNode ''V/n1'' [''A''] [(''k'', FV_I64 1)],
      FzUpsertNode ''V/n2'' [''B''] [(''k'', FV_I64 2)],
      FzUpsertEdge ''V/n1'' ''V/n2'' ''KNOWS'' [(''since'', FV_I64 2024)],
      FzTreeMove ''V/n2'' ''V/n1'' ''V/n1'',
      FzDeleteEdge ''V/n1'' ''V/n2'' ''KNOWS'',
      FzDeleteNode ''V/n2'']"

definition cycle_attempt_ops :: "fuzz_op list" where
  "cycle_attempt_ops =
     [FzUpsertNode ''V/parent'' [''N''] [],
      FzUpsertNode ''V/child'' [''N''] [],
      FzUpsertEdge ''V/parent'' ''V/child'' ''CHILD'' [],
      FzTreeMove ''V/parent'' ''V/nonexistent'' ''V/child'']"

definition large_ops :: "fuzz_op list" where
  "large_ops = map (\<lambda>i. FzUpsertNode (''V/large-'' @ decimal i) [''Batch''] [(''idx'', FV_I64 (of_nat i))]) [0..<256]"

record 'w fs_api =
  fs_create_dir_all :: "string \<Rightarrow> 'w \<Rightarrow> (string + unit) \<times> 'w"
  fs_create :: "string \<Rightarrow> 'w \<Rightarrow> (string + unit) \<times> 'w"
  fs_write_all :: "string \<Rightarrow> bytes \<Rightarrow> 'w \<Rightarrow> (string + unit) \<times> 'w"

definition seed_path :: "string \<Rightarrow> string" where
  "seed_path name = ''corpus/consistency/'' @ name @ ''.bin''"

definition write_seed :: "'w fs_api \<Rightarrow> string \<Rightarrow> bytes \<Rightarrow> 'w \<Rightarrow> (string + unit) \<times> 'w" where
  "write_seed fs name bytes w =
     (case fs_create_dir_all fs ''corpus/consistency'' w of
        (Inl e, w) \<Rightarrow> (Inl e, w)
      | (Inr _, w) \<Rightarrow> (case fs_create fs (seed_path name) w of
          (Inl e, w) \<Rightarrow> (Inl e, w)
        | (Inr _, w) \<Rightarrow> fs_write_all fs (seed_path name) bytes w))"

fun write_seeds :: "'w fs_api \<Rightarrow> (string \<times> bytes) list \<Rightarrow> 'w \<Rightarrow> (string + unit) \<times> 'w" where
  "write_seeds fs [] w = (Inr (), w)"
| "write_seeds fs ((name, bytes) # seeds) w = (case write_seed fs name bytes w of
     (Inl e, w) \<Rightarrow> (Inl e, w)
   | (Inr _, w) \<Rightarrow> write_seeds fs seeds w)"

definition seeds :: "(string \<times> bytes) list" where
  "seeds =
     [(''empty'', enc_fuzz_input 42 [] 1 100),
      (''single_upsert'', enc_fuzz_input 7 single_upsert_ops 1 100),
      (''all_variants'', enc_fuzz_input 99 all_variants_ops 1 100),
      (''cycle_attempt'', enc_fuzz_input 13 cycle_attempt_ops 1 100),
      (''large_batch'', enc_fuzz_input 256 large_ops 1 1000)]"

definition gen_corpus_main :: "'w fs_api \<Rightarrow> 'w \<Rightarrow> (string + unit) \<times> 'w" where
  "gen_corpus_main fs w = write_seeds fs seeds w"

section \<open>The encoders append\<close>

lemmas enc_defs = enc_u8_def enc_u16_def enc_u64_def enc_len_def enc_string_def Let_def

lemma enc_string_conv: "enc_string buf s = buf @ le_bytes 4 (of_nat (length s) :: u32) @ as_bytes s"
  by (simp add: enc_defs)

lemma enc_fuzz_value_append: "enc_fuzz_value buf v = buf @ enc_fuzz_value [] v"
  by (cases v) (simp_all add: enc_defs)

lemma enc_labels_conv: "enc_labels buf ls = buf @ concat (map (enc_string []) ls)"
  by (induction ls arbitrary: buf) (simp_all add: enc_string_conv)

definition enc_property :: "string \<times> fuzz_value \<Rightarrow> bytes" where
  "enc_property kv = enc_string [] (fst kv) @ enc_fuzz_value [] (snd kv)"

lemma enc_properties_conv: "enc_properties buf ps = buf @ concat (map enc_property ps)"
proof (induction buf ps rule: enc_properties.induct)
  case (2 buf k v ps)
  then show ?case
    using enc_fuzz_value_append [of "enc_string buf k" v]
    by (simp add: enc_property_def enc_string_conv)
qed simp

lemma enc_fuzz_op_append: "enc_fuzz_op buf op = buf @ enc_fuzz_op [] op"
  by (cases op) (simp_all add: enc_string_conv enc_labels_conv enc_properties_conv enc_u8_def enc_len_def Let_def)

lemma enc_fuzz_ops_conv: "enc_fuzz_ops buf ops = buf @ concat (map (enc_fuzz_op []) ops)"
proof (induction ops arbitrary: buf)
  case (Cons op ops)
  then show ?case using enc_fuzz_op_append [of buf op] by simp
qed simp

section \<open>Unique decoding\<close>

text \<open>A code is self-delimiting on \<open>P\<close> when no further bytes make the code of one element that of
  another; so is then the concatenation of codes, and a list behind its length.\<close>

definition delimits :: "('a \<Rightarrow> bool) \<Rightarrow> ('a \<Rightarrow> bytes) \<Rightarrow> bool" where
  "delimits P e \<longleftrightarrow> (\<forall>x y r s. P x \<longrightarrow> P y \<longrightarrow> e x @ r = e y @ s \<longrightarrow> x = y \<and> r = s)"

lemma delimitsD: "delimits P e \<Longrightarrow> P x \<Longrightarrow> P y \<Longrightarrow> e x @ r = e y @ s \<Longrightarrow> x = y \<and> r = s"
  unfolding delimits_def by blast

lemma delimits_concat:
  assumes "delimits P e" and "length xs = length ys" and "list_all P xs" and "list_all P ys"
    and "concat (map e xs) @ r = concat (map e ys) @ s"
  shows "xs = ys \<and> r = s"
  using assms(2-)
proof (induction xs ys rule: list_induct2)
  case (Cons x xs y ys)
  have "x = y \<and> concat (map e xs) @ r = concat (map e ys) @ s"
    by (rule delimitsD [OF assms(1)]) (use Cons.prems in simp_all)
  with Cons.IH Cons.prems(1,2) show ?case by simp
qed simp

lemma delimits_concat_all:
  assumes "delimits P e" and "\<And>x. e x \<noteq> []" and "list_all P xs" and "list_all P ys"
    and "concat (map e xs) = concat (map e ys)"
  shows "xs = ys"
  using assms(3-)
proof (induction xs arbitrary: ys)
  case Nil
  then show ?case using assms(2) by (cases ys) auto
next
  case (Cons x xs)
  have "ys \<noteq> []" using Cons.prems(3) assms(2) [of x] by auto
  then obtain y ys' where ys: "ys = y # ys'" by (cases ys) simp_all
  have "x = y \<and> concat (map e xs) = concat (map e ys')"
    by (rule delimitsD [OF assms(1)]) (use Cons.prems ys in simp_all)
  with Cons.IH [of ys'] Cons.prems(1,2) ys show ?case by simp
qed

lemma le_bytes_inj:
  assumes "LENGTH('a) \<le> 8 * n" and "le_bytes n (v :: 'a::len word) @ r = le_bytes n w @ s"
  shows "v = w \<and> r = s"
proof -
  have "le_bytes n v = le_bytes n w" and "r = s" using assms(2) by simp_all
  then show ?thesis
    using of_le_bytes_id [OF assms(1)] by metis
qed

lemma enc_len_inj:
  assumes "m < 2 ^ 32" and "n < 2 ^ 32"
    and "le_bytes 4 (of_nat m :: u32) @ r = le_bytes 4 (of_nat n :: u32) @ s"
  shows "m = n \<and> r = s"
proof -
  from le_bytes_inj [OF _ assms(3)] have "(of_nat m :: u32) = of_nat n" and rs: "r = s" by simp_all
  then have "unat (of_nat m :: u32) = unat (of_nat n :: u32)" by simp
  then show ?thesis using assms(1,2) rs by (simp add: unat_of_nat take_bit_eq_mod)
qed

definition fits :: "'a list \<Rightarrow> bool" where
  "fits xs \<longleftrightarrow> length xs < 2 ^ 32"

lemma as_bytes_inj: "as_bytes s = as_bytes t \<Longrightarrow> s = t"
  using of_bytes_as_bytes [of s] of_bytes_as_bytes [of t] by metis

lemma string_delimits: "delimits fits (enc_string [])"
  unfolding delimits_def enc_string_conv fits_def
proof (intro allI impI)
  fix x y :: string and r s :: bytes
  assume len: "length x < 2 ^ 32" "length y < 2 ^ 32"
    and "([] @ le_bytes 4 (of_nat (length x) :: u32) @ as_bytes x) @ r =
      ([] @ le_bytes 4 (of_nat (length y) :: u32) @ as_bytes y) @ s"
  then have "le_bytes 4 (of_nat (length x) :: u32) @ (as_bytes x @ r) = le_bytes 4 (of_nat (length y) :: u32) @ (as_bytes y @ s)"
    by simp
  from enc_len_inj [OF len this] have "length (as_bytes x) = length (as_bytes y)" "as_bytes x @ r = as_bytes y @ s"
    by simp_all
  then show "x = y \<and> r = s" using as_bytes_inj by simp
qed

fun value_fits :: "fuzz_value \<Rightarrow> bool" where
  "value_fits (FV_Str s) = fits s"
| "value_fits v = True"

lemma strings_delimit:
  "fits x \<Longrightarrow> fits y \<Longrightarrow> enc_string [] x @ r = enc_string [] y @ s \<Longrightarrow> x = y \<and> r = s"
  by (rule delimitsD [OF string_delimits])

lemma enc_fuzz_value_conv:
  "enc_fuzz_value [] FV_Null = [0]" "enc_fuzz_value [] (FV_Bool b) = [1, if b then 1 else 0]"
  "enc_fuzz_value [] (FV_I64 i) = 2 # le_bytes 8 i" "enc_fuzz_value [] (FV_F64 f) = 3 # le_bytes 8 f"
  "enc_fuzz_value [] (FV_Str t) = 4 # enc_string [] t"
  by (simp_all add: enc_defs)

declare enc_fuzz_value.simps [simp del]

lemma words_delimit: "le_bytes 8 (v :: u64) @ r = le_bytes 8 w @ s \<Longrightarrow> v = w \<and> r = s"
  by (rule le_bytes_inj [of 8, rotated]) (assumption, simp)

lemma value_delimits: "delimits value_fits (enc_fuzz_value [])"
  unfolding delimits_def
proof (intro allI impI)
  fix x y r s
  assume fit: "value_fits x" "value_fits y" and eq: "enc_fuzz_value [] x @ r = enc_fuzz_value [] y @ s"
  show "x = y \<and> r = s"
  proof (cases x)
    case FV_Null
    then show ?thesis using eq by (cases y) (simp_all add: enc_fuzz_value_conv)
  next
    case (FV_Bool b)
    then show ?thesis using eq by (cases y) (simp_all add: enc_fuzz_value_conv split: if_splits)
  next
    case (FV_I64 i)
    with eq obtain w where y: "y = FV_I64 w" by (cases y) (simp_all add: enc_fuzz_value_conv)
    have "i = w \<and> r = s"
      by (rule words_delimit) (use FV_I64 y eq in \<open>simp add: enc_fuzz_value_conv\<close>)
    with FV_I64 y show ?thesis by simp
  next
    case (FV_F64 f)
    with eq obtain w where y: "y = FV_F64 w" by (cases y) (simp_all add: enc_fuzz_value_conv)
    have "f = w \<and> r = s"
      by (rule words_delimit) (use FV_F64 y eq in \<open>simp add: enc_fuzz_value_conv\<close>)
    with FV_F64 y show ?thesis by simp
  next
    case (FV_Str t)
    with eq obtain t' where y: "y = FV_Str t'" by (cases y) (simp_all add: enc_fuzz_value_conv)
    have "t = t' \<and> r = s"
      by (rule strings_delimit) (use FV_Str y fit eq in \<open>simp_all add: enc_fuzz_value_conv\<close>)
    with FV_Str y show ?thesis by simp
  qed
qed

definition property_fits :: "string \<times> fuzz_value \<Rightarrow> bool" where
  "property_fits kv \<longleftrightarrow> fits (fst kv) \<and> value_fits (snd kv)"

lemma property_delimits: "delimits property_fits enc_property"
  unfolding delimits_def enc_property_def property_fits_def
proof (intro allI impI)
  fix x y :: "string \<times> fuzz_value" and r s
  assume fit: "fits (fst x) \<and> value_fits (snd x)" "fits (fst y) \<and> value_fits (snd y)"
    and eq: "(enc_string [] (fst x) @ enc_fuzz_value [] (snd x)) @ r = (enc_string [] (fst y) @ enc_fuzz_value [] (snd y)) @ s"
  have "fst x = fst y \<and> enc_fuzz_value [] (snd x) @ r = enc_fuzz_value [] (snd y) @ s"
    by (rule delimitsD [OF string_delimits]) (use fit eq in simp_all)
  moreover from this have "snd x = snd y \<and> r = s"
    by (intro delimitsD [OF value_delimits]) (use fit in simp_all)
  ultimately show "x = y \<and> r = s" by (simp add: prod_eq_iff)
qed

text \<open>A list behind its length.\<close>

definition enc_list :: "('a \<Rightarrow> bytes) \<Rightarrow> 'a list \<Rightarrow> bytes" where
  "enc_list e xs = le_bytes 4 (of_nat (length xs) :: u32) @ concat (map e xs)"

lemma list_delimits:
  assumes "delimits P e"
  shows "delimits (\<lambda>xs. fits xs \<and> list_all P xs) (enc_list e)"
  unfolding delimits_def enc_list_def fits_def
proof (intro allI impI)
  fix xs ys and r s :: bytes
  assume fit: "length xs < 2 ^ 32 \<and> list_all P xs" "length ys < 2 ^ 32 \<and> list_all P ys"
    and "(le_bytes 4 (of_nat (length xs) :: u32) @ concat (map e xs)) @ r =
      (le_bytes 4 (of_nat (length ys) :: u32) @ concat (map e ys)) @ s"
  then have "length xs = length ys \<and> concat (map e xs) @ r = concat (map e ys) @ s"
    by (intro enc_len_inj) simp_all
  with fit show "xs = ys \<and> r = s" using delimits_concat [OF assms] by blast
qed

text \<open>Every length the encoder writes fits its 32 bits.\<close>

fun op_fits :: "fuzz_op \<Rightarrow> bool" where
  "op_fits (FzUpsertNode k ls ps) \<longleftrightarrow>
     fits k \<and> (fits ls \<and> list_all fits ls) \<and> (fits ps \<and> list_all property_fits ps)"
| "op_fits (FzUpsertEdge a b l ps) \<longleftrightarrow> fits a \<and> fits b \<and> fits l \<and> (fits ps \<and> list_all property_fits ps)"
| "op_fits (FzDeleteNode k) \<longleftrightarrow> fits k"
| "op_fits (FzDeleteEdge a b l) \<longleftrightarrow> fits a \<and> fits b \<and> fits l"
| "op_fits (FzTreeMove n a b) \<longleftrightarrow> fits n \<and> fits a \<and> fits b"

lemma enc_fuzz_op_conv:
  "enc_fuzz_op [] (FzUpsertNode k ls ps) = 0 # enc_string [] k @ enc_list (enc_string []) ls @ enc_list enc_property ps"
  "enc_fuzz_op [] (FzUpsertEdge a b l ps) =
     1 # enc_string [] a @ enc_string [] b @ enc_string [] l @ enc_list enc_property ps"
  "enc_fuzz_op [] (FzDeleteNode k) = 2 # enc_string [] k"
  "enc_fuzz_op [] (FzDeleteEdge a b l) = 3 # enc_string [] a @ enc_string [] b @ enc_string [] l"
  "enc_fuzz_op [] (FzTreeMove n a b) = 4 # enc_string [] n @ enc_string [] a @ enc_string [] b"
  by (simp_all add: enc_string_conv enc_labels_conv enc_properties_conv enc_u8_def enc_len_def enc_list_def Let_def)

declare enc_fuzz_op.simps [simp del]

lemma three_strings:
  assumes "fits a" "fits a'" "fits b" "fits b'" "fits l" "fits l'"
    and "enc_string [] a @ enc_string [] b @ enc_string [] l @ r =
      enc_string [] a' @ enc_string [] b' @ enc_string [] l' @ s"
  shows "a = a' \<and> b = b' \<and> l = l' \<and> r = s"
proof -
  have "a = a' \<and> enc_string [] b @ enc_string [] l @ r = enc_string [] b' @ enc_string [] l' @ s"
    by (rule strings_delimit) (use assms in simp_all)
  moreover from this have "b = b' \<and> enc_string [] l @ r = enc_string [] l' @ s"
    by (intro strings_delimit) (use assms in simp_all)
  moreover from this have "l = l' \<and> r = s"
    by (intro strings_delimit) (use assms in simp_all)
  ultimately show ?thesis by blast
qed

lemma label_list_delimits:
  "fits x \<and> list_all fits x \<Longrightarrow> fits y \<and> list_all fits y \<Longrightarrow>
     enc_list (enc_string []) x @ r = enc_list (enc_string []) y @ s \<Longrightarrow> x = y \<and> r = s"
  by (rule delimitsD [OF list_delimits [OF string_delimits]])

lemma property_list_delimits:
  "fits x \<and> list_all property_fits x \<Longrightarrow> fits y \<and> list_all property_fits y \<Longrightarrow>
     enc_list enc_property x @ r = enc_list enc_property y @ s \<Longrightarrow> x = y \<and> r = s"
  by (rule delimitsD [OF list_delimits [OF property_delimits]])

lemma op_delimits: "delimits op_fits (enc_fuzz_op [])"
  unfolding delimits_def
proof (intro allI impI)
  fix x y r s
  assume fit: "op_fits x" "op_fits y" and eq: "enc_fuzz_op [] x @ r = enc_fuzz_op [] y @ s"
  show "x = y \<and> r = s"
  proof (cases x)
    case (FzUpsertNode k ls ps)
    with eq obtain k' ls' ps' where y: "y = FzUpsertNode k' ls' ps'"
      by (cases y) (simp_all add: enc_fuzz_op_conv)
    have "k = k' \<and> enc_list (enc_string []) ls @ enc_list enc_property ps @ r =
        enc_list (enc_string []) ls' @ enc_list enc_property ps' @ s"
      by (rule strings_delimit) (use FzUpsertNode y fit eq in \<open>simp_all add: enc_fuzz_op_conv\<close>)
    moreover from this have "ls = ls' \<and> enc_list enc_property ps @ r = enc_list enc_property ps' @ s"
      by (intro label_list_delimits) (use FzUpsertNode y fit in simp_all)
    moreover from this have "ps = ps' \<and> r = s"
      by (intro property_list_delimits) (use FzUpsertNode y fit in simp_all)
    ultimately show ?thesis using FzUpsertNode y by simp
  next
    case (FzUpsertEdge a b l ps)
    with eq obtain a' b' l' ps' where y: "y = FzUpsertEdge a' b' l' ps'"
      by (cases y) (simp_all add: enc_fuzz_op_conv)
    have "a = a' \<and> enc_string [] b @ enc_string [] l @ enc_list enc_property ps @ r =
        enc_string [] b' @ enc_string [] l' @ enc_list enc_property ps' @ s"
      by (rule strings_delimit) (use FzUpsertEdge y fit eq in \<open>simp_all add: enc_fuzz_op_conv\<close>)
    moreover from this have "b = b' \<and> enc_string [] l @ enc_list enc_property ps @ r =
        enc_string [] l' @ enc_list enc_property ps' @ s"
      by (intro strings_delimit) (use FzUpsertEdge y fit in simp_all)
    moreover from this have "l = l' \<and> enc_list enc_property ps @ r = enc_list enc_property ps' @ s"
      by (intro strings_delimit) (use FzUpsertEdge y fit in simp_all)
    moreover from this have "ps = ps' \<and> r = s"
      by (intro property_list_delimits) (use FzUpsertEdge y fit in simp_all)
    ultimately show ?thesis using FzUpsertEdge y by simp
  next
    case (FzDeleteNode k)
    with eq obtain k' where y: "y = FzDeleteNode k'" by (cases y) (simp_all add: enc_fuzz_op_conv)
    have "k = k' \<and> r = s"
      by (rule strings_delimit) (use FzDeleteNode y fit eq in \<open>simp_all add: enc_fuzz_op_conv\<close>)
    with FzDeleteNode y show ?thesis by simp
  next
    case (FzDeleteEdge a b l)
    with eq obtain a' b' l' where y: "y = FzDeleteEdge a' b' l'"
      by (cases y) (simp_all add: enc_fuzz_op_conv)
    show ?thesis using three_strings [of a a' b b' l l' r s] FzDeleteEdge y fit eq
      by (simp add: enc_fuzz_op_conv)
  next
    case (FzTreeMove a b l)
    with eq obtain a' b' l' where y: "y = FzTreeMove a' b' l'"
      by (cases y) (simp_all add: enc_fuzz_op_conv)
    show ?thesis using three_strings [of a a' b b' l l' r s] FzTreeMove y fit eq
      by (simp add: enc_fuzz_op_conv)
  qed
qed

lemma op_code_not_empty: "enc_fuzz_op [] op \<noteq> []"
  by (cases op) (simp_all add: enc_fuzz_op_conv)

lemma enc_fuzz_input_conv:
  "enc_fuzz_input seed ops peers bail =
     le_bytes 8 seed @ concat (map (enc_fuzz_op []) ops) @ peers # le_bytes 2 bail @ [of_nat (length ops mod 256)]"
  by (simp add: enc_fuzz_input_def enc_fuzz_ops_conv enc_u64_def enc_u8_def enc_u16_def Let_def)

section \<open>What the generator writes\<close>

text \<open>A file system without failures.\<close>

definition plain_fs :: "(string \<Rightarrow> bytes option) fs_api" where
  "plain_fs = \<lparr>fs_create_dir_all = (\<lambda>p w. (Inr (), w)), fs_create = (\<lambda>p w. (Inr (), w(p \<mapsto> []))),
     fs_write_all = (\<lambda>p b w. (Inr (), w(p \<mapsto> b)))\<rparr>"

lemma write_seeds_plain:
  "distinct (map fst ss) \<Longrightarrow>
     \<exists>w'. write_seeds plain_fs ss w = (Inr (), w') \<and>
       (\<forall>name bytes. (name, bytes) \<in> set ss \<longrightarrow> w' (seed_path name) = Some bytes) \<and>
       (\<forall>p. p \<notin> seed_path ` fst ` set ss \<longrightarrow> w' p = w p)"
proof (induction ss arbitrary: w)
  case (Cons x ss)
  obtain name bytes where x: "x = (name, bytes)" by (cases x)
  obtain w' where w': "write_seeds plain_fs ss (w(seed_path name \<mapsto> bytes)) = (Inr (), w')"
    "\<And>n b. (n, b) \<in> set ss \<Longrightarrow> w' (seed_path n) = Some b"
    "\<And>p. p \<notin> seed_path ` fst ` set ss \<Longrightarrow> w' p = (w(seed_path name \<mapsto> bytes)) p"
    using Cons.IH [of "w(seed_path name \<mapsto> bytes)"] Cons.prems by (simp del: fun_upd_apply) blast
  have "seed_path name \<notin> seed_path ` fst ` set ss"
    using Cons.prems x by (auto simp: seed_path_def)
  then have "w' (seed_path name) = Some bytes" using w'(3) by simp
  with w' show ?case
    by (auto simp: x write_seed_def plain_fs_def fun_upd_upd)
qed simp

text \<open>The generator writes its five files and nothing else, whatever was there: a second run changes
  nothing.\<close>

lemma gen_corpus_idempotent:
  "gen_corpus_main plain_fs (snd (gen_corpus_main plain_fs w)) = (Inr (), snd (gen_corpus_main plain_fs w))"
proof -
  have d: "distinct (map fst seeds)" by (simp add: seeds_def)
  obtain w1 where w1: "write_seeds plain_fs seeds w = (Inr (), w1)"
    "\<And>n b. (n, b) \<in> set seeds \<Longrightarrow> w1 (seed_path n) = Some b"
    "\<And>p. p \<notin> seed_path ` fst ` set seeds \<Longrightarrow> w1 p = w p"
    using write_seeds_plain [OF d, of w] by blast
  obtain w2 where w2: "write_seeds plain_fs seeds w1 = (Inr (), w2)"
    "\<And>n b. (n, b) \<in> set seeds \<Longrightarrow> w2 (seed_path n) = Some b"
    "\<And>p. p \<notin> seed_path ` fst ` set seeds \<Longrightarrow> w2 p = w1 p"
    using write_seeds_plain [OF d, of w1] by blast
  have "w2 p = w1 p" for p
    using w1(2) w2(2,3) by (cases "p \<in> seed_path ` fst ` set seeds") fastforce+
  then show ?thesis using w1(1) w2(1) by (simp add: gen_corpus_main_def fun_eq_iff)
qed

text \<open>The length byte of the largest seed is that of the empty one.\<close>

lemma large_batch_claims_no_ops:
  "length large_ops = 256 \<and> last (enc_fuzz_input 256 large_ops 1 1000) = last (enc_fuzz_input 42 [] 1 100)"
proof -
  have "length large_ops = 256" unfolding large_ops_def length_map length_upt by simp
  then show ?thesis by (simp add: enc_fuzz_input_conv)
qed

section \<open>Properties\<close>

text \<open>The encoder of the seed corpus has unique decoding: when
  every string and list fits its 32-bit length field, two inputs with the same bytes have the same
  seed, the same operations in the same order, the same peer count and the same operation limit. No
  length field for the list of operations is needed for this.\<close>

theorem seed_encoding_loses_nothing:
  assumes "list_all op_fits ops" and "list_all op_fits ops'"
    and "enc_fuzz_input seed ops peers bail = enc_fuzz_input seed' ops' peers' bail'"
  shows "seed = seed' \<and> ops = ops' \<and> peers = peers' \<and> bail = bail'"
proof -
  have "le_bytes 8 seed @ (concat (map (enc_fuzz_op []) ops) @ peers # le_bytes 2 bail @ [of_nat (length ops mod 256)]) =
      le_bytes 8 seed' @ (concat (map (enc_fuzz_op []) ops') @ peers' # le_bytes 2 bail' @ [of_nat (length ops' mod 256)])"
    using assms(3) by (simp only: enc_fuzz_input_conv)
  from words_delimit [OF this] have seed: "seed = seed'"
    and rest: "concat (map (enc_fuzz_op []) ops) @ (peers # le_bytes 2 bail @ [of_nat (length ops mod 256)]) =
      concat (map (enc_fuzz_op []) ops') @ (peers' # le_bytes 2 bail' @ [of_nat (length ops' mod 256)])"
    by blast+
  from rest have code: "concat (map (enc_fuzz_op []) ops) = concat (map (enc_fuzz_op []) ops')"
    and tail: "peers = peers'" "le_bytes 2 bail @ [of_nat (length ops mod 256)] = le_bytes 2 bail' @ [of_nat (length ops' mod 256)]"
    by simp_all
  have "bail = bail'" using le_bytes_inj [OF _ tail(2)] by simp
  with seed tail(1) delimits_concat_all [OF op_delimits op_code_not_empty assms(1,2) code] show ?thesis by blast
qed

theorem seed_encoding_loses_nothing_witness:
  "enc_fuzz_input 7 [FzDeleteNode ''a'', FzTreeMove ''b'' ''c'' ''d''] 1 100 \<noteq>
   enc_fuzz_input 7 [FzDeleteNode ''a'', FzTreeMove ''b'' ''cd'' ''''] 1 100"
proof
  assume eq: "enc_fuzz_input 7 [FzDeleteNode ''a'', FzTreeMove ''b'' ''c'' ''d''] 1 100 =
    enc_fuzz_input 7 [FzDeleteNode ''a'', FzTreeMove ''b'' ''cd'' ''''] 1 100"
  have "list_all op_fits [FzDeleteNode ''a'', FzTreeMove ''b'' ''c'' ''d'']"
    "list_all op_fits [FzDeleteNode ''a'', FzTreeMove ''b'' ''cd'' '''']"
    by (simp_all add: fits_def)
  from seed_encoding_loses_nothing [OF this eq] show False by simp
qed

end
