(* ===== verification/Fuzz_Harness.thy ===== *)
theory Fuzz_Harness
  imports Fuzz_Corpus Sync_Tree Hydration Compression Presence Embedding Sync_Engine
begin

text \<open>
  The fuzz target \<^verbatim>\<open>fuzz/fuzz_targets/consistency.rs\<close>: the loop that applies random operations to a fresh
  database and mirrors them, the checks of the invariants I1 to I15, and the target that runs them. A
  check that panics is \<open>False\<close>, or \<open>None\<close> where the check also writes. The decoder of the input, the
  database, the document and the scheduler of the one asynchronous check are parameters.
\<close>

section \<open>Input and state\<close>

record fuzz_input =
  fi_seed :: u64
  fi_ops :: "fuzz_op list"
  fi_peer_count :: u8
  fi_bail_after_ops :: u16

text \<open>The calls on the mirrored document, whose results the harness ignores.\<close>

record 'd mirror_api =
  md_ensure_map :: "string \<Rightarrow> string \<Rightarrow> 'd \<Rightarrow> 'd"
  md_delete :: "string \<Rightarrow> string \<Rightarrow> 'd \<Rightarrow> 'd"
  md_commit :: "'d \<Rightarrow> 'd"

record ('s, 'd) fuzz_run =
  fz_db :: 's
  fz_doc :: 'd
  fz_maps :: bridge_maps
  fz_epochs :: "epoch_id set"
  fz_live_nodes :: "string set"
  fz_live_edges :: "edge_key set"
  fz_op_count :: u64
  fz_last_tree_move :: "fuzz_op option"

definition fuzz_start :: "'s \<Rightarrow> 'd \<Rightarrow> ('s, 'd) fuzz_run" where
  "fuzz_start db doc = \<lparr>fz_db = db, fz_doc = doc, fz_maps = maps_new, fz_epochs = {}, fz_live_nodes = {},
     fz_live_edges = {}, fz_op_count = 0, fz_last_tree_move = None\<rparr>"

section \<open>The loop\<close>

text \<open>\<^verbatim>\<open>if let Ok(prepared)\<close>, \<^verbatim>\<open>if let Ok(epoch)\<close>: a failure is ignored and the session dropped.\<close>

definition commit_epoch :: "'s db_api \<Rightarrow> 's \<Rightarrow> epoch_id set \<Rightarrow> 's \<times> epoch_id set" where
  "commit_epoch db s epochs = (case d_prepare_commit db s of
     (Inl e, s) \<Rightarrow> (d_drop_session db s, epochs)
   | (Inr _, s) \<Rightarrow> (case d_commit db s of
       (Inl e, s) \<Rightarrow> (d_drop_session db s, epochs)
     | (Inr epoch, s) \<Rightarrow> (s, insert epoch epochs)))"

fun mirror_op :: "'d mirror_api \<Rightarrow> fuzz_op \<Rightarrow> ('s, 'd) fuzz_run \<Rightarrow> ('s, 'd) fuzz_run" where
  "mirror_op md (FzUpsertNode loro_key labels properties) st =
     st\<lparr>fz_doc := md_commit md (md_ensure_map md ROOT_VERTICES loro_key (fz_doc st)),
        fz_live_nodes := insert loro_key (fz_live_nodes st)\<rparr>"
| "mirror_op md (FzDeleteNode loro_key) st =
     st\<lparr>fz_doc := md_commit md (md_delete md ROOT_VERTICES loro_key (fz_doc st)),
        fz_live_nodes := fz_live_nodes st - {loro_key}\<rparr>"
| "mirror_op md (FzUpsertEdge src_key dst_key label properties) st =
     st\<lparr>fz_live_edges := insert (src_key, dst_key, label) (fz_live_edges st)\<rparr>"
| "mirror_op md (FzDeleteEdge src_key dst_key label) st =
     st\<lparr>fz_live_edges := fz_live_edges st - {(src_key, dst_key, label)}\<rparr>"
| "mirror_op md (FzTreeMove node_key old_parent_key new_parent_key) st =
     st\<lparr>fz_live_edges := insert (new_parent_key, node_key, TREE_EDGE_LABEL)
          (fz_live_edges st - {(old_parent_key, node_key, TREE_EDGE_LABEL)}),
        fz_last_tree_move := Some (FzTreeMove node_key old_parent_key new_parent_key)\<rparr>"

definition fuzz_step :: "'s db_api \<Rightarrow> 'd mirror_api \<Rightarrow> fuzz_op \<Rightarrow> ('s, 'd) fuzz_run \<Rightarrow> ('s, 'd) fuzz_run option" where
  "fuzz_step db md fuzz_op st =
     (let op = convert_fuzz_op fuzz_op in
      case d_begin_transaction db (fz_db st) of
        (Inl e, s) \<Rightarrow> None
      | (Inr _, s) \<Rightarrow> (case apply_loro_op (d_session db) op (s, fz_maps st) of (_, s, maps) \<Rightarrow>
          (case commit_epoch db s (fz_epochs st) of (s, epochs) \<Rightarrow>
             let st = mirror_op md fuzz_op (st\<lparr>fz_db := s, fz_maps := maps, fz_epochs := epochs\<rparr>)
             in Some (st\<lparr>fz_op_count := fz_op_count st + 1\<rparr>))))"

fun fuzz_loop :: "'s db_api \<Rightarrow> 'd mirror_api \<Rightarrow> fuzz_op list \<Rightarrow> ('s, 'd) fuzz_run \<Rightarrow> ('s, 'd) fuzz_run option" where
  "fuzz_loop db md [] st = Some st"
| "fuzz_loop db md (op # ops) st = (case fuzz_step db md op st of
     None \<Rightarrow> None
   | Some st \<Rightarrow> fuzz_loop db md ops st)"

section \<open>The checks on the state\<close>

definition check_i1 :: "('s, 'd) fuzz_run \<Rightarrow> bool" where
  "check_i1 st \<longleftrightarrow> set (hm_keys (node_id_map (fz_maps st))) = fz_live_nodes st"

definition check_i2 :: "('s, 'd) fuzz_run \<Rightarrow> bool" where
  "check_i2 st \<longleftrightarrow> set (hm_keys (edge_id_map (fz_maps st))) = fz_live_edges st"

definition check_i3a :: "u64 \<Rightarrow> ('s, 'd) fuzz_run \<Rightarrow> bool" where
  "check_i3a requested_ops st \<longleftrightarrow> fz_op_count st = requested_ops"

definition check_i4 :: "('s, 'd) fuzz_run \<Rightarrow> bool" where
  "check_i4 st \<longleftrightarrow> card (fz_epochs st) \<le> unat EPOCH_RETENTION + 1"

text \<open>One pair of tables: equal lengths, and every forward entry has its inverse.\<close>

definition inverse_of :: "('k, 'i) hmap \<Rightarrow> ('i, 'k) hmap \<Rightarrow> bool" where
  "inverse_of forward inv_map \<longleftrightarrow> length forward = length inv_map \<and>
     list_all (\<lambda>(k, v). hm_get inv_map v = Some k) forward"

definition check_i11 :: "bridge_maps \<Rightarrow> bool" where
  "check_i11 maps \<longleftrightarrow> inverse_of (node_id_map maps) (node_key_map maps) \<and>
     inverse_of (edge_id_map maps) (edge_key_map maps)"

text \<open>The breadth-first walk of I14: a node that is dequeued twice is a panic.\<close>

function child_walk :: "(node_id \<Rightarrow> node_id list) \<Rightarrow> node_id list \<Rightarrow> node_id set \<Rightarrow> bool" where
  "child_walk children [] visited = True"
| "child_walk children (node # queue) visited =
     (if node \<in> visited then False
      else child_walk children (queue @ children node) (insert node visited))"
  by pat_completeness auto
termination
proof (relation "measure (\<lambda>(ch, q, v). card (- v))", goal_cases)
  case (2 children node queue visited)
  then have "- insert node visited \<subset> - visited" by auto
  then show ?case by (simp add: psubset_card_mono)
qed simp

definition children_of :: "'s tree_api \<Rightarrow> 's \<Rightarrow> node_id \<Rightarrow> node_id list" where
  "children_of api s node = map fst (t_outgoing_by_type api node TREE_EDGE_LABEL s)"

definition check_i14 :: "'s tree_api \<Rightarrow> 's tx \<Rightarrow> bool" where
  "check_i14 api = (\<lambda>(s, maps).
     list_all (\<lambda>root. child_walk (children_of api s) [root] {}) (map snd (node_id_map maps)))"

section \<open>The checks on their own data\<close>

record 's read_api =
  r_node_count :: "'s \<Rightarrow> nat"
  r_edge_count :: "'s \<Rightarrow> nat"
  r_property :: "node_id \<Rightarrow> string \<Rightarrow> 's \<Rightarrow> grafeo_value option"
  r_property_at :: "epoch_id \<Rightarrow> node_id \<Rightarrow> string \<Rightarrow> 's \<Rightarrow> grafeo_value option"

definition check_i3c ::
  "(string list list \<Rightarrow> string list list) \<Rightarrow> 's db_api \<Rightarrow> 's read_api \<Rightarrow> ('d, 'c) vertex_api \<Rightarrow> 's \<Rightarrow>
     ('s, 'd) fuzz_run \<Rightarrow> bool" where
  "check_i3c ord db rd v fresh_db st =
     (case parallel_hydrate_grafeo ord db v (fz_doc st) (fresh_db, maps_new) of
        (Inl e, _) \<Rightarrow> False
      | (Inr _, fresh_db, _) \<Rightarrow> r_node_count rd fresh_db = card (fz_live_nodes st))"

text \<open>The two runs of I9 may see their chunks in different orders.\<close>

definition check_i9 ::
  "(string list list \<Rightarrow> string list list) \<Rightarrow> (string list list \<Rightarrow> string list list) \<Rightarrow> 's db_api \<Rightarrow> 's read_api \<Rightarrow>
     ('d, 'c) vertex_api \<Rightarrow> 's \<Rightarrow> 'd \<Rightarrow> bool" where
  "check_i9 ord1 ord2 db rd v fresh_db doc =
     (case parallel_hydrate_grafeo ord1 db v doc (fresh_db, maps_new) of
        (Inl e, _) \<Rightarrow> False
      | (Inr _, db1, maps1) \<Rightarrow> (case parallel_hydrate_grafeo ord2 db v doc (fresh_db, maps_new) of
          (Inl e, _) \<Rightarrow> False
        | (Inr _, db2, maps2) \<Rightarrow> r_node_count rd db1 = r_node_count rd db2 \<and>
            r_edge_count rd db1 = r_edge_count rd db2 \<and>
            length (node_id_map maps1) = length (node_id_map maps2)))"

text \<open>\<open>None\<close>: the task does not end, and neither does the check.\<close>

definition check_i3b :: "'s db_api \<Rightarrow> (loro_op list \<Rightarrow> batcher_event list) \<Rightarrow> fuzz_op list \<Rightarrow> 's tx \<Rightarrow> 's tx option" where
  "check_i3b db schedule ops = (\<lambda>(s, maps).
     case batcher_run db (schedule (map convert_fuzz_op ops)) (batcher_new s maps 256 100 {} None None) of
       (None, _) \<Rightarrow> None
     | (Some _, b) \<Rightarrow> Some (bt_db b, bt_maps b))"

definition check_i5 :: "'s \<Rightarrow> 'd \<Rightarrow> container_diff list \<Rightarrow> bool" where
  "check_i5 db doc container_diffs =
     (let engine = init_loro_subscriber (engine_default db doc);
          filtered_before = se_inbound_filtered_count engine;
          events_before = se_inbound_event_count engine;
          engine = subscriber_handler \<lparr>de_origin = ORIGIN_GRAFEO_BRIDGE, de_events = container_diffs\<rparr> engine
      in se_inbound_filtered_count engine = filtered_before + 1 \<and>
         se_inbound_event_count engine = events_before)"

text \<open>One operation in a transaction of its own, every step of it expected to succeed.\<close>

definition expect_write :: "'s db_api \<Rightarrow> loro_op \<Rightarrow> 's tx \<Rightarrow> (epoch_id \<times> 's tx) option" where
  "expect_write db op = (\<lambda>(s, maps). case d_begin_transaction db s of
       (Inl e, s) \<Rightarrow> None
     | (Inr _, s) \<Rightarrow> (case apply_loro_op (d_session db) op (s, maps) of
         (Inl e, _) \<Rightarrow> None
       | (Inr _, s, maps) \<Rightarrow> (case d_prepare_commit db s of
           (Inl e, s) \<Rightarrow> None
         | (Inr _, s) \<Rightarrow> (case d_commit db s of
             (Inl e, s) \<Rightarrow> None
           | (Inr epoch, s) \<Rightarrow> Some (epoch, s, maps)))))"

definition check_i6 :: "'s db_api \<Rightarrow> 's read_api \<Rightarrow> 's tx \<Rightarrow> 's tx option" where
  "check_i6 db rd t =
     (case expect_write db (UpsertNode ''V/i6-ryow-test'' [''Test''] [(''text'', GV_String ''hello-ryow'')]) t of
        None \<Rightarrow> None
      | Some (epoch, s, maps) \<Rightarrow> (case hm_get (node_id_map maps) ''V/i6-ryow-test'' of
          None \<Rightarrow> None
        | Some node_id \<Rightarrow>
            if r_property rd node_id ''text'' s = Some (GR_String ''hello-ryow'') then Some (s, maps) else None))"

definition check_i7 ::
  "('w, 'x) codec_api \<Rightarrow> ('d, 'm, 'f) doc_io_api \<Rightarrow> 'd \<Rightarrow> compression_type \<Rightarrow> bool" where
  "check_i7 cd io doc compression =
     (case io_export io (io_shallow_snapshot io (io_oplog_frontiers io doc)) doc of
        Inl e \<Rightarrow> False
      | Inr snapshot_bytes \<Rightarrow> (case compress_to_wire cd snapshot_bytes compression of
          Inl e \<Rightarrow> False
        | Inr wire1 \<Rightarrow> (case compress_to_wire cd snapshot_bytes compression of
            Inl e \<Rightarrow> False
          | Inr wire2 \<Rightarrow> wire1 = wire2)))"

fun sample_loop :: "nat \<Rightarrow> u64 \<Rightarrow> bytes" where
  "sample_loop 0 s = []"
| "sample_loop (Suc n) s =
     (let s = s + 0x9E3779B97F4A7C15;
          z = s;
          z = (z XOR drop_bit 30 z) * 0xBF58476D1CE4E5B9;
          z = (z XOR drop_bit 27 z) * 0x94D049BB133111EB;
          z = z XOR drop_bit 31 z
      in ucast z # sample_loop n s)"

definition i8_sample :: "u64 \<Rightarrow> bytes" where
  "i8_sample sample_seed = sample_loop (unat (sample_seed mod 4096) + 1) sample_seed"

definition check_i8 :: "('w, 'x) codec_api \<Rightarrow> u64 \<Rightarrow> bool" where
  "check_i8 cd sample_seed = list_all (\<lambda>strategy.
     case payload_compress cd (i8_sample sample_seed) strategy of
       Inl e \<Rightarrow> False
     | Inr payload \<Rightarrow> (case payload_decompress cd payload of
         Inl e \<Rightarrow> False
       | Inr decompressed \<Rightarrow> decompressed = i8_sample sample_seed)) [CT_None, CT_Lz4, CT_Zstd]"

definition check_i10 :: "'s vector_api \<Rightarrow> 's read_api \<Rightarrow> 's tx \<Rightarrow> 's tx option" where
  "check_i10 va rd t =
     (case expect_write (va_db va) (UpsertNode ''V/i10-vec-test'' [''Test'']
          [(''text'', GV_String ''sample text for embedding'')]) t of
        None \<Rightarrow> None
      | Some (epoch, s, maps) \<Rightarrow> (case hm_get (node_id_map maps) ''V/i10-vec-test'' of
          None \<Rightarrow> None
        | Some node_id \<Rightarrow> (case handle_text_update va node_id ''sample text for embedding'' s of
            (Inl e, s) \<Rightarrow> None
          | (Inr _, s) \<Rightarrow> (case r_property rd node_id EMBEDDING_PROPERTY s of
              Some (GR_Vector v) \<Rightarrow> Some (s, maps)
            | _ \<Rightarrow> None))))"

definition check_i12 :: "'s db_api \<Rightarrow> 's read_api \<Rightarrow> 's tx \<Rightarrow> 's tx option" where
  "check_i12 db rd t =
     (case expect_write db (UpsertNode ''V/i12-snap-test'' [''Test''] [(''v'', GV_Integer 1)]) t of
        None \<Rightarrow> None
      | Some (e1, s, maps) \<Rightarrow> (case d_begin_transaction db s of
          (Inl e, s) \<Rightarrow> None
        | (Inr _, s) \<Rightarrow> (case hm_get (node_id_map maps) ''V/i12-snap-test'' of
            None \<Rightarrow> None
          | Some node_id \<Rightarrow> (case s_set_node_property (d_session db) node_id ''v'' (GR_Int64 2) s of
              (Inl e, s) \<Rightarrow> None
            | (Inr _, s) \<Rightarrow> (case d_prepare_commit db s of
                (Inl e, s) \<Rightarrow> None
              | (Inr _, s) \<Rightarrow> (case d_commit db s of
                  (Inl e, s) \<Rightarrow> None
                | (Inr e2, s) \<Rightarrow>
                    if e1 < e2 \<and> r_property_at rd e1 node_id ''v'' s = Some (GR_Int64 1) \<and>
                       r_property rd node_id ''v'' s = Some (GR_Int64 2)
                    then Some (s, maps) else None))))))"

definition rejected :: "'a result \<Rightarrow> bool" where
  "rejected r = (case r of Inl (InvalidEnvelope w) \<Rightarrow> True | _ \<Rightarrow> False)"

definition i15_room :: string where
  "i15_room = ''V/i15-roundtrip-test''"

definition bad_serde :: bytes where
  "bad_serde = EPH_MAGIC @ le_bytes 2 (of_nat (length i15_room) :: u16) @ as_bytes i15_room @ [0x01] @
     as_bytes ''not valid json {{{''"

definition check_i15 :: "json_api \<Rightarrow> presence_payload \<Rightarrow> bool" where
  "check_i15 js payload =
     (case build_eph_envelope js i15_room payload of
        Inl e \<Rightarrow> False
      | Inr built \<Rightarrow> (case parse_eph_envelope js built of
          Inl e \<Rightarrow> False
        | Inr decoded \<Rightarrow> ev_room_id decoded = i15_room \<and> ev_payload decoded = payload \<and>
            rejected (parse_eph_envelope js (as_bytes ''XXXX'' @ drop (length EPH_MAGIC) built)) \<and>
            rejected (parse_eph_envelope js EPH_MAGIC) \<and>
            rejected (parse_eph_envelope js bad_serde)))"

section \<open>The target\<close>

record ('s, 'd, 'c, 'w, 'x, 'm, 'f) fuzz_env =
  fe_decode :: "bytes \<Rightarrow> fuzz_input option"
  fe_tree :: "'s tree_api"
  fe_read :: "'s read_api"
  fe_vector :: "'s vector_api"
  fe_new_db :: 's
  fe_new_doc :: 'd
  fe_mirror :: "'d mirror_api"
  fe_vertex :: "('d, 'c) vertex_api"
  fe_orders :: "nat \<Rightarrow> string list list \<Rightarrow> string list list"
  fe_codec :: "('w, 'x) codec_api"
  fe_io :: "('d, 'm, 'f) doc_io_api"
  fe_json :: json_api
  fe_f32_of_u64 :: "u64 \<Rightarrow> f32"
  fe_f32_div :: "f32 \<Rightarrow> f32 \<Rightarrow> f32"
  fe_schedule :: "loro_op list \<Rightarrow> batcher_event list"
  fe_i5_diffs :: "container_diff list"

definition fuzz_payload :: "('s, 'd, 'c, 'w, 'x, 'm, 'f) fuzz_env \<Rightarrow> u64 \<Rightarrow> presence_payload" where
  "fuzz_payload env seed = \<lparr>
     pp_peer_id = seed,
     pp_active_node = (if seed mod 2 = 0 then Some (''V/'' @ decimal (unat (seed mod 100))) else None),
     pp_cursor_x = fe_f32_div env (fe_f32_of_u64 env seed) 0x42C80000,
     pp_cursor_y = fe_f32_div env (fe_f32_of_u64 env (drop_bit 32 seed)) 0x42C80000,
     pp_last_active_ts = seed\<rparr>"

definition clamp_bail :: "u16 \<Rightarrow> u64" where
  "clamp_bail bail_after_ops = min (ucast (max bail_after_ops 1)) 10000"

definition i7_compression :: "u64 \<Rightarrow> compression_type" where
  "i7_compression seed = (if seed mod 3 = 0 then CT_None else if seed mod 3 = 1 then CT_Lz4 else CT_Zstd)"

text \<open>The checks in the order of the target; those that write pass the database and the maps on.\<close>

definition state_checks :: "('s, 'd, 'c, 'w, 'x, 'm, 'f) fuzz_env \<Rightarrow> u64 \<Rightarrow> u64 \<Rightarrow> ('s, 'd) fuzz_run \<Rightarrow> bool" where
  "state_checks env seed requested_ops st \<longleftrightarrow>
     check_i1 st \<and> check_i2 st \<and> check_i3a requested_ops st \<and> check_i4 st \<and> check_i11 (fz_maps st) \<and>
     check_i3c (fe_orders env 0) (t_db (fe_tree env)) (fe_read env) (fe_vertex env) (fe_new_db env) st \<and>
     check_i15 (fe_json env) (fuzz_payload env seed) \<and>
     (0 < fz_op_count st \<and> (fz_op_count st mod 1000 = 0 \<or> fz_op_count st = requested_ops) \<longrightarrow>
        check_i7 (fe_codec env) (fe_io env) (fz_doc st) (i7_compression seed) \<and>
        check_i9 (fe_orders env 1) (fe_orders env 2) (t_db (fe_tree env)) (fe_read env) (fe_vertex env)
          (fe_new_db env) (fz_doc st))"

definition run_when :: "bool \<Rightarrow> ('a \<Rightarrow> 'a option) \<Rightarrow> 'a option \<Rightarrow> 'a option" where
  "run_when c f x = (if c then Option.bind x f else x)"

definition event_checks ::
  "('s, 'd, 'c, 'w, 'x, 'm, 'f) fuzz_env \<Rightarrow> fuzz_input \<Rightarrow> ('s, 'd) fuzz_run \<Rightarrow> 's tx option" where
  "event_checks env input st =
     (let db = t_db (fe_tree env);
          rd = fe_read env;
          seed = fi_seed input;
          t = Some (fz_db st, fz_maps st);
          t = run_when (fz_op_count st \<le> 100)
                (check_i3b db (fe_schedule env) (take (unat (fz_op_count st)) (fi_ops input))) t;
          t = run_when (seed mod 8 = 0)
                (\<lambda>x. if check_i5 (fe_new_db env) (fe_new_doc env) (fe_i5_diffs env) then Some x else None) t;
          t = run_when (seed mod 4 = 0) (check_i6 db rd) t;
          t = run_when True (\<lambda>x. if check_i8 (fe_codec env) seed then Some x else None) t;
          t = run_when (seed mod 8 = 0) (check_i10 (fe_vector env) rd) t;
          t = run_when True (check_i12 db rd) t
      in run_when (fz_last_tree_move st \<noteq> None)
           (\<lambda>x. if check_i14 (fe_tree env) x then Some x else None) t)"

text \<open>\<open>False\<close>: the iteration panics.\<close>

definition fuzz_target :: "('s, 'd, 'c, 'w, 'x, 'm, 'f) fuzz_env \<Rightarrow> bytes \<Rightarrow> bool" where
  "fuzz_target env data =
     (case fe_decode env data of
        None \<Rightarrow> True
      | Some input \<Rightarrow>
          (let bail = clamp_bail (fi_bail_after_ops input);
               requested_ops = min (of_nat (length (fi_ops input))) bail
           in case fuzz_loop (t_db (fe_tree env)) (fe_mirror env) (take (unat bail) (fi_ops input))
                (fuzz_start (fe_new_db env) (fe_new_doc env)) of
                None \<Rightarrow> False
              | Some st \<Rightarrow> state_checks env (fi_seed input) requested_ops st \<and> event_checks env input st \<noteq> None))"

end
