(* ===== verification/Fuzz_Checks.thy ===== *)
theory Fuzz_Checks
  imports Fuzz_Harness
begin

text \<open>
  What the checks of the fuzz target decide. The walk of I14 is characterised exactly; the parity
  checks I1 and I2 are compared with the key graph that the translator maintains; the move of the
  bridge is shown to close cycles, which the walk then finds.
\<close>

section \<open>The walk of I14\<close>

definition child_rel :: "(node_id \<Rightarrow> node_id list) \<Rightarrow> (node_id \<times> node_id) set" where
  "child_rel children = {(a, b). b \<in> set (children a)}"

text \<open>Below \<open>rt\<close>, the root of a walk, the edges form a tree: no edge leads to \<open>rt\<close>, none is doubled, and no two nodes
  share a child.\<close>

definition below :: "(node_id \<Rightarrow> node_id list) \<Rightarrow> node_id \<Rightarrow> node_id set" where
  "below children rt = {v. (rt, v) \<in> (child_rel children)\<^sup>*}"

definition tree_below :: "(node_id \<Rightarrow> node_id list) \<Rightarrow> node_id \<Rightarrow> bool" where
  "tree_below children rt \<longleftrightarrow>
     (\<forall>v \<in> below children rt. distinct (children v) \<and> rt \<notin> set (children v)) \<and>
     (\<forall>u \<in> below children rt. \<forall>v \<in> below children rt. u \<noteq> v \<longrightarrow> set (children u) \<inter> set (children v) = {})"

lemma below_root: "rt \<in> below children rt"
  by (simp add: below_def)

lemma below_child: "v \<in> below children rt \<Longrightarrow> w \<in> set (children v) \<Longrightarrow> w \<in> below children rt"
  by (auto simp: below_def child_rel_def intro: rtrancl_into_rtrancl)

text \<open>A list of nodes in the order of the walk: what was dequeued and what is queued together are the
  rt and the children of what was dequeued.\<close>

lemma child_walk_order:
  "child_walk children queue (set done) \<Longrightarrow> done @ queue = rt # concat (map children done) \<Longrightarrow> distinct done \<Longrightarrow>
     \<exists>ws. distinct ws \<and> ws = rt # concat (map children ws)"
proof (induction children queue "set done" arbitrary: "done" rule: child_walk.induct)
  case (2 children node queue)
  then have "node \<notin> set done" and "child_walk children (queue @ children node) (set (done @ [node]))"
    by (auto split: if_splits)
  moreover have "(done @ [node]) @ (queue @ children node) = rt # concat (map children (done @ [node]))"
    using 2(3) by simp
  ultimately show ?case using 2(1) [of "done @ [node]"] 2(4) by simp
qed auto

lemma distinct_concat_disjoint:
  "distinct (concat (map f xs)) \<Longrightarrow> u \<in> set xs \<Longrightarrow> distinct (f u)"
  "distinct (concat (map f xs)) \<Longrightarrow> u \<in> set xs \<Longrightarrow> v \<in> set xs \<Longrightarrow> u \<noteq> v \<Longrightarrow> set (f u) \<inter> set (f v) = {}"
  by (induction xs) auto

lemma walk_order_tree:
  assumes "distinct ws" and ws: "ws = rt # concat (map children ws)"
  shows "tree_below children rt"
proof -
  have rt: "rt \<in> set ws" by (subst ws) simp
  have step: "w \<in> set ws" if "v \<in> set ws" "w \<in> set (children v)" for v w
    using that by (subst ws) auto
  have sub: "v \<in> set ws" if "v \<in> below children rt" for v
    using that unfolding below_def mem_Collect_eq
    by (induction rule: rtrancl_induct) (auto simp: rt child_rel_def intro: step)
  have "distinct (rt # concat (map children ws))" using assms by simp
  then have "distinct (concat (map children ws))" and "rt \<notin> set (concat (map children ws))" by simp_all
  then show ?thesis
    unfolding tree_below_def using sub distinct_concat_disjoint [of children ws] by auto
qed

lemma tree_walk_distinct:
  assumes "tree_below children rt" and "set vs \<subseteq> below children rt" and "distinct vs"
  shows "distinct (rt # concat (map children vs))"
  using assms(2,3)
proof (induction vs)
  case (Cons v vs)
  have "set (children v) \<inter> set (children u) = {}" if "u \<in> set vs" for u
  proof -
    have "u \<in> below children rt" "v \<in> below children rt" "v \<noteq> u" using Cons.prems that by auto
    with assms(1) show ?thesis unfolding tree_below_def by blast
  qed
  then have "set (children v) \<inter> set (concat (map children vs)) = {}" by auto
  with Cons assms(1) show ?case by (auto simp: tree_below_def)
qed simp

lemma tree_child_walk:
  assumes "tree_below children rt"
  shows "done @ queue = rt # concat (map children done) \<Longrightarrow> distinct done \<Longrightarrow> set done \<subseteq> below children rt \<Longrightarrow>
    child_walk children queue (set done)"
proof (induction "card (- set done)" arbitrary: "done" queue rule: less_induct)
  case less
  show ?case
  proof (cases queue)
    case (Cons node rest)
    have "distinct (done @ queue)"
      using tree_walk_distinct [OF assms less.prems(3,2)] less.prems(1) by simp
    with Cons have new: "node \<notin> set done" by simp
    have "node \<in> set (rt # concat (map children done))" using less.prems(1) Cons by (metis in_set_conv_decomp)
    then have node: "node \<in> below children rt"
      using less.prems(3) below_root below_child by auto
    have "card (- set (done @ [node])) < card (- set done)"
      using new by (intro psubset_card_mono) auto
    moreover have "(done @ [node]) @ (rest @ children node) = rt # concat (map children (done @ [node]))"
      using less.prems(1) Cons by simp
    ultimately have "child_walk children (rest @ children node) (set (done @ [node]))"
      using less.prems(2,3) new node by (intro less.hyps) auto
    with Cons new show ?thesis by simp
  qed simp
qed

lemma child_walk_iff: "child_walk children [rt] {} \<longleftrightarrow> tree_below children rt"
  using child_walk_order [of children "[rt]" "[]" rt] walk_order_tree [of _ rt children]
    tree_child_walk [of children rt "[]" "[rt]"] by auto

lemma tree_below_acyclic:
  assumes "tree_below children rt" and "v \<in> below children rt"
  shows "(v, v) \<notin> (child_rel children)\<^sup>+"
  using assms(2) unfolding below_def mem_Collect_eq
proof (induction rule: rtrancl_induct)
  have pred: "\<exists>p. p \<in> below children rt \<and> v \<in> set (children p) \<and> (p, p) \<in> (child_rel children)\<^sup>+"
    if "(v, v) \<in> (child_rel children)\<^sup>+" "v \<in> below children rt" for v
  proof -
    note cyc = that
    obtain p where p: "(v, p) \<in> (child_rel children)\<^sup>*" "(p, v) \<in> child_rel children"
      using tranclD2 [OF cyc(1)] by blast
    then have "p \<in> below children rt" using cyc(2) by (auto simp: below_def)
    moreover have "(p, p) \<in> (child_rel children)\<^sup>+" using p by (meson rtrancl_into_trancl2)
    ultimately show ?thesis using p(2) by (auto simp: child_rel_def)
  qed
  {
    case base
    show ?case using pred [of rt] below_root [of rt children] assms(1) by (auto simp: tree_below_def)
  next
    case (step y z)
    then have y: "y \<in> below children rt" and yz: "z \<in> set (children y)"
      by (simp_all add: below_def child_rel_def)
    then have z: "z \<in> below children rt" by (rule below_child)
    show ?case
    proof
      assume "(z, z) \<in> (child_rel children)\<^sup>+"
      then obtain p where p: "p \<in> below children rt" "z \<in> set (children p)" "(p, p) \<in> (child_rel children)\<^sup>+"
        using pred z by blast
      then have "p = y" using assms(1) y yz unfolding tree_below_def by blast
      with p(3) step.IH show False by simp
    qed
  }
qed

section \<open>The parity checks\<close>

text \<open>What the harness relies on: ids are never reused, transactions begin, and a creation is refused only
  when no id is left.\<close>

definition harness_db :: "'s db_api \<Rightarrow> ('s \<Rightarrow> node_id set) \<Rightarrow> ('s \<Rightarrow> edge_id set) \<Rightarrow> bool" where
  "harness_db db un ue \<longleftrightarrow> session_fresh (d_session db) un ue \<and>
     (\<forall>s. \<exists>s'. d_begin_transaction db s = (Inr (), s') \<and> un s' = un s \<and> ue s' = ue s) \<and>
     (\<forall>s r s'. d_prepare_commit db s = (r, s') \<longrightarrow> un s' = un s \<and> ue s' = ue s) \<and>
     (\<forall>s r s'. d_commit db s = (r, s') \<longrightarrow> un s' = un s \<and> ue s' = ue s) \<and>
     (\<forall>s. un (d_drop_session db s) = un s \<and> ue (d_drop_session db s) = ue s) \<and>
     (\<forall>ls ps s. un s \<noteq> UNIV \<longrightarrow> (\<exists>nid s'. s_create_node_with_props (d_session db) ls ps s = (Inr nid, s'))) \<and>
     (\<forall>a b l ps s. ue s \<noteq> UNIV \<longrightarrow> (\<exists>eid s'. s_create_edge_with_props (d_session db) a b l ps s = (Inr eid, s')))"

lemma harness_dbD:
  assumes "harness_db db un ue"
  shows "session_fresh (d_session db) un ue"
    and "\<exists>s'. d_begin_transaction db s = (Inr (), s') \<and> un s' = un s \<and> ue s' = ue s"
    and "d_prepare_commit db s = (r, s') \<Longrightarrow> un s' = un s \<and> ue s' = ue s"
    and "d_commit db s = (r', s') \<Longrightarrow> un s' = un s \<and> ue s' = ue s"
    and "un (d_drop_session db s) = un s \<and> ue (d_drop_session db s) = ue s"
    and "un s \<noteq> UNIV \<Longrightarrow> \<exists>nid s'. s_create_node_with_props (d_session db) ls ps s = (Inr nid, s')"
    and "ue s \<noteq> UNIV \<Longrightarrow> \<exists>eid s'. s_create_edge_with_props (d_session db) a b l ps s = (Inr eid, s')"
  using assms unfolding harness_db_def by metis+

text \<open>The translator on the key graph when nothing is refused for lack of ids: an operation the bridge
  refuses changes nothing.\<close>

definition settled :: "loro_op \<Rightarrow> key_graph \<Rightarrow> key_graph" where
  "settled op g = (case spec_op op g of None \<Rightarrow> g | Some g' \<Rightarrow> g')"

lemma upsert_node_settles:
  assumes "harness_db db un ue" and "un s \<noteq> UNIV"
    and "apply_upsert_node (d_session db) k ls ps (s, m) = (Inl e, (s', m'))"
  shows "m' = m \<and> k \<in> dom (node_fwd m)"
proof -
  obtain nid s1 where "s_create_node_with_props (d_session db) ls (props_iter ps) s = (Inr nid, s1)"
    using harness_dbD(6) [OF assms(1,2)] by blast
  with assms(3) show ?thesis
    by (auto simp: apply_upsert_node_def node_fwd_def split: option.splits prod.splits)
qed

lemma upsert_edge_settles:
  assumes "harness_db db un ue" and "ue s \<noteq> UNIV"
    and "apply_upsert_edge (d_session db) a b l ps (s, m) = (Inl e, (s', m'))"
  shows "m' = m \<and> (a \<in> dom (node_fwd m) \<and> b \<in> dom (node_fwd m) \<longrightarrow> (a, b, l) \<in> dom (edge_fwd m))"
proof (cases "a \<in> dom (node_fwd m) \<and> b \<in> dom (node_fwd m)")
  case True
  then obtain i j where ij: "hm_get (node_id_map m) a = Some i" "hm_get (node_id_map m) b = Some j"
    by (auto simp: node_fwd_def)
  obtain eid s1 where "s_create_edge_with_props (d_session db) i j l (props_iter ps) s = (Inr eid, s1)"
    using harness_dbD(7) [OF assms(1,2)] by blast
  with assms(3) ij show ?thesis
    by (auto simp: apply_upsert_edge_def edge_fwd_def split: option.splits prod.splits)
next
  case False
  with assms(3) show ?thesis
    using node_map_dom [of m a] node_map_dom [of m b]
    by (auto simp: apply_upsert_edge_def split: option.splits prod.splits sum.splits)
qed

lemma apply_settles:
  assumes "harness_db db un ue" and "un s \<noteq> UNIV" and "ue s \<noteq> UNIV"
    and "apply_loro_op (d_session db) op (s, m) = (r, (s', m'))"
  shows "key_graph_of m' = settled op (key_graph_of m)"
proof (cases r)
  case (Inr u)
  with assms(4) show ?thesis
    using apply_loro_op_refines [of "d_session db" op s m s' m'] by (simp add: settled_def)
next
  case (Inl e)
  show ?thesis
  proof (cases op)
    case (UpsertNode k ls ps)
    with assms(4) Inl have "m' = m \<and> k \<in> dom (node_fwd m)"
      using upsert_node_settles [OF assms(1,2)] by simp
    with UpsertNode show ?thesis by (simp add: settled_def key_graph_of_def insert_absorb)
  next
    case (UpsertEdge a b l ps)
    with assms(4) Inl have "m' = m \<and> (a \<in> dom (node_fwd m) \<and> b \<in> dom (node_fwd m) \<longrightarrow> (a, b, l) \<in> dom (edge_fwd m))"
      using upsert_edge_settles [OF assms(1,3)] by simp
    with UpsertEdge show ?thesis by (simp add: settled_def key_graph_of_def insert_absorb)
  next
    case (TreeMove n old new)
    with assms(4) Inl show ?thesis using tree_move_refines [of "d_session db" n old new s m] by auto
  qed (use assms(4) Inl in \<open>simp_all add: delete_node_conv del: apply_loro_op.simps(3)\<close>)
qed

text \<open>The mirror on the same data: it does not ask whether the keys it writes are known.\<close>

fun mirror_keys :: "fuzz_op \<Rightarrow> key_graph \<Rightarrow> key_graph" where
  "mirror_keys (FzUpsertNode k ls ps) (N, E) = (insert k N, E)"
| "mirror_keys (FzDeleteNode k) (N, E) = (N - {k}, E)"
| "mirror_keys (FzUpsertEdge a b l ps) (N, E) = (N, insert (a, b, l) E)"
| "mirror_keys (FzDeleteEdge a b l) (N, E) = (N, E - {(a, b, l)})"
| "mirror_keys (FzTreeMove n old new) (N, E) = (N, insert (new, n, TREE_EDGE_LABEL) (E - {(old, n, TREE_EDGE_LABEL)}))"

fun grounded :: "fuzz_op \<Rightarrow> string set \<Rightarrow> bool" where
  "grounded (FzUpsertEdge a b l ps) N \<longleftrightarrow> a \<in> N \<and> b \<in> N"
| "grounded (FzTreeMove n old new) N \<longleftrightarrow> n \<in> N \<and> new \<in> N"
| "grounded op N \<longleftrightarrow> True"

fun grounded_ops :: "fuzz_op list \<Rightarrow> string set \<Rightarrow> bool" where
  "grounded_ops [] N = True"
| "grounded_ops (op # ops) N \<longleftrightarrow> grounded op N \<and> grounded_ops ops (fst (mirror_keys op (N, {})))"

lemma mirror_nodes_indep: "fst (mirror_keys op (N, E)) = fst (mirror_keys op (N, {}))"
  by (cases op) simp_all

lemma settled_mirror:
  "settled (convert_fuzz_op op) (N, E) =
     (fst (mirror_keys op (N, E)), if grounded op N then snd (mirror_keys op (N, E)) else E)"
  by (cases op) (simp_all add: settled_def)

lemma mirror_op_frame:
  "(fz_live_nodes (mirror_op md op st), fz_live_edges (mirror_op md op st)) =
     mirror_keys op (fz_live_nodes st, fz_live_edges st)"
  "fz_maps (mirror_op md op st) = fz_maps st" "fz_db (mirror_op md op st) = fz_db st"
  "fz_epochs (mirror_op md op st) = fz_epochs st" "fz_op_count (mirror_op md op st) = fz_op_count st"
  by (cases op; simp)+

text \<open>An operation takes at most one node id and one edge id.\<close>

lemma used_nodes_apply:
  assumes fresh: "session_fresh api un ue"
  shows "\<exists>nid. un (fst (snd (apply_loro_op api op t))) \<subseteq> insert nid (un (fst t))"
proof (cases t)
  case (Pair s m)
  show ?thesis
  proof (cases op)
    case (UpsertNode k ls ps)
    obtain r s' where c: "s_create_node_with_props api ls (props_iter ps) s = (r, s')" by fastforce
    have set: "un s'' = un s" if "set_node_properties api nid ps s = (q, s'')" for nid q s''
      using fresh_set_node [OF fresh, of nid ps s] that by simp
    show ?thesis
      using Pair UpsertNode c fresh_create_node [OF fresh c]
      by (cases r) (auto simp: apply_upsert_node_def set split: option.splits prod.splits)
  next
    case (UpsertEdge a b l ps)
    have set: "un s'' = un s" if "set_edge_properties api eid ps s = (q, s'')" for eid q s''
      using fresh_set_edge [OF fresh, of eid ps s] that by simp
    have "un s' = un s" if "s_create_edge_with_props api i j l (props_iter ps) s = (r, s')" for i j r s'
      using fresh_create_edge_props [OF fresh that] by simp
    then show ?thesis
      using Pair UpsertEdge
      by (force simp: apply_upsert_edge_def set split: option.splits prod.splits sum.splits)
  next
    case (TreeMove n old new)
    obtain s1 m1 where d: "drop_edge api (old, n, TREE_EDGE_LABEL) (s, m) = (s1, m1)" by fastforce
    have "un s1 = un s"
      using used_drop_edge(1) [OF fresh, of "(old, n, TREE_EDGE_LABEL)" "(s, m)"] d by simp
    then have move: "un s' = un s" if "s_create_edge api p i TREE_EDGE_LABEL s1 = (eid, s')" for p i eid s'
      using fresh_create_edge [OF fresh that] by simp
    have "un (fst (snd (apply_loro_op api op t))) = un s"
      using Pair TreeMove d \<open>un s1 = un s\<close>
      by (auto simp: apply_tree_move_def Let_def move split: option.splits prod.splits)
    then show ?thesis using Pair by auto
  qed (use Pair fresh in \<open>auto simp: delete_node_conv used_drop_edge fresh_delete
      simp del: apply_loro_op.simps(3) split: option.splits\<close>)
qed

lemma card_subset_insert: "(A :: 'a::finite set) \<subseteq> insert x B \<Longrightarrow> card A \<le> Suc (card B)"
  using card_mono [of "insert x B" A] card_insert_le_m1 [of "Suc (card B)" B x]
  by (simp add: card_insert_if split: if_splits)

lemma commit_epoch_frame:
  assumes "harness_db db un ue" and "commit_epoch db s epochs = (s', epochs')"
  shows "un s' = un s \<and> ue s' = ue s \<and> (\<exists>e. epochs' \<subseteq> insert e epochs)"
proof -
  obtain r1 s1 where c1: "d_prepare_commit db s = (r1, s1)" by fastforce
  obtain r2 s2 where c2: "d_commit db s1 = (r2, s2)" by fastforce
  show ?thesis
    using assms(2) c1 c2 harness_dbD(3) [OF assms(1) c1] harness_dbD(4) [OF assms(1) c2] harness_dbD(5) [OF assms(1)]
    by (cases r1; cases r2) (auto simp: commit_epoch_def)
qed

text \<open>One step of the loop.\<close>

definition run_inv :: "('s \<Rightarrow> node_id set) \<Rightarrow> ('s \<Rightarrow> edge_id set) \<Rightarrow> nat \<Rightarrow> ('s, 'd) fuzz_run \<Rightarrow> bool" where
  "run_inv un ue n st \<longleftrightarrow> tx_ok un ue (fz_db st, fz_maps st) \<and> fst (key_graph_of (fz_maps st)) = fz_live_nodes st \<and>
     fz_op_count st = of_nat n \<and> card (fz_epochs st) \<le> n"

lemma fuzz_step_inv:
  assumes db: "harness_db db un ue" and inv: "run_inv un ue n st"
    and room: "un (fz_db st) \<noteq> UNIV" "ue (fz_db st) \<noteq> UNIV"
  obtains st' where "fuzz_step db md op st = Some st'" and "run_inv un ue (Suc n) st'"
    and "card (un (fz_db st')) \<le> Suc (card (un (fz_db st)))" and "card (ue (fz_db st')) \<le> Suc (card (ue (fz_db st)))"
    and "(fz_live_nodes st', fz_live_edges st') = mirror_keys op (fz_live_nodes st, fz_live_edges st)"
    and "key_graph_of (fz_maps st') = settled (convert_fuzz_op op) (key_graph_of (fz_maps st))"
proof -
  let ?op = "convert_fuzz_op op"
  obtain s1 where s1: "d_begin_transaction db (fz_db st) = (Inr (), s1)" "un s1 = un (fz_db st)" "ue s1 = ue (fz_db st)"
    using harness_dbD(2) [OF db] by blast
  obtain r s2 m2 where a: "apply_loro_op (d_session db) ?op (s1, fz_maps st) = (r, (s2, m2))"
    by (cases "apply_loro_op (d_session db) ?op (s1, fz_maps st)") auto
  obtain s3 ep where c: "commit_epoch db s2 (fz_epochs st) = (s3, ep)" by fastforce
  define st1 where "st1 = st\<lparr>fz_db := s3, fz_maps := m2, fz_epochs := ep\<rparr>"
  define st' where "st' = (mirror_op md op st1)\<lparr>fz_op_count := fz_op_count (mirror_op md op st1) + 1\<rparr>"
  have step: "fuzz_step db md op st = Some st'"
    by (simp add: fuzz_step_def s1 a c st1_def st'_def Let_def)
  have frame: "fz_db st' = s3" "fz_maps st' = m2" "fz_epochs st' = ep" "fz_op_count st' = fz_op_count st + 1"
    by (simp_all add: st'_def mirror_op_frame st1_def)
  have keys: "(fz_live_nodes st', fz_live_edges st') = mirror_keys op (fz_live_nodes st, fz_live_edges st)"
    using mirror_op_frame(1) [of md op st1] by (simp add: st'_def st1_def)
  have ok1: "tx_ok un ue (s1, fz_maps st)"
    by (rule tx_ok_same [where s = "fz_db st"]) (use inv s1 in \<open>simp_all add: run_inv_def\<close>)
  have ok2: "tx_ok un ue (s2, m2)"
    using tx_ok_apply_loro_op [OF harness_dbD(1) [OF db] ok1, of ?op] s1 room a by simp
  from commit_epoch_frame [OF db c] obtain e where f: "un s3 = un s2" "ue s3 = ue s2" "ep \<subseteq> insert e (fz_epochs st)"
    by blast
  have g: "key_graph_of m2 = settled ?op (key_graph_of (fz_maps st))"
    using apply_settles [OF db _ _ a] s1 room by simp
  have nodes: "fst (key_graph_of m2) = fz_live_nodes st'"
  proof -
    obtain E where "key_graph_of (fz_maps st) = (fz_live_nodes st, E)"
      using inv unfolding run_inv_def by (metis prod.collapse)
    then have "fst (key_graph_of m2) = fst (mirror_keys op (fz_live_nodes st, E))" using g by (simp add: settled_mirror)
    also have "\<dots> = fst (mirror_keys op (fz_live_nodes st, fz_live_edges st))"
      using mirror_nodes_indep by metis
    finally show ?thesis by (simp flip: keys)
  qed
  have "card ep \<le> Suc (card (fz_epochs st))" using f(3) by (rule card_subset_insert)
  then have "run_inv un ue (Suc n) st'"
    using inv ok2 f nodes frame tx_ok_same [OF ok2 f(1,2)] by (auto simp: run_inv_def add.commute)
  moreover have "card (un s3) \<le> Suc (card (un (fz_db st)))"
    using used_nodes_apply [OF harness_dbD(1) [OF db], of ?op "(s1, fz_maps st)"] a s1 f card_subset_insert by auto
  moreover have "card (ue s3) \<le> Suc (card (ue (fz_db st)))"
    using used_edges_apply [OF harness_dbD(1) [OF db], of ?op "(s1, fz_maps st)"] a s1 f card_subset_insert by auto
  ultimately show thesis using that step keys g frame by simp
qed

lemma fuzz_loop_inv:
  assumes db: "harness_db db un ue"
  shows "run_inv un ue n st \<Longrightarrow> card (un (fz_db st)) + length ops \<le> 2 ^ 64 \<Longrightarrow> card (ue (fz_db st)) + length ops \<le> 2 ^ 64 \<Longrightarrow>
    \<exists>st'. fuzz_loop db md ops st = Some st' \<and> run_inv un ue (n + length ops) st' \<and>
      card (un (fz_db st')) \<le> card (un (fz_db st)) + length ops \<and>
      card (ue (fz_db st')) \<le> card (ue (fz_db st)) + length ops \<and>
      (snd (key_graph_of (fz_maps st)) = fz_live_edges st \<and> grounded_ops ops (fz_live_nodes st) \<longrightarrow>
         snd (key_graph_of (fz_maps st')) = fz_live_edges st')"
proof (induction ops arbitrary: n st)
  case (Cons op ops)
  have room: "un (fz_db st) \<noteq> UNIV" "ue (fz_db st) \<noteq> UNIV"
    using Cons.prems(2,3) by (auto intro!: edge_room)
  obtain st1 where st1: "fuzz_step db md op st = Some st1" "run_inv un ue (Suc n) st1"
    "card (un (fz_db st1)) \<le> Suc (card (un (fz_db st)))" "card (ue (fz_db st1)) \<le> Suc (card (ue (fz_db st)))"
    "(fz_live_nodes st1, fz_live_edges st1) = mirror_keys op (fz_live_nodes st, fz_live_edges st)"
    "key_graph_of (fz_maps st1) = settled (convert_fuzz_op op) (key_graph_of (fz_maps st))"
    using fuzz_step_inv [OF db Cons.prems(1) room] by metis
  have "card (un (fz_db st1)) + length ops \<le> 2 ^ 64" "card (ue (fz_db st1)) + length ops \<le> 2 ^ 64"
    using st1(3,4) Cons.prems(2,3) by simp_all
  from Cons.IH [OF st1(2) this] obtain st' where st': "fuzz_loop db md ops st1 = Some st'"
    "run_inv un ue (Suc n + length ops) st'"
    "card (un (fz_db st')) \<le> card (un (fz_db st1)) + length ops" "card (ue (fz_db st')) \<le> card (ue (fz_db st1)) + length ops"
    "snd (key_graph_of (fz_maps st1)) = fz_live_edges st1 \<and> grounded_ops ops (fz_live_nodes st1) \<Longrightarrow>
       snd (key_graph_of (fz_maps st')) = fz_live_edges st'"
    by blast
  have "snd (key_graph_of (fz_maps st')) = fz_live_edges st'"
    if "snd (key_graph_of (fz_maps st)) = fz_live_edges st" "grounded_ops (op # ops) (fz_live_nodes st)"
  proof (rule st'(5))
    have g: "key_graph_of (fz_maps st) = (fz_live_nodes st, fz_live_edges st)"
      using that(1) Cons.prems(1) unfolding run_inv_def by (metis prod.collapse)
    have live: "fz_live_nodes st1 = fst (mirror_keys op (fz_live_nodes st, fz_live_edges st))"
      "fz_live_edges st1 = snd (mirror_keys op (fz_live_nodes st, fz_live_edges st))"
      using st1(5) by (metis fst_conv snd_conv)+
    have "fz_live_nodes st1 = fst (mirror_keys op (fz_live_nodes st, {}))"
      unfolding live(1) by (rule mirror_nodes_indep)
    with that(2) live st1(6) show "snd (key_graph_of (fz_maps st1)) = fz_live_edges st1 \<and> grounded_ops ops (fz_live_nodes st1)"
      by (simp add: g settled_mirror)
  qed
  with st1 st' show ?case by (intro exI [of _ st']) simp
qed simp

lemma run_inv_start: "run_inv un ue 0 (fuzz_start db doc)"
  using maps_ok_new
  by (simp add: run_inv_def fuzz_start_def tx_ok_def key_graph_of_def) (simp add: maps_new_def table_defs fun_eq_iff)

lemma keys_dom: "set (hm_keys m) = dom (hm_get m)"
  by (auto simp: hm_keys_get)

lemma check_i1_iff: "check_i1 st \<longleftrightarrow> fst (key_graph_of (fz_maps st)) = fz_live_nodes st"
  by (auto simp: check_i1_def key_graph_of_def keys_dom node_fwd_def dom_def)

lemma check_i2_iff: "check_i2 st \<longleftrightarrow> snd (key_graph_of (fz_maps st)) = fz_live_edges st"
  by (auto simp: check_i2_def key_graph_of_def keys_dom edge_fwd_def dom_def)

text \<open>The check of I11 is the bijection of the maps.\<close>

lemma length_hm: "hm_ok m \<Longrightarrow> length m = card (dom (hm_get m))"
  by (simp add: hm_ok_def hm_keys_def flip: keys_dom) (metis distinct_card length_map set_map)

lemma inverse_of_agree:
  assumes "hm_ok f" and "hm_ok g" and "\<And>k i. hm_get f k = Some i \<longleftrightarrow> hm_get g i = Some k"
  shows "inverse_of f g"
proof -
  have fg: "\<exists>i. hm_get f k = Some i \<and> hm_get g i = Some k" if "k \<in> dom (hm_get f)" for k
    using that assms(3) by blast
  have gf: "\<exists>k. hm_get g i = Some k \<and> hm_get f k = Some i" if "i \<in> dom (hm_get g)" for i
    using that assms(3) by blast
  have "bij_betw (\<lambda>k. the (hm_get f k)) (dom (hm_get f)) (dom (hm_get g))"
  proof (rule bij_betw_byWitness [where f' = "\<lambda>i. the (hm_get g i)"])
    show "\<forall>k \<in> dom (hm_get f). the (hm_get g (the (hm_get f k))) = k" using fg by fastforce
    show "\<forall>i \<in> dom (hm_get g). the (hm_get f (the (hm_get g i))) = i" using gf by fastforce
    show "(\<lambda>k. the (hm_get f k)) ` dom (hm_get f) \<subseteq> dom (hm_get g)" using fg by fastforce
    show "(\<lambda>i. the (hm_get g i)) ` dom (hm_get g) \<subseteq> dom (hm_get f)" using gf by fastforce
  qed
  then have "length f = length g" by (simp add: length_hm assms(1,2) bij_betw_same_card)
  moreover have "hm_get g i = Some k" if "(k, i) \<in> set f" for k i
    using hm_in_get [OF assms(1) that] by (simp only: assms(3))
  ultimately show ?thesis by (auto simp: inverse_of_def list_all_iff)
qed

lemma check_i11_ok: "maps_ok m \<Longrightarrow> check_i11 m"
  unfolding check_i11_def maps_ok_def
  by (intro conjI inverse_of_agree) (auto simp: nodes.agree_def edges.agree_def table_defs)

section \<open>The checks that always pass\<close>

lemma i5_passes: "check_i5 db doc container_diffs"
  by (simp add: check_i5_def engine_default_def engine_new_def init_loro_subscriber_def subscriber_handler_def
      count_metric_def Let_def)

lemma i8_passes:
  assumes "codec_laws cd" and "\<exists>out. brotli_compress cd (i8_sample seed) DEFAULT_BROTLI_QUALITY = Inr out"
  shows "check_i8 cd seed"
proof -
  obtain out where out: "brotli_compress cd (i8_sample seed) DEFAULT_BROTLI_QUALITY = Inr out" using assms(2) by blast
  then have "brotli_decompress cd out = Inr (i8_sample seed)"
    using assms(1) by (auto simp: codec_laws_def brotli_compress_def brotli_decompress_def split: sum.splits)
  with out assms(1) show ?thesis
    by (simp add: check_i8_def payload_compress_def payload_decompress_def codec_laws_def)
qed

lemma i8_sample_is_rng: "i8_sample seed = map ucast (rng_take (unat (seed mod 4096) + 1) seed)"
proof -
  have "sample_loop n s = map ucast (rng_take n s)" for n s
    by (induction n arbitrary: s) (simp_all add: next_u64_def mix_def rng_gamma_def Let_def)
  then show ?thesis by (simp add: i8_sample_def)
qed

lemma i15_passes:
  assumes "js_to_vec js p = Inr json" and "js_from_slice js json = Inr p"
    and "\<exists>e. js_from_slice js (as_bytes ''not valid json {{{'') = Inl e"
  shows "check_i15 js p"
proof -
  have room: "length i15_room \<le> 65535" "utf8 (as_bytes i15_room)"
    by (simp add: i15_room_def, code_simp)
  have "build_eph_envelope js i15_room p = Inr (envelope_bytes i15_room json)"
    using assms(1) room(1) by (simp add: build_layout)
  moreover have "parse_eph_envelope js (envelope_bytes i15_room json) = Inr \<lparr>ev_room_id = i15_room, ev_payload = p\<rparr>"
    using parse_envelope_bytes [OF room(1), of js json] room(2) assms(2) by simp
  moreover have "rejected (parse_eph_envelope js (as_bytes ''XXXX'' @ drop (length EPH_MAGIC) (envelope_bytes i15_room json)))"
    by (simp add: parse_eph_envelope_def envelope_bytes_def EPH_MAGIC_def as_bytes_def rejected_def invalid_envelope_def)
  moreover have "rejected (parse_eph_envelope js EPH_MAGIC)"
    by (simp add: parse_eph_envelope_def EPH_MAGIC_def rejected_def invalid_envelope_def)
  moreover have "bad_serde = envelope_bytes i15_room (as_bytes ''not valid json {{{'')"
    by (simp add: bad_serde_def envelope_bytes_def EPH_MSG_TYPE_PRESENCE_def)
  then have "rejected (parse_eph_envelope js bad_serde)"
    using parse_envelope_bytes [OF room(1), of js "as_bytes ''not valid json {{{''"] assms(3)
    by (auto simp: room(2) rejected_def invalid_envelope_def)
  ultimately show ?thesis by (simp add: check_i15_def)
qed

section \<open>A database with edges\<close>

text \<open>Nodes are a counter, edges a list with a slot per id; a deleted edge leaves an empty slot. It is the
  database of the witnesses.\<close>

type_synonym edge_store = "nat \<times> (node_id \<times> node_id \<times> string) option list"

definition store_api :: "edge_store tree_api" where
  "store_api = \<lparr>
     t_db = \<lparr>d_session = \<lparr>
         s_set_node_property = (\<lambda>nid k v s. (Inr (), s)),
         s_set_edge_property = (\<lambda>eid k v s. (Inr (), s)),
         s_create_node_with_props = (\<lambda>ls ps (n, es).
           if n < 2 ^ 64 then (Inr (of_nat n), (Suc n, es)) else (Inl ''no id'', (n, es))),
         s_create_edge_with_props = (\<lambda>a b l ps (n, es).
           if length es < 2 ^ 64 then (Inr (of_nat (length es)), (n, es @ [Some (a, b, l)])) else (Inl ''no id'', (n, es))),
         s_create_edge = (\<lambda>a b l (n, es). (of_nat (length es), (n, es @ [Some (a, b, l)]))),
         s_delete_node = (\<lambda>nid s. s),
         s_delete_edge = (\<lambda>eid (n, es). (n, es[unat eid := None]))\<rparr>,
       d_begin_transaction = (\<lambda>s. (Inr (), s)), d_prepare_commit = (\<lambda>s. (Inr (), s)),
       d_commit = (\<lambda>s. (Inr 1, s)), d_drop_session = (\<lambda>s. s)\<rparr>,
     t_node_exists = (\<lambda>n s. unat n < fst s), t_begin_serializable = (\<lambda>s. (Inr (), s)),
     t_incoming = (\<lambda>n s. concat (map (\<lambda>(eid, e). case e of Some (a, b, l) \<Rightarrow> if b = n then [(a, of_nat eid)] else []
         | None \<Rightarrow> []) (enumerate 0 (snd s)))),
     t_outgoing_by_type = (\<lambda>n t s. concat (map (\<lambda>(eid, e). case e of Some (a, b, l) \<Rightarrow>
         if a = n \<and> l = t \<and> eid < 2 ^ 64 then [(b, of_nat eid)] else [] | None \<Rightarrow> []) (enumerate 0 (snd s))))\<rparr>"

definition store_edges :: "edge_store \<Rightarrow> edge_id set" where
  "store_edges s = counted (length (snd s))"

lemma store_harness: "harness_db (t_db store_api) (\<lambda>s. counted (fst s)) store_edges"
proof -
  have new: "of_nat e \<notin> counted e" if "counted e \<noteq> UNIV" for e
    using that counted_full [of e] counted_fresh [of e] by fastforce
  have "session_fresh (d_session (t_db store_api)) (\<lambda>s. counted (fst s)) store_edges"
    by (auto simp: session_fresh_def store_api_def store_edges_def counted_Suc counted_fresh new split: if_splits)
  moreover have "n < 2 ^ 64" if "counted n \<noteq> UNIV" for n
    using that counted_full [of n] by (meson linorder_not_le)
  ultimately show ?thesis
    by (auto simp: harness_db_def store_api_def store_edges_def)
qed

text \<open>A database of the witness: parent edges without ids, every call succeeds.\<close>

definition edge_list_api :: "((node_id \<times> node_id) list) tree_api" where
  "edge_list_api = \<lparr>
     t_db = \<lparr>d_session = \<lparr>s_set_node_property = (\<lambda>n k v s. (Inr (), s)), s_set_edge_property = (\<lambda>n k v s. (Inr (), s)),
         s_create_node_with_props = (\<lambda>ls ps s. (Inr 0, s)), s_create_edge_with_props = (\<lambda>a b l ps s. (Inr 0, s @ [(a, b)])),
         s_create_edge = (\<lambda>a b l s. (0, s @ [(a, b)])), s_delete_node = (\<lambda>n s. s),
         s_delete_edge = (\<lambda>e s. filter (\<lambda>ed. snd ed \<noteq> e) s)\<rparr>,
       d_begin_transaction = (\<lambda>s. (Inr (), s)), d_prepare_commit = (\<lambda>s. (Inr (), s)),
       d_commit = (\<lambda>s. (Inr 1, s)), d_drop_session = (\<lambda>s. s)\<rparr>,
     t_node_exists = (\<lambda>n s. n < 10), t_begin_serializable = (\<lambda>s. (Inr (), s)),
     t_incoming = (\<lambda>n s. map (\<lambda>ed. (fst ed, n)) (filter (\<lambda>ed. snd ed = n) s)),
     t_outgoing_by_type = (\<lambda>n l s. map (\<lambda>ed. (snd ed, snd ed)) (filter (\<lambda>ed. fst ed = n) s))\<rparr>"

section \<open>The move of the bridge\<close>

text \<open>The calls \<^verbatim>\<open>apply_tree_move\<close> makes, on the edges \<open>g\<close> the database holds: a new edge gets a free id
  while there is one, and the neighbours of a node are read off the edges.\<close>

definition graph_laws ::
  "'s tree_api \<Rightarrow> ('s \<Rightarrow> edge_id set) \<Rightarrow> ('s \<Rightarrow> edge_id \<Rightarrow> (node_id \<times> node_id \<times> string) option) \<Rightarrow> bool" where
  "graph_laws api ue g \<longleftrightarrow>
     (\<forall>n l s. set (map fst (t_outgoing_by_type api n l s)) = {b. \<exists>e. g s e = Some (n, b, l)}) \<and>
     (\<forall>a b l s eid s'. ue s \<noteq> UNIV \<longrightarrow> s_create_edge (d_session (t_db api)) a b l s = (eid, s') \<longrightarrow>
        g s eid = None \<and> g s' = (g s)(eid \<mapsto> (a, b, l)))"

lemma children_edges:
  assumes "graph_laws api ue g"
  shows "(a, b) \<in> child_rel (children_of api s) \<longleftrightarrow> (\<exists>e. g s e = Some (a, b, TREE_EDGE_LABEL))"
proof -
  have "set (children_of api s a) = {b. \<exists>e. g s e = Some (a, b, TREE_EDGE_LABEL)}"
    using assms unfolding graph_laws_def children_of_def by blast
  then show ?thesis by (simp add: child_rel_def)
qed

definition store_graph :: "edge_store \<Rightarrow> edge_id \<Rightarrow> (node_id \<times> node_id \<times> string) option" where
  "store_graph s e = (if unat e < length (snd s) then snd s ! unat e else None)"

lemma store_graph_laws: "graph_laws store_api store_edges store_graph"
proof -
  have out: "set (map fst (t_outgoing_by_type store_api n l s)) = {b. \<exists>e. store_graph s e = Some (n, b, l)}" for n l s
  proof (intro set_eqI iffI)
    fix b
    assume "b \<in> set (map fst (t_outgoing_by_type store_api n l s))"
    then obtain k where "k < length (snd s)" "k < 2 ^ 64" "snd s ! k = Some (n, b, l)"
      by (auto simp: store_api_def in_set_enumerate_eq split: option.splits if_splits)
    then have "store_graph s (of_nat k) = Some (n, b, l)"
      by (simp add: store_graph_def unat_of_nat take_bit_nat_eq_self)
    then show "b \<in> {b. \<exists>e. store_graph s e = Some (n, b, l)}" by blast
  next
    fix b
    assume "b \<in> {b. \<exists>e. store_graph s e = Some (n, b, l)}"
    then obtain e :: edge_id where e: "unat e < length (snd s)" "snd s ! unat e = Some (n, b, l)"
      by (auto simp: store_graph_def split: if_splits)
    have "unat e < 2 ^ 64" using unsigned_less [of e] by simp
    with e show "b \<in> set (map fst (t_outgoing_by_type store_api n l s))"
      by (force simp: store_api_def in_set_enumerate_eq intro!: image_eqI [of _ _ "(unat e, Some (n, b, l))"])
  qed
  have "store_graph s eid = None \<and> store_graph s' = (store_graph s)(eid \<mapsto> (a, b, l))"
    if "store_edges s \<noteq> UNIV" "s_create_edge (d_session (t_db store_api)) a b l s = (eid, s')" for a b l s eid s'
  proof -
    have len: "length (snd s) < 2 ^ 64"
      using that(1) counted_full [of "length (snd s)"] by (auto simp: store_edges_def not_le [symmetric])
    have eid: "eid = of_nat (length (snd s))" and s': "snd s' = snd s @ [Some (a, b, l)]"
      using that(2) by (auto simp: store_api_def split: prod.splits)
    then have u: "unat eid = length (snd s)" using len by (simp add: unat_of_nat take_bit_nat_eq_self)
    have "e = eid" if "unat e = length (snd s)" for e
      using that u by (metis word_unat_eq_iff)
    then show ?thesis
      by (auto simp: store_graph_def s' u nth_append fun_eq_iff less_Suc_eq)
  qed
  with out show ?thesis by (auto simp: graph_laws_def)
qed

section \<open>Properties\<close>

text \<open>Property C34 (fuzz_checks_hold). On a database that refuses nothing while it has ids, the loop of the
  harness completes for every list of at most 10000 operations, and afterwards I1, I3a, I4 and I11 hold;
  I2 holds as well when every edge operation and every move names vertices that are live at that point.\<close>

theorem fuzz_checks_hold:
  assumes "harness_db db un ue" and "length ops \<le> 10000"
    and "card (un s) + length ops \<le> 2 ^ 64" and "card (ue s) + length ops \<le> 2 ^ 64"
  shows "\<exists>st. fuzz_loop db md ops (fuzz_start s doc) = Some st \<and> check_i1 st \<and> check_i3a (of_nat (length ops)) st \<and>
    check_i4 st \<and> check_i11 (fz_maps st) \<and> (grounded_ops ops {} \<longrightarrow> check_i2 st)"
proof -
  have start: "fz_db (fuzz_start s doc) = s" "fz_live_nodes (fuzz_start s doc) = {}"
    "snd (key_graph_of (fz_maps (fuzz_start s doc))) = fz_live_edges (fuzz_start s doc)"
    by (simp_all add: fuzz_start_def key_graph_of_def maps_new_def table_defs dom_def)
  obtain st where st: "fuzz_loop db md ops (fuzz_start s doc) = Some st" "run_inv un ue (length ops) st"
    "grounded_ops ops {} \<Longrightarrow> snd (key_graph_of (fz_maps st)) = fz_live_edges st"
    using fuzz_loop_inv [OF assms(1) run_inv_start, of s doc ops md] assms(3,4) start by auto
  from st(2) have inv: "tx_ok un ue (fz_db st, fz_maps st)" "fst (key_graph_of (fz_maps st)) = fz_live_nodes st"
    "fz_op_count st = of_nat (length ops)" "card (fz_epochs st) \<le> length ops"
    by (simp_all add: run_inv_def)
  have "check_i4 st" using inv(4) assms(2) by (simp add: check_i4_def EPOCH_RETENTION_def)
  moreover have "check_i11 (fz_maps st)" using inv(1) by (intro check_i11_ok) (simp add: tx_ok_def)
  ultimately show ?thesis
    using st(1,3) inv(2,3) by (auto simp: check_i1_iff check_i2_iff check_i3a_def)
qed

definition no_mirror :: "unit mirror_api" where
  "no_mirror = \<lparr>md_ensure_map = (\<lambda>r k d. d), md_delete = (\<lambda>r k d. d), md_commit = (\<lambda>d. d)\<rparr>"

theorem fuzz_checks_hold_witness:
  "\<exists>st. fuzz_loop (t_db store_api) no_mirror all_variants_ops (fuzz_start (0, []) ()) = Some st \<and>
     check_i1 st \<and> check_i2 st \<and> check_i3a 6 st \<and> check_i4 st \<and> check_i11 (fz_maps st)"
proof -
  have "grounded_ops all_variants_ops {}" and len: "length all_variants_ops = 6"
    by (simp_all add: all_variants_ops_def)
  then show ?thesis
    using fuzz_checks_hold [OF store_harness, of all_variants_ops "(0, [])" no_mirror "()"]
    by (auto simp: store_edges_def counted_def)
qed

text \<open>The mirror of an operation that names unknown vertices is out of step with the bridge, which refuses
  or skips it: from a state with parity, I2 then holds only if the mirror happened to change nothing.\<close>

lemma edge_parity_exact:
  assumes "harness_db db un ue" and "length ops < 10000"
    and "card (un s) + length ops < 2 ^ 64" and "card (ue s) + length ops < 2 ^ 64"
    and "fuzz_loop db md ops (fuzz_start s doc) = Some st" and "check_i2 st"
  shows "\<exists>st'. fuzz_step db md op st = Some st' \<and> (check_i2 st' \<longleftrightarrow> grounded op (fz_live_nodes st) \<or>
    snd (mirror_keys op (fz_live_nodes st, fz_live_edges st)) = fz_live_edges st)"
proof -
  have start: "fz_db (fuzz_start s doc) = s" by (simp add: fuzz_start_def)
  have inv: "run_inv un ue (length ops) st" and room: "card (un (fz_db st)) < 2 ^ 64" "card (ue (fz_db st)) < 2 ^ 64"
    using fuzz_loop_inv [OF assms(1) run_inv_start, of s doc ops md] assms(3-5) start by auto
  obtain st' where st': "fuzz_step db md op st = Some st'"
    "(fz_live_nodes st', fz_live_edges st') = mirror_keys op (fz_live_nodes st, fz_live_edges st)"
    "key_graph_of (fz_maps st') = settled (convert_fuzz_op op) (key_graph_of (fz_maps st))"
    using fuzz_step_inv [OF assms(1) inv edge_room [OF room(1)] edge_room [OF room(2)], of md op] by metis
  have "key_graph_of (fz_maps st) = (fz_live_nodes st, fz_live_edges st)"
    using inv assms(6) by (simp add: run_inv_def check_i2_iff prod_eq_iff)
  moreover have "fz_live_edges st' = snd (mirror_keys op (fz_live_nodes st, fz_live_edges st))"
    using st'(2) by (metis snd_conv)
  ultimately show ?thesis using st'(1,3) by (auto simp: check_i2_iff settled_mirror)
qed

lemma unknown_edge_breaks_i2:
  "\<exists>st. fuzz_loop (t_db store_api) no_mirror [FzUpsertEdge a b l ps] (fuzz_start (0, []) ()) = Some st \<and> \<not> check_i2 st"
proof -
  let ?st = "fuzz_start (0, []) () :: (edge_store, unit) fuzz_run"
  have "check_i2 ?st"
    by (simp add: check_i2_def fuzz_start_def maps_new_def hm_keys_def)
  then show ?thesis
    using edge_parity_exact [OF store_harness, of "[]" "(0, [])" no_mirror "()" ?st "FzUpsertEdge a b l ps"]
    by (auto simp: store_edges_def counted_def fuzz_start_def)
qed

text \<open>Property C36 (i14_check_exact). The walk of I14 ends for every database and accepts exactly the
  databases in which the child edges below every mapped node form a tree. Acceptance therefore excludes
  every cycle below a mapped node; but a rejection, which the check reports as a cycle, also happens on
  acyclic graphs: a node with two parents below a common ancestor is enough, and so is a doubled edge.\<close>

theorem i14_check_exact:
  "(check_i14 api (s, maps) \<longleftrightarrow> (\<forall>(k, rt) \<in> set (node_id_map maps). tree_below (children_of api s) rt)) \<and>
   (check_i14 api (s, maps) \<longrightarrow> (\<forall>(k, rt) \<in> set (node_id_map maps). \<forall>v \<in> below (children_of api s) rt.
      (v, v) \<notin> (child_rel (children_of api s))\<^sup>+))"
proof -
  have "check_i14 api (s, maps) \<longleftrightarrow> (\<forall>(k, rt) \<in> set (node_id_map maps). tree_below (children_of api s) rt)"
    by (auto simp: check_i14_def child_walk_iff list_all_iff simp del: child_walk.simps)
  then show ?thesis using tree_below_acyclic by fast
qed

text \<open>The witness: a diamond is acyclic and rejected.\<close>

theorem i14_check_exact_witness:
  "acyclic (child_rel (children_of edge_list_api [(0, 1), (0, 2), (1, 3), (2, 3)])) \<and>
   \<not> check_i14 edge_list_api ([(0, 1), (0, 2), (1, 3), (2, 3)], insert_node ''r'' 0 maps_new)"
proof
  let ?s = "[(0, 1), (0, 2), (1, 3), (2, 3)] :: (node_id \<times> node_id) list"
  let ?ch = "children_of edge_list_api ?s"
  have ch: "?ch n = (if n = 0 then [1, 2] else if n = 1 \<or> n = 2 then [3] else [])" for n
    by (simp add: children_of_def edge_list_api_def)
  have rel: "child_rel ?ch = {(0, 1), (0, 2), (1, 3), (2, 3)}"
    by (auto simp: child_rel_def ch split: if_splits)
  show "acyclic (child_rel ?ch)"
    unfolding rel by (rule acyclicI_order [where f = "\<lambda>n. - int (unat n)"]) auto
  have "1 \<in> below ?ch 0" "2 \<in> below ?ch 0"
    unfolding below_def rel by auto
  moreover have "set (?ch 1) \<inter> set (?ch 2) \<noteq> {}" "(1 :: node_id) \<noteq> 2" by (simp_all add: ch)
  ultimately have "\<not> tree_below ?ch 0"
    unfolding tree_below_def by blast
  then show "\<not> check_i14 edge_list_api (?s, insert_node ''r'' 0 maps_new)"
    using i14_check_exact [of edge_list_api ?s "insert_node ''r'' 0 maps_new"]
    by (auto simp: insert_node_def maps_new_def hm_insert_def)
qed

text \<open>Property C35 (bridge_move_closes_cycle). The move of the inbound bridge has no cycle check of its own:
  when the new parent lies below the node once the edge of the named old parent is dropped, or is the node itself, the
  move is accepted. If the key of the new edge is unbound, the edge is created, the node lies on a cycle of child edges
  afterwards, and the walk of I14 rejects the database. If that key is still bound, be it to an edge that exists or by a
  stale binding that the deletion of a vertex left, the move only drops the old edge and returns success all the same.\<close>

theorem bridge_move_closes_cycle:
  assumes "graph_laws api ue g"
    and "node_fwd m node = Some i" and "node_fwd m new_parent = Some j"
    and "drop_edge (d_session (t_db api)) (old_parent, node, TREE_EDGE_LABEL) (s, m) = (s1, m1)"
    and "ue s1 \<noteq> UNIV" and "(i, j) \<in> (child_rel (children_of api s1))\<^sup>*"
  shows "\<exists>s' m'. apply_loro_op (d_session (t_db api)) (TreeMove node old_parent new_parent) (s, m) = (Inr (), (s', m')) \<and>
    (if edge_fwd m1 (new_parent, node, TREE_EDGE_LABEL) = None
     then (i, i) \<in> (child_rel (children_of api s'))\<^sup>+ \<and> \<not> check_i14 api (s', m')
     else s' = s1 \<and> m' = m1)"
proof (cases "edge_fwd m1 (new_parent, node, TREE_EDGE_LABEL) = None")
  case False
  then have "apply_loro_op (d_session (t_db api)) (TreeMove node old_parent new_parent) (s, m) = (Inr (), (s1, m1))"
    using assms(2-4) by (auto simp: apply_tree_move_def node_fwd_def edge_fwd_def Let_def)
  then show ?thesis unfolding if_not_P [OF False] by blast
next
  case True
  obtain eid s' where c: "s_create_edge (d_session (t_db api)) j i TREE_EDGE_LABEL s1 = (eid, s')" by fastforce
  define m' where "m' = insert_edge (new_parent, node, TREE_EDGE_LABEL) eid m1"
  have run: "apply_loro_op (d_session (t_db api)) (TreeMove node old_parent new_parent) (s, m) = (Inr (), (s', m'))"
    using assms(2-4) True c by (simp add: apply_tree_move_def node_fwd_def edge_fwd_def m'_def Let_def)
  have "g s1 eid = None" and g': "g s' = (g s1)(eid \<mapsto> (j, i, TREE_EDGE_LABEL))"
    using assms(1,5) c unfolding graph_laws_def by blast+
  then have "child_rel (children_of api s1) \<subseteq> child_rel (children_of api s')"
    unfolding subset_eq split_paired_Ball_Sigma
    using children_edges [OF assms(1)] by (metis fun_upd_apply option.distinct(1) surj_pair)
  then have "(i, j) \<in> (child_rel (children_of api s'))\<^sup>*"
    using assms(6) rtrancl_mono by blast
  moreover have "(j, i) \<in> child_rel (children_of api s')"
    using children_edges [OF assms(1)] g' by (metis fun_upd_same)
  ultimately have cyc: "(i, i) \<in> (child_rel (children_of api s'))\<^sup>+" by (rule rtrancl_into_trancl1)
  have "m1 = snd (remove_edge (old_parent, node, TREE_EDGE_LABEL) m)"
    using assms(4) by (simp add: drop_edge_conv)
  then have "node_fwd m' node = Some i"
    using assms(2) by (simp add: m'_def bridge_simps)
  then have "(node, i) \<in> set (node_id_map m')"
    by (intro hm_get_Some_in) (simp add: node_fwd_def)
  moreover have "\<not> tree_below (children_of api s') i"
    using tree_below_acyclic [of "children_of api s'" i i] below_root cyc by blast
  ultimately have "\<not> check_i14 api (s', m')"
    by (force simp: check_i14_def child_walk_iff list_all_iff simp del: child_walk.simps)
  with run cyc True show ?thesis by auto
qed

text \<open>The witness is the seed \<^verbatim>\<open>cycle_attempt\<close> of the corpus: the harness rejects it.\<close>

theorem bridge_move_closes_cycle_witness:
  "\<exists>st. fuzz_loop (t_db store_api) no_mirror cycle_attempt_ops (fuzz_start (0, []) ()) = Some st \<and>
     \<not> check_i14 store_api (fz_db st, fz_maps st)"
proof -
  let ?key = "(''V/parent'', ''V/child'', ''CHILD'')"
  let ?m = "insert_edge ?key 0 (insert_node ''V/child'' 1 (insert_node ''V/parent'' 0 maps_new))"
  let ?s = "(2, [Some (0, 1, ''CHILD'')]) :: edge_store"
  obtain st3 where st3: "fuzz_loop (t_db store_api) no_mirror (take 3 cycle_attempt_ops) (fuzz_start (0, []) ()) = Some st3"
    "fz_db st3 = ?s" "fz_maps st3 = ?m"
    by (simp add: cycle_attempt_ops_def fuzz_step_def fuzz_start_def store_api_def apply_upsert_node_def
        apply_upsert_edge_def commit_epoch_def Let_def numeral_3_eq_3 maps_new_def insert_node_def insert_edge_def hm_insert_def)
  have m: "node_fwd ?m ''V/parent'' = Some 0" "node_fwd ?m ''V/child'' = Some 1"
    "edge_fwd ?m (''V/nonexistent'', ''V/parent'', TREE_EDGE_LABEL) = None"
    "edge_fwd ?m (''V/child'', ''V/parent'', TREE_EDGE_LABEL) = None"
    by (simp_all add: bridge_simps nodes.fwd_bind edges.fwd_bind) (simp_all add: maps_new_def table_defs)
  have drop: "drop_edge (d_session (t_db store_api)) (''V/nonexistent'', ''V/parent'', TREE_EDGE_LABEL) (?s, ?m) = (?s, ?m)"
    using m(3) by (simp add: drop_edge_def remove_edge_def edge_fwd_def)
  have "store_edges ?s \<noteq> UNIV" by (intro edge_room) (simp add: store_edges_def counted_def lessThan_Suc)
  moreover have "store_graph ?s 0 = Some (0, 1, TREE_EDGE_LABEL)" by (simp add: store_graph_def TREE_EDGE_LABEL_def)
  then have "(0, 1) \<in> child_rel (children_of store_api ?s)" using children_edges [OF store_graph_laws] by blast
  ultimately obtain s' m' where move:
    "apply_loro_op (d_session (t_db store_api)) (TreeMove ''V/parent'' ''V/nonexistent'' ''V/child'') (?s, ?m) = (Inr (), (s', m'))"
    "\<not> check_i14 store_api (s', m')"
    using bridge_move_closes_cycle [OF store_graph_laws m(1,2) drop] unfolding m(4) if_P [OF refl] by blast
  have "\<exists>st. fuzz_loop (t_db store_api) no_mirror (drop 3 cycle_attempt_ops) st3 = Some st \<and> fz_db st = s' \<and> fz_maps st = m'"
    using move(1) st3(2,3) by (simp add: cycle_attempt_ops_def fuzz_step_def Let_def commit_epoch_def store_api_def)
  moreover have "fuzz_loop db md (xs @ ys) st = (case fuzz_loop db md xs st of None \<Rightarrow> None | Some st \<Rightarrow> fuzz_loop db md ys st)"
    for db :: "edge_store db_api" and md :: "unit mirror_api" and xs ys st
    by (induction xs arbitrary: st) (auto split: option.splits)
  from this [of _ _ "take 3 cycle_attempt_ops" "drop 3 cycle_attempt_ops"] st3(1)
  have "fuzz_loop (t_db store_api) no_mirror cycle_attempt_ops (fuzz_start (0, []) ()) =
      fuzz_loop (t_db store_api) no_mirror (drop 3 cycle_attempt_ops) st3"
    by simp
  ultimately show ?thesis using move(2) by metis
qed

end
