(* ===== verification/Cold_Boot.thy ===== *)
theory Cold_Boot
  imports Fuzz_Checks "HOL-Library.Multiset"
begin

text \<open>
  What a cold boot needs and what it leaves behind. The hydration of \<open>Hydration\<close> is put over the database
  of the bridge's laws: it succeeds exactly when every vertex of the document can be read, then creates one
  node for each, in whatever order its chunks run, and otherwise leaves part of its work behind. The checks
  I3c and I9 of the fuzz harness (\<^verbatim>\<open>fuzz/fuzz_targets/consistency.rs\<close>) are decided by this.
\<close>

section \<open>A database that takes what hydration writes\<close>

definition all_readable :: "('d, 'c) vertex_api \<Rightarrow> 'd \<Rightarrow> bool" where
  "all_readable v doc = list_all (readable v doc) (v_keys v ROOT_VERTICES doc)"

text \<open>Transactions start and commit, and a created node is counted.\<close>

definition same_counts :: "'s read_api \<Rightarrow> 's \<Rightarrow> 's \<Rightarrow> bool" where
  "same_counts rd s s' \<longleftrightarrow> r_node_count rd s' = r_node_count rd s \<and> r_edge_count rd s' = r_edge_count rd s"

definition boot_db :: "'s db_api \<Rightarrow> 's read_api \<Rightarrow> ('s \<Rightarrow> node_id set) \<Rightarrow> ('s \<Rightarrow> edge_id set) \<Rightarrow> bool" where
  "boot_db db rd un ue \<longleftrightarrow> harness_db db un ue \<and>
     (\<forall>s r s'. d_begin_transaction db s = (r, s') \<longrightarrow> same_counts rd s s') \<and>
     (\<forall>s. \<exists>s'. d_prepare_commit db s = (Inr (), s') \<and> same_counts rd s s') \<and>
     (\<forall>s. \<exists>epoch s'. d_commit db s = (Inr epoch, s') \<and> same_counts rd s s') \<and>
     (\<forall>ls ps s nid s'. s_create_node_with_props (d_session db) ls ps s = (Inr nid, s') \<longrightarrow>
        r_node_count rd s' = Suc (r_node_count rd s) \<and> r_edge_count rd s' = r_edge_count rd s)"

text \<open>One new node and one new binding for each key, and nothing else.\<close>

definition booted ::
  "'s read_api \<Rightarrow> ('s \<Rightarrow> node_id set) \<Rightarrow> ('s \<Rightarrow> edge_id set) \<Rightarrow> string list \<Rightarrow> 's tx \<Rightarrow> 's tx \<Rightarrow> bool" where
  "booted rd un ue keys = (\<lambda>(s, m) (s', m').
     tx_ok un ue (s', m') \<and> dom (node_fwd m') = dom (node_fwd m) \<union> set keys \<and>
     edge_fwd m' = edge_fwd m \<and> un s \<subseteq> un s' \<and> card (un s') = card (un s) + length keys \<and> ue s' = ue s \<and>
     r_node_count rd s' = r_node_count rd s + length keys \<and> r_edge_count rd s' = r_edge_count rd s \<and>
     node_fwd m \<subseteq>\<^sub>m node_fwd m' \<and> (\<forall>k\<in>set keys. \<exists>nid. node_fwd m' k = Some nid \<and> nid \<notin> un s \<and> nid \<in> un s'))"

lemma booted_Nil: "tx_ok un ue t \<Longrightarrow> booted rd un ue [] t t"
  by (cases t) (simp add: booted_def)

lemma booted_append:
  "booted rd un ue ks t t1 \<Longrightarrow> booted rd un ue ls t1 t2 \<Longrightarrow> booted rd un ue (ks @ ls) t t2"
proof -
  assume A: "booted rd un ue ks t t1" and B: "booted rd un ue ls t1 t2"
  obtain s m s1 m1 s2 m2 where t: "t = (s, m)" "t1 = (s1, m1)" "t2 = (s2, m2)" by (metis surj_pair)
  from A t have a: "dom (node_fwd m1) = dom (node_fwd m) \<union> set ks" "edge_fwd m1 = edge_fwd m" "un s \<subseteq> un s1"
      "card (un s1) = card (un s) + length ks" "ue s1 = ue s" "r_node_count rd s1 = r_node_count rd s + length ks"
      "r_edge_count rd s1 = r_edge_count rd s" "node_fwd m \<subseteq>\<^sub>m node_fwd m1"
      "\<And>k. k \<in> set ks \<Longrightarrow> \<exists>nid. node_fwd m1 k = Some nid \<and> nid \<notin> un s \<and> nid \<in> un s1"
    by (simp_all add: booted_def)
  from B t have b: "tx_ok un ue (s2, m2)" "dom (node_fwd m2) = dom (node_fwd m1) \<union> set ls" "edge_fwd m2 = edge_fwd m1"
      "un s1 \<subseteq> un s2" "card (un s2) = card (un s1) + length ls" "ue s2 = ue s1"
      "r_node_count rd s2 = r_node_count rd s1 + length ls" "r_edge_count rd s2 = r_edge_count rd s1"
      "node_fwd m1 \<subseteq>\<^sub>m node_fwd m2"
      "\<And>k. k \<in> set ls \<Longrightarrow> \<exists>nid. node_fwd m2 k = Some nid \<and> nid \<notin> un s1 \<and> nid \<in> un s2"
    by (simp_all add: booted_def)
  have "\<exists>nid. node_fwd m2 k = Some nid \<and> nid \<notin> un s \<and> nid \<in> un s2" if "k \<in> set (ks @ ls)" for k
  proof (cases "k \<in> set ls")
    case True
    with b(10) a(3) show ?thesis by blast
  next
    case False
    with that a(9) obtain nid where "node_fwd m1 k = Some nid" "nid \<notin> un s" "nid \<in> un s1" by auto
    with b(4,9) show ?thesis by (metis domI map_le_def subsetD)
  qed
  with a b t map_le_trans [OF a(8) b(9)] show ?thesis
    by (simp add: booted_def Un_assoc subset_trans [OF a(3) b(4)])
qed

lemma booted_frame:
  assumes "booted rd un ue ks (s, m) (s1, m1)" and "un s2 = un s1" "ue s2 = ue s1" and "same_counts rd s1 s2"
  shows "booted rd un ue ks (s, m) (s2, m1)"
  using assms tx_ok_same [of un ue s1 m1 s2] by (auto simp: booted_def same_counts_def)

lemma booted_start:
  assumes "booted rd un ue ks (s1, m) t" and "un s1 = un s" "ue s1 = ue s" and "same_counts rd s s1"
  shows "booted rd un ue ks (s, m) t"
  using assms by (auto simp: booted_def same_counts_def)

lemma boot_create:
  assumes db: "boot_db db rd un ue" and "tx_ok un ue (s, m)" and "un s \<noteq> UNIV" and k: "node_fwd m k = None"
  obtains nid s' where "apply_loro_op (d_session db) (UpsertNode k ls ps) (s, m) = (Inr (), (s', insert_node k nid m))"
    and "nid \<notin> un s" and "booted rd un ue [k] (s, m) (s', insert_node k nid m)"
proof -
  have h: "harness_db db un ue" using db by (simp add: boot_db_def)
  obtain nid s' where c: "s_create_node_with_props (d_session db) ls (props_iter ps) s = (Inr nid, s')"
    using harness_dbD(6) [OF h assms(3)] by blast
  have n: "nid \<notin> un s" "un s' = insert nid (un s)" "ue s' = ue s"
    using harness_dbD(1) [OF h] c by (auto simp: session_fresh_def split: sum.splits)
  have "r_node_count rd s' = Suc (r_node_count rd s) \<and> r_edge_count rd s' = r_edge_count rd s"
    using db c unfolding boot_db_def by blast
  then have "booted rd un ue [k] (s, m) (s', insert_node k nid m)"
    using tx_ok_insert_node [OF assms(2) k n] n k
    by (auto simp: booted_def dom_insert_node bridge_simps map_le_def nodes.fwd_bind)
  moreover have "apply_loro_op (d_session db) (UpsertNode k ls ps) (s, m) = (Inr (), (s', insert_node k nid m))"
    using c k by (simp add: apply_upsert_node_def node_fwd_def)
  ultimately show ?thesis using that n(1) by blast
qed

section \<open>A hydration that succeeds\<close>

lemma readable_op:
  assumes "readable v doc key"
  obtains ls ps where "hydrate_vertex v doc key = Inr (UpsertNode key ls ps)"
proof -
  obtain op where "hydrate_vertex v doc key = Inr op"
    using assms by (auto simp: readable_def split: sum.splits)
  with that show ?thesis by (metis hydrate_vertex_op)
qed

lemma boot_keys:
  assumes db: "boot_db db rd un ue"
  shows "tx_ok un ue t \<Longrightarrow> distinct keys \<Longrightarrow> set keys \<inter> dom (node_fwd (snd t)) = {} \<Longrightarrow>
    card (un (fst t)) + length keys \<le> 2 ^ 64 \<Longrightarrow> list_all (readable v doc) keys \<Longrightarrow>
    \<exists>t'. hydrate_keys (d_session db) v doc keys t = (Inr (), t') \<and> booted rd un ue keys t t'"
proof (induction keys arbitrary: t)
  case (Cons key keys)
  obtain s m where t: "t = (s, m)" by fastforce
  obtain ls ps where v: "hydrate_vertex v doc key = Inr (UpsertNode key ls ps)"
    using Cons.prems(5) by (auto elim: readable_op)
  have free: "un s \<noteq> UNIV" "node_fwd m key = None"
    using Cons.prems(3,4) t by (auto intro!: edge_room)
  obtain nid s1 where s1: "apply_loro_op (d_session db) (UpsertNode key ls ps) (s, m) = (Inr (), (s1, insert_node key nid m))"
    "booted rd un ue [key] (s, m) (s1, insert_node key nid m)"
    using boot_create [OF db Cons.prems(1) [unfolded t] free] by blast
  then have b: "tx_ok un ue (s1, insert_node key nid m)" "card (un s1) = Suc (card (un s))"
    by (simp_all add: booted_def)
  obtain t' where "hydrate_keys (d_session db) v doc keys (s1, insert_node key nid m) = (Inr (), t')"
    "booted rd un ue keys (s1, insert_node key nid m) t'"
    using Cons.IH [OF b(1)] Cons.prems(2-5) t b(2) by (auto simp: dom_insert_node)
  then show ?case
    using s1(1) v t booted_append [OF s1(2), of keys t'] by simp
qed (simp add: booted_Nil)

lemma boot_chunk:
  assumes db: "boot_db db rd un ue" and "tx_ok un ue t" and "distinct c" and "set c \<inter> dom (node_fwd (snd t)) = {}"
    and "card (un (fst t)) + length c \<le> 2 ^ 64" and "list_all (readable v doc) c"
  shows "\<exists>t'. hydrate_chunk db v doc c t = (Inr (), t') \<and> booted rd un ue c t t'"
proof -
  have h: "harness_db db un ue" using db by (simp add: boot_db_def)
  obtain s m where t: "t = (s, m)" by fastforce
  obtain s1 where s1: "d_begin_transaction db s = (Inr (), s1)" "un s1 = un s" "ue s1 = ue s"
    using harness_dbD(2) [OF h] by blast
  have c1: "same_counts rd s s1" using db s1(1) unfolding boot_db_def by blast
  obtain s2 m2 where k: "hydrate_keys (d_session db) v doc c (s1, m) = (Inr (), (s2, m2))"
    "booted rd un ue c (s1, m) (s2, m2)"
    using boot_keys [OF db, of "(s1, m)" c v doc] assms(2-6) t s1 tx_ok_same [of un ue s m s1] by auto
  obtain s3 where s3: "d_prepare_commit db s2 = (Inr (), s3)" "same_counts rd s2 s3"
    using db unfolding boot_db_def by blast
  obtain epoch s4 where s4: "d_commit db s3 = (Inr epoch, s4)" "same_counts rd s3 s4"
    using db unfolding boot_db_def by blast
  have same: "same_counts rd s2 s4" using s3(2) s4(2) by (simp add: same_counts_def)
  have ids: "un s4 = un s2" "ue s4 = ue s2"
    using harness_dbD(3) [OF h s3(1)] harness_dbD(4) [OF h s4(1)] by simp_all
  have "booted rd un ue c (s, m) (s4, m2)"
    by (rule booted_start [OF booted_frame [OF k(2) ids same] s1(2,3) c1])
  then show ?thesis
    using t s1(1) k(1) s3(1) s4(1) by (simp add: hydrate_chunk_def)
qed

lemma boot_chunks:
  assumes db: "boot_db db rd un ue"
  shows "tx_ok un ue t \<Longrightarrow> distinct (concat cs) \<Longrightarrow> set (concat cs) \<inter> dom (node_fwd (snd t)) = {} \<Longrightarrow>
    card (un (fst t)) + length (concat cs) \<le> 2 ^ 64 \<Longrightarrow> list_all (readable v doc) (concat cs) \<Longrightarrow>
    \<exists>t'. hydrate_chunks db v doc cs t = (Inr (), t') \<and> booted rd un ue (concat cs) t t'"
proof (induction cs arbitrary: t)
  case (Cons c cs)
  obtain t1 where t1: "hydrate_chunk db v doc c t = (Inr (), t1)" "booted rd un ue c t t1"
    using boot_chunk [OF db Cons.prems(1), of c v doc] Cons.prems(2-5) by auto
  then have b: "tx_ok un ue t1" "dom (node_fwd (snd t1)) = dom (node_fwd (snd t)) \<union> set c"
    "card (un (fst t1)) = card (un (fst t)) + length c"
    by (cases t; cases t1; simp add: booted_def)+
  have "set (concat cs) \<inter> dom (node_fwd (snd t1)) = {}"
    using Cons.prems(2,3) unfolding b(2) by auto
  then obtain t2 where "hydrate_chunks db v doc cs t1 = (Inr (), t2)" "booted rd un ue (concat cs) t1 t2"
    using Cons.IH [OF b(1)] Cons.prems(2,4,5) b(3) by auto
  with t1 show ?case using booted_append [OF t1(2)] by auto
qed (simp add: booted_Nil)

text \<open>The keys in the order in which a run visits them.\<close>

definition visited ::
  "(string list list \<Rightarrow> string list list) \<Rightarrow> ('d, 'c) vertex_api \<Rightarrow> 'd \<Rightarrow> string list" where
  "visited ord v doc = concat (ord (chunks (unat DEFAULT_CHUNK_SIZE) (v_keys v ROOT_VERTICES doc)))"

definition reorders :: "(string list list \<Rightarrow> string list list) \<Rightarrow> bool" where
  "reorders ord \<longleftrightarrow> (\<forall>cs. mset (ord cs) = mset cs)"

lemma visited_mset:
  assumes "reorders ord"
  shows "mset (visited ord v doc) = mset (v_keys v ROOT_VERTICES doc)"
proof -
  have "mset (concat cs) = mset (concat ds)" if "mset cs = mset ds" for cs ds :: "string list list"
    using that by (metis mset_concat mset_map sum_mset_sum_list)
  moreover have "0 < unat DEFAULT_CHUNK_SIZE" by (simp add: DEFAULT_CHUNK_SIZE_def)
  ultimately show ?thesis
    using assms unfolding reorders_def visited_def by (metis concat_chunks)
qed

lemma visited_keys:
  assumes "reorders ord"
  shows "set (visited ord v doc) = set (v_keys v ROOT_VERTICES doc)"
    and "length (visited ord v doc) = length (v_keys v ROOT_VERTICES doc)"
    and "distinct (visited ord v doc) = distinct (v_keys v ROOT_VERTICES doc)"
    and "list_all (readable v doc) (visited ord v doc) = all_readable v doc"
proof -
  note m = visited_mset [OF assms, of v doc]
  show keys: "set (visited ord v doc) = set (v_keys v ROOT_VERTICES doc)" by (rule mset_eq_setD [OF m])
  show "length (visited ord v doc) = length (v_keys v ROOT_VERTICES doc)" by (rule mset_eq_length [OF m])
  show "distinct (visited ord v doc) = distinct (v_keys v ROOT_VERTICES doc)" by (rule mset_eq_imp_distinct_iff [OF m])
  show "list_all (readable v doc) (visited ord v doc) = all_readable v doc"
    unfolding all_readable_def list_all_iff keys ..
qed

lemma boot_unreadable:
  assumes "reorders ord" and "\<not> all_readable v doc"
  obtains e t' where "parallel_hydrate_grafeo ord db v doc t = (Inl e, t')"
proof -
  obtain r t' where r: "parallel_hydrate_grafeo ord db v doc t = (r, t')"
    by (cases "parallel_hydrate_grafeo ord db v doc t")
  have "all_readable v doc" if "r = Inr ()"
    using hydrate_chunks_read [OF r [unfolded that parallel_hydrate_grafeo_def]]
      visited_keys(4) [OF assms(1), of v doc] by (simp add: visited_def)
  with assms(2) have "r \<noteq> Inr ()" by blast
  with r that show ?thesis by (cases r) auto
qed

lemma boot_readable:
  assumes "boot_db db rd un ue" and "reorders ord" and "tx_ok un ue t" and "distinct (v_keys v ROOT_VERTICES doc)"
    and "set (v_keys v ROOT_VERTICES doc) \<inter> dom (node_fwd (snd t)) = {}"
    and "card (un (fst t)) + length (v_keys v ROOT_VERTICES doc) \<le> 2 ^ 64" and "all_readable v doc"
  obtains t' where "parallel_hydrate_grafeo ord db v doc t = (Inr (), t')"
    and "booted rd un ue (visited ord v doc) t t'"
  using boot_chunks [OF assms(1,3), of "ord (chunks (unat DEFAULT_CHUNK_SIZE) (v_keys v ROOT_VERTICES doc))" v doc]
    assms(4-7) visited_keys [OF assms(2), of v doc]
  by (auto simp: parallel_hydrate_grafeo_def visited_def)

section \<open>A hydration that fails\<close>






lemma readable_container: "readable v doc key \<Longrightarrow> l_map_get (v_doc v) ROOT_VERTICES key doc = Some VOC_Container"
  by (cases "l_map_get (v_doc v) ROOT_VERTICES key doc"; cases "the (l_map_get (v_doc v) ROOT_VERTICES key doc)")
    (simp_all add: readable_def hydrate_vertex_def)

text \<open>The two readers of a vertex accept different representations: a document with a vertex that the running
  bridge would take over from an event cannot be hydrated.\<close>

lemma live_vertex_blocks_boot:
  assumes "reorders ord" and "key \<in> set (v_keys v ROOT_VERTICES doc)"
    and "UpsertNode key ls ps \<in> set (translate_vertex_entry (key, l_map_get (v_doc v) ROOT_VERTICES key doc))"
  obtains e t' where "parallel_hydrate_grafeo ord db v doc t = (Inl e, t')"
proof -
  have "\<not> readable v doc key"
  proof
    assume "readable v doc key"
    from assms(3) show False
      unfolding readable_container [OF \<open>readable v doc key\<close>] by (simp add: translate_vertex_entry_def)
  qed
  with assms(2) have "\<not> all_readable v doc" by (auto simp: all_readable_def list_all_iff)
  then show ?thesis by (rule boot_unreadable [OF assms(1)]) (rule that)
qed

section \<open>The mirror of the harness\<close>

text \<open>What a map container does with its keys; the harness starts on an empty one.\<close>

definition mirror_laws :: "('d, 'c) vertex_api \<Rightarrow> 'd mirror_api \<Rightarrow> bool" where
  "mirror_laws v md \<longleftrightarrow> (\<forall>doc. distinct (v_keys v ROOT_VERTICES doc)) \<and>
     (\<forall>k doc. set (v_keys v ROOT_VERTICES (md_commit md (md_ensure_map md ROOT_VERTICES k doc))) =
        insert k (set (v_keys v ROOT_VERTICES doc))) \<and>
     (\<forall>k doc. set (v_keys v ROOT_VERTICES (md_commit md (md_delete md ROOT_VERTICES k doc))) =
        set (v_keys v ROOT_VERTICES doc) - {k})"

lemma fuzz_step_mirror:
  assumes "mirror_laws v md" and "fuzz_step db md op st = Some st'"
    and "set (v_keys v ROOT_VERTICES (fz_doc st)) = fz_live_nodes st"
  shows "set (v_keys v ROOT_VERTICES (fz_doc st')) = fz_live_nodes st'"
  using assms by (cases op) (auto simp: fuzz_step_def mirror_laws_def Let_def split: sum.splits prod.splits)

lemma fuzz_loop_mirror:
  assumes "mirror_laws v md"
  shows "fuzz_loop db md ops st = Some st' \<Longrightarrow> set (v_keys v ROOT_VERTICES (fz_doc st)) = fz_live_nodes st \<Longrightarrow>
    set (v_keys v ROOT_VERTICES (fz_doc st')) = fz_live_nodes st'"
  by (induction ops arbitrary: st) (auto split: option.splits dest: fuzz_step_mirror [OF assms])

section \<open>Concrete databases and documents\<close>

definition store_read :: "edge_store read_api" where
  "store_read = \<lparr>r_node_count = fst, r_edge_count = length \<circ> snd, r_property = (\<lambda>n k s. None),
     r_property_at = (\<lambda>e n k s. None)\<rparr>"

lemma store_boots: "boot_db (t_db store_api) store_read (\<lambda>s. counted (fst s)) store_edges"
proof -
  note h = store_harness
  show ?thesis unfolding boot_db_def
    using h by (auto simp: store_api_def store_read_def same_counts_def split: if_splits)
qed

lemma rev_reorders: "reorders rev" "reorders (\<lambda>cs. cs)"
  by (simp_all add: reorders_def)

lemma tx_ok_new: "tx_ok un ue (s, maps_new)"
  by (simp add: tx_ok_def maps_ok_new) (simp add: table_defs maps_new_def)

lemma dom_maps_new: "dom (node_fwd maps_new) = {}"
  by (auto simp: node_fwd_def maps_new_def)

text \<open>A document that is the list of its vertex keys; every vertex is a container with the same fields.\<close>

definition key_doc :: "(string list, unit) vertex_api" where
  "key_doc = \<lparr>v_doc = \<lparr>l_map_get = (\<lambda>r k d. if k \<in> set d then Some VOC_Container else None),
       l_map_insert = (\<lambda>r k v d. (Inr (), d)), l_map_delete = (\<lambda>r k d. (Inr (), removeAll k d)),
       l_commit = (\<lambda>origin d. d)\<rparr>,
     v_keys = (\<lambda>r d. remdups d), v_into_map = (\<lambda>r k d. Some ()),
     v_hydrate_map = (\<lambda>c d. Inr \<lparr>ve_labels = [], ve_properties = [], ve_description = []\<rparr>)\<rparr>"

definition key_mirror :: "string list mirror_api" where
  "key_mirror = \<lparr>md_ensure_map = (\<lambda>r k d. k # d), md_delete = (\<lambda>r k d. removeAll k d), md_commit = (\<lambda>d. d)\<rparr>"

lemma key_mirror_laws: "mirror_laws key_doc key_mirror"
  by (auto simp: mirror_laws_def key_doc_def key_mirror_def)

lemma key_doc_readable: "all_readable key_doc d"
  by (simp add: all_readable_def list_all_iff readable_def hydrate_vertex_def key_doc_def)

section \<open>Properties\<close>


lemma fuzz_step_live:
  assumes "fuzz_step db md op st = Some st'"
  shows "(fz_live_nodes st', fz_live_edges st') = mirror_keys op (fz_live_nodes st, fz_live_edges st)"
  using assms by (cases op) (auto simp: fuzz_step_def Let_def split: sum.splits prod.splits)

lemma fuzz_loop_live:
  "fuzz_loop db md ops st = Some st' \<Longrightarrow>
    (fz_live_nodes st', fz_live_edges st') = fold mirror_keys ops (fz_live_nodes st, fz_live_edges st)"
  by (induction ops arbitrary: st) (auto split: option.splits simp flip: fuzz_step_live)

text \<open>Property C16 (cold_boot_exact). On a database that takes what hydration writes, and with no vertex of the
  document bound yet, hydration succeeds exactly when every vertex of the document can be read. Then, in
  whatever order rayon runs the chunks, it creates one node for each vertex and no edge, binds exactly the
  vertices of the document in addition to those bound before, and keeps the tables of the bridge bijective.
\<close>

theorem cold_boot_exact:
  assumes "boot_db db rd un ue" and "reorders ord" and "tx_ok un ue (s, m)" and "distinct (v_keys v ROOT_VERTICES doc)"
    and "set (v_keys v ROOT_VERTICES doc) \<inter> dom (node_fwd m) = {}"
    and "card (un s) + length (v_keys v ROOT_VERTICES doc) \<le> 2 ^ 64"
  shows "case parallel_hydrate_grafeo ord db v doc (s, m) of
      (Inl e, _) \<Rightarrow> \<not> all_readable v doc
    | (Inr _, s', m') \<Rightarrow> all_readable v doc \<and> maps_ok m' \<and>
        dom (node_fwd m') = dom (node_fwd m) \<union> set (v_keys v ROOT_VERTICES doc) \<and>
        r_node_count rd s' = r_node_count rd s + length (v_keys v ROOT_VERTICES doc) \<and>
        r_edge_count rd s' = r_edge_count rd s"
proof (cases "all_readable v doc")
  case True
  obtain t' where "parallel_hydrate_grafeo ord db v doc (s, m) = (Inr (), t')"
    "booted rd un ue (visited ord v doc) (s, m) t'"
    using boot_readable [OF assms(1-4)] assms(5,6) True by auto
  with True show ?thesis
    by (cases t') (simp add: booted_def tx_ok_def visited_keys [OF assms(2)])
next
  case False
  obtain e t' where "parallel_hydrate_grafeo ord db v doc (s, m) = (Inl e, t')"
    by (rule boot_unreadable [OF assms(2) False])
  with False show ?thesis by (cases t') simp
qed

theorem cold_boot_exact_witness:
  "case parallel_hydrate_grafeo rev (t_db store_api) key_doc [''x'', ''y''] ((0, []), maps_new) of
      (Inl e, _) \<Rightarrow> False
    | (Inr _, s', m') \<Rightarrow> fst s' = 2 \<and> snd s' = [] \<and> dom (node_fwd m') = {''x'', ''y''}"
proof -
  have "v_keys key_doc ROOT_VERTICES [''x'', ''y''] = [''x'', ''y'']" by (simp add: key_doc_def)
  moreover obtain r s' m' where "parallel_hydrate_grafeo rev (t_db store_api) key_doc [''x'', ''y''] ((0, []), maps_new) =
      (r, s', m')" by (metis surj_pair)
  ultimately show ?thesis
    using cold_boot_exact [OF store_boots rev_reorders(1) tx_ok_new, of key_doc "[''x'', ''y'']" "(0, [])"]
      key_doc_readable [of "[''x'', ''y'']"]
    by (cases r) (simp_all add: dom_maps_new counted_def store_read_def)
qed

text \<open>Property C37 (hydration_checks_exact). The mirror of the harness keeps the vertex keys of its document equal
  to its set of live nodes, whatever operations the loop applies. So I3c and I9, which hydrate that document
  into an empty database in any chunk order, pass exactly when every mirrored vertex can be read: a failure of
  either says that hydration refused a vertex, never that a node was lost, duplicated or reordered.
\<close>

theorem hydration_checks_exact:
  assumes "boot_db db rd un ue" and "un s = {}" and "r_node_count rd s = 0"
    and "reorders ord" and "reorders ord1" and "reorders ord2"
    and "mirror_laws v md" and "v_keys v ROOT_VERTICES doc = []"
    and "fuzz_loop fuzzed md ops (fuzz_start s0 doc) = Some st" and "card (fz_live_nodes st) \<le> 2 ^ 64"
  shows "(check_i3c ord db rd v s st \<longleftrightarrow> all_readable v (fz_doc st)) \<and>
    (check_i9 ord1 ord2 db rd v s (fz_doc st) \<longleftrightarrow> all_readable v (fz_doc st))"
proof -
  let ?keys = "v_keys v ROOT_VERTICES (fz_doc st)"
  have keys: "set ?keys = fz_live_nodes st" "distinct ?keys"
    using fuzz_loop_mirror [OF assms(7,9)] assms(7,8) by (simp_all add: fuzz_start_def mirror_laws_def)
  then have len: "length ?keys = card (fz_live_nodes st)" by (metis distinct_card)
  note ok = tx_ok_new [of un ue s] and none = dom_maps_new
  have run: "\<exists>s' m'. parallel_hydrate_grafeo o' db v (fz_doc st) (s, maps_new) = (Inr (), s', m') \<and>
      r_node_count rd s' = card (fz_live_nodes st) \<and> r_edge_count rd s' = r_edge_count rd s \<and>
      length (node_id_map m') = card (fz_live_nodes st)"
    if o': "reorders o'" and all: "all_readable v (fz_doc st)" for o'
  proof -
    obtain s' m' where r: "parallel_hydrate_grafeo o' db v (fz_doc st) (s, maps_new) = (Inr (), s', m')"
      "booted rd un ue (visited o' v (fz_doc st)) (s, maps_new) (s', m')"
      using boot_readable [OF assms(1) o' ok keys(2)] none len all assms(2,10) by auto
    then have "maps_ok m'" "dom (node_fwd m') = fz_live_nodes st"
      by (simp_all add: booted_def tx_ok_def none visited_keys [OF o'] keys(1))
    then have "length (node_id_map m') = card (fz_live_nodes st)"
      using length_hm [of "node_id_map m'"] by (simp add: maps_ok_def node_fwd_def [abs_def])
    with r show ?thesis by (simp add: booted_def visited_keys(2) [OF o'] len assms(3))
  qed
  show ?thesis
  proof (cases "all_readable v (fz_doc st)")
    case True
    then show ?thesis
      using run [OF assms(4)] run [OF assms(5)] run [OF assms(6)] by (auto simp: check_i3c_def check_i9_def)
  next
    case False
    obtain e t where "parallel_hydrate_grafeo ord db v (fz_doc st) (s, maps_new) = (Inl e, t)"
      by (rule boot_unreadable [OF assms(4) False])
    moreover obtain e1 t1 where "parallel_hydrate_grafeo ord1 db v (fz_doc st) (s, maps_new) = (Inl e1, t1)"
      by (rule boot_unreadable [OF assms(5) False])
    ultimately show ?thesis using False by (simp add: check_i3c_def check_i9_def)
  qed
qed

theorem hydration_checks_exact_witness:
  "\<exists>st. fuzz_loop (t_db store_api) key_mirror [FzUpsertNode ''a'' [] [], FzUpsertNode ''b'' [] [], FzDeleteNode ''a'']
       (fuzz_start (0, []) []) = Some st \<and> fz_live_nodes st = {''b''} \<and>
     check_i3c rev (t_db store_api) store_read key_doc (0, []) st \<and>
     check_i9 rev (\<lambda>cs. cs) (t_db store_api) store_read key_doc (0, []) (fz_doc st)"
proof -
  let ?ops = "[FzUpsertNode ''a'' [] [], FzUpsertNode ''b'' [] [], FzDeleteNode ''a'']"
  obtain st where st: "fuzz_loop (t_db store_api) key_mirror ?ops (fuzz_start (0, []) []) = Some st"
    using fuzz_loop_inv [OF store_harness run_inv_start, of "(0, [])" "[]" ?ops key_mirror]
    by (auto simp: fuzz_start_def store_edges_def counted_def)
  then have live: "fz_live_nodes st = {''b''}"
    using fuzz_loop_live [OF st] by (auto simp: fuzz_start_def)
  show ?thesis
    using hydration_checks_exact [OF store_boots _ _ rev_reorders(1) rev_reorders(1) rev_reorders(2) key_mirror_laws _ st, of "(0, [])"]
      st live key_doc_readable [of "fz_doc st"]
    by (simp add: counted_def store_read_def) (simp add: key_doc_def)
qed



end
