(* ===== verification/App_Telemetry.thy ===== *)
theory App_Telemetry
  imports App Health
begin

text \<open>
  The telemetry of the application facade (\<^verbatim>\<open>src/app.rs\<close>): the handles an application carries beside its
  dispatch fields, the span around a cold start and the duration that \<^verbatim>\<open>hydrate\<close> records when it succeeds.
  A tracer is the function that starts a span by name.
\<close>

section \<open>An application with its handles\<close>

record ('st, 'i, 'sp) telemetry_app = "'st app" +
  ta_metrics :: "'i metrics_registry option"
  ta_health :: "health_probe option"
  ta_tracer :: "(string \<Rightarrow> 'sp) option"
  ta_worker_handles :: "worker list option"

record ('st, 'i, 'sp) app_telemetry_config =
  tc_ssot_mode :: ssot_mode
  tc_storage :: "'st storage_api option"
  tc_compression :: compression_type
  tc_metrics :: "'i metrics_registry option"
  tc_health :: "health_probe option"
  tc_tracer :: "(string \<Rightarrow> 'sp) option"
  tc_worker_handles :: "worker list option"

definition app_with_telemetry :: "('st, 'i, 'sp) app_telemetry_config \<Rightarrow> ('st, 'i, 'sp) telemetry_app" where
  "app_with_telemetry c = \<lparr>ap_ssot_mode = tc_ssot_mode c, ap_storage = tc_storage c,
     ap_compression = tc_compression c, ta_metrics = tc_metrics c, ta_health = tc_health c,
     ta_tracer = tc_tracer c, ta_worker_handles = tc_worker_handles c\<rparr>"

section \<open>Hydrate with its recordings\<close>

fun hydration_mode_of :: "ssot_mode \<Rightarrow> hydration_mode" where
  "hydration_mode_of SsotLoro = HmLoro"
| "hydration_mode_of SsotGrafeo = HmGrafeo"

definition record_hydrated ::
  "f64 \<Rightarrow> ('st, 'i, 'sp) telemetry_app \<Rightarrow> 'i observations \<Rightarrow> 'i observations" where
  "record_hydrated elapsed_ms a log = (case ta_metrics a of
     Some m \<Rightarrow> record_hydration elapsed_ms (hydration_mode_of (ap_ssot_mode a)) m log
   | None \<Rightarrow> log)"

definition cold_start_span :: "('st, 'i, 'sp) telemetry_app \<Rightarrow> 'sp list \<Rightarrow> 'sp list" where
  "cold_start_span a spans = (case ta_tracer a of
     Some start \<Rightarrow> spans @ [create_cold_start_span start]
   | None \<Rightarrow> spans)"

definition app_hydrate ::
  "('s, 'd, 'c, 'm, 'f, 'w, 'x) app_env \<Rightarrow> ('st, 'i, 'sp) telemetry_app \<Rightarrow> f64 \<Rightarrow> string \<Rightarrow>
     ('s, 'd, 'st) app_state \<times> 'i observations \<times> 'sp list \<Rightarrow>
     unit result \<times> ('s, 'd, 'st) app_state \<times> 'i observations \<times> 'sp list" where
  "app_hydrate env a elapsed_ms graph_id = (\<lambda>(x, log, spans).
     let spans = cold_start_span a spans
     in case hydrate env (app.truncate a) graph_id x of
          (Inl e, x) \<Rightarrow> (Inl e, (x, log, spans))
        | (Inr _, x) \<Rightarrow> (Inr (), (x, record_hydrated elapsed_ms a log, spans)))"

text \<open>The span is opened on every call. A duration is recorded once and only when the call succeeds, always under
  the mode of Loro: the other mode never gets that far.\<close>

theorem app_hydrate_records:
  assumes "app_hydrate env a ms g (x, log, spans) = (r, (x', log', spans'))"
  shows "hydrate env (app.truncate a) g x = (r, x') \<and>
    spans' = spans @ (case ta_tracer a of Some start \<Rightarrow> [start ''cold_start_hydration''] | None \<Rightarrow> []) \<and>
    log' = log @ (case (r, ta_metrics a) of
       (Inr _, Some m) \<Rightarrow> [(mr_hydration_duration m, ms, [(''mode'', OV_Str ''loro'')])] | _ \<Rightarrow> [])"
proof -
  have "ap_ssot_mode a = SsotLoro" if "hydrate env (app.truncate a) g x = (Inr (), y)" for y
    using that by (cases x) (auto simp: hydrate_def app.defs split: option.splits ssot_mode.splits)
  then show ?thesis
    using assms by (auto simp: app_hydrate_def cold_start_span_def record_hydrated_def create_cold_start_span_def
        record_hydration_def Let_def split: prod.splits sum.splits option.splits)
qed

end
