(* ===== verification/Js_Client.thy ===== *)
theory Js_Client
  imports Queue
begin

text \<open>
  The two classes a browser uses (\<^verbatim>\<open>src/wasm/queue.rs\<close>): every method of \<^verbatim>\<open>WasmOfflineOpQueue\<close> and
  \<^verbatim>\<open>WasmEpochTracker\<close>, a client that calls them in any order, and an abstract client without words and byte
  counters that gives the same answers.
\<close>

section \<open>\<^verbatim>\<open>WasmOfflineOpQueue\<close>\<close>

type_synonym wasm_offline_op_queue = "32 word offline_op_queue"

definition wasm_queue_new :: wasm_offline_op_queue where
  "wasm_queue_new = oq_new"

definition wasm_queue_with_cap :: "32 word \<Rightarrow> wasm_offline_op_queue" where
  "wasm_queue_with_cap cap_bytes = oq_with_cap cap_bytes"

definition wasm_depth :: "wasm_offline_op_queue \<Rightarrow> nat" where
  "wasm_depth q = oq_depth q"

definition wasm_bytes_used :: "wasm_offline_op_queue \<Rightarrow> 32 word" where
  "wasm_bytes_used q = oq_bytes_used q"

definition wasm_cap_bytes :: "wasm_offline_op_queue \<Rightarrow> 32 word" where
  "wasm_cap_bytes q = oq_cap_bytes q"

definition wasm_retry_bump :: "wasm_offline_op_queue \<Rightarrow> u32 \<times> wasm_offline_op_queue" where
  "wasm_retry_bump q = oq_retry_bump q"

definition wasm_reset_retry :: "wasm_offline_op_queue \<Rightarrow> wasm_offline_op_queue" where
  "wasm_reset_retry q = oq_reset_retry q"

definition wasm_retry_count :: "wasm_offline_op_queue \<Rightarrow> u32" where
  "wasm_retry_count q = oq_retry_count q"

definition wasm_is_empty :: "wasm_offline_op_queue \<Rightarrow> bool" where
  "wasm_is_empty q = oq_is_empty q"

section \<open>\<^verbatim>\<open>WasmEpochTracker\<close>\<close>

definition wasm_tracker_new :: epoch_tracker where
  "wasm_tracker_new = et_new"

definition wasm_current :: "epoch_tracker \<Rightarrow> u64" where
  "wasm_current t = et_current t"

definition wasm_bump :: "epoch_tracker \<Rightarrow> u64 \<times> epoch_tracker" where
  "wasm_bump t = et_bump t"

definition wasm_wipe :: "epoch_tracker \<Rightarrow> u64 \<times> epoch_tracker" where
  "wasm_wipe t = et_wipe t"

section \<open>A client\<close>

datatype js_call =
    C_Enqueue "u8 list" | C_Drain | C_Depth | C_Bytes_Used | C_Cap_Bytes
  | C_Retry_Bump | C_Reset_Retry | C_Retry_Count | C_Is_Empty
  | C_Current | C_Check_Match u64 | C_Bump | C_Wipe

text \<open>What JavaScript sees of a call: nothing, a number, a boolean, an array, or a thrown object with its code.\<close>

datatype js_answer =
    A_Undefined | A_Number nat | A_Bool bool | A_Arrays "u8 list list" | A_Throws u32 "(nat \<times> nat) option"

fun js_thrown :: "js_object \<Rightarrow> js_answer" where
  "js_thrown (Js_Error code e) = A_Throws code None"
| "js_thrown (Js_Mismatch code local remote) = A_Throws code (Some (unat local, unat remote))"

definition js_unit :: "js_object + unit \<Rightarrow> js_answer" where
  "js_unit r = (case r of Inl e \<Rightarrow> js_thrown e | Inr _ \<Rightarrow> A_Undefined)"

type_synonym js_state = "wasm_offline_op_queue \<times> epoch_tracker"

fun js_step :: "js_call \<Rightarrow> js_state \<Rightarrow> js_answer \<times> js_state" where
  "js_step (C_Enqueue op) (q, t) = (case wasm_enqueue op q of (r, q) \<Rightarrow> (js_unit r, (q, t)))"
| "js_step C_Drain (q, t) = (case wasm_drain q of (ops, q) \<Rightarrow> (A_Arrays ops, (q, t)))"
| "js_step C_Depth (q, t) = (A_Number (wasm_depth q), (q, t))"
| "js_step C_Bytes_Used (q, t) = (A_Number (unat (wasm_bytes_used q)), (q, t))"
| "js_step C_Cap_Bytes (q, t) = (A_Number (unat (wasm_cap_bytes q)), (q, t))"
| "js_step C_Retry_Bump (q, t) = (case wasm_retry_bump q of (n, q) \<Rightarrow> (A_Number (unat n), (q, t)))"
| "js_step C_Reset_Retry (q, t) = (A_Undefined, (wasm_reset_retry q, t))"
| "js_step C_Retry_Count (q, t) = (A_Number (unat (wasm_retry_count q)), (q, t))"
| "js_step C_Is_Empty (q, t) = (A_Bool (wasm_is_empty q), (q, t))"
| "js_step C_Current (q, t) = (A_Number (unat (wasm_current t)), (q, t))"
| "js_step (C_Check_Match r) (q, t) = (js_unit (wasm_check_match r t), (q, t))"
| "js_step C_Bump (q, t) = (case wasm_bump t of (n, t) \<Rightarrow> (A_Number (unat n), (q, t)))"
| "js_step C_Wipe (q, t) = (case wasm_wipe t of (n, t) \<Rightarrow> (A_Number (unat n), (q, t)))"

fun run_calls :: "('c \<Rightarrow> 's \<Rightarrow> 'a \<times> 's) \<Rightarrow> 'c list \<Rightarrow> 's \<Rightarrow> 'a list \<times> 's" where
  "run_calls step [] s = ([], s)"
| "run_calls step (c # cs) s = (case step c s of (a, s) \<Rightarrow> (case run_calls step cs s of (as, s) \<Rightarrow> (a # as, s)))"

section \<open>The abstract client\<close>

text \<open>A list of operations under a fixed cap, a retry count and an epoch, all natural numbers.\<close>

record js_spec =
  sp_ops :: "u8 list list"
  sp_cap :: nat
  sp_retries :: nat
  sp_epoch :: nat

definition next_epoch :: "nat \<Rightarrow> nat" where
  "next_epoch n = (if n + 1 = 2 ^ 64 then 0 else n + 1)"

fun spec_step :: "js_call \<Rightarrow> js_spec \<Rightarrow> js_answer \<times> js_spec" where
  "spec_step (C_Enqueue op) p =
     (if oq_bytes (sp_ops p @ [op]) \<le> sp_cap p then (A_Undefined, p\<lparr>sp_ops := sp_ops p @ [op]\<rparr>)
      else (A_Throws 1008 None, p))"
| "spec_step C_Drain p = (A_Arrays (sp_ops p), p\<lparr>sp_ops := []\<rparr>)"
| "spec_step C_Depth p = (A_Number (length (sp_ops p)), p)"
| "spec_step C_Bytes_Used p = (A_Number (oq_bytes (sp_ops p)), p)"
| "spec_step C_Cap_Bytes p = (A_Number (sp_cap p), p)"
| "spec_step C_Retry_Bump p = (let n = min (sp_retries p + 1) (2 ^ 32 - 1) in (A_Number n, p\<lparr>sp_retries := n\<rparr>))"
| "spec_step C_Reset_Retry p = (A_Undefined, p\<lparr>sp_retries := 0\<rparr>)"
| "spec_step C_Retry_Count p = (A_Number (sp_retries p), p)"
| "spec_step C_Is_Empty p = (A_Bool (sp_ops p = []), p)"
| "spec_step C_Current p = (A_Number (sp_epoch p), p)"
| "spec_step (C_Check_Match r) p =
     (if sp_epoch p = unat r then A_Undefined else A_Throws 1013 (Some (sp_epoch p, unat r)), p)"
| "spec_step C_Bump p = (A_Number (next_epoch (sp_epoch p)), p\<lparr>sp_epoch := next_epoch (sp_epoch p)\<rparr>)"
| "spec_step C_Wipe p = (A_Number (next_epoch (sp_epoch p)), p\<lparr>sp_epoch := next_epoch (sp_epoch p)\<rparr>)"

definition js_abs :: "js_state \<Rightarrow> js_spec" where
  "js_abs s = \<lparr>sp_ops = oq_ops (fst s), sp_cap = unat (oq_cap_bytes (fst s)),
     sp_retries = unat (oq_retry_count (fst s)), sp_epoch = unat (et_epoch (snd s))\<rparr>"

fun call_fits :: "js_call \<Rightarrow> bool" where
  "call_fits (C_Enqueue op) \<longleftrightarrow> length op < 2 ^ 32"
| "call_fits c \<longleftrightarrow> True"

lemma unat_next_epoch: "unat (e + 1 :: u64) = next_epoch (unat e)"
proof -
  have "unat e < 2 ^ 64" using unsigned_less [of e] by simp
  then show ?thesis by (auto simp: unat_word_ariths next_epoch_def)
qed

lemma enqueue_refines:
  assumes "oq_ok q" and "length op < 2 ^ 32"
  shows "spec_step (C_Enqueue op) (js_abs (q, t)) =
    (fst (js_step (C_Enqueue op) (q, t)), js_abs (snd (js_step (C_Enqueue op) (q, t)))) \<and>
    oq_ok (fst (snd (js_step (C_Enqueue op) (q, t))))"
  using oq_enqueue_cases [OF assms(1), of op] oq_ok_enqueue [OF assms(1), of op] assms(2)
  by (auto simp: js_abs_def wasm_enqueue_def js_unit_def js_error_def oq_fits_def split: if_splits)

lemma js_step_refines:
  assumes "oq_ok (fst s)" and "call_fits c"
  shows "spec_step c (js_abs s) = (fst (js_step c s), js_abs (snd (js_step c s))) \<and> oq_ok (fst (snd (js_step c s)))"
proof (cases "\<exists>op. c = C_Enqueue op")
  case True
  with assms show ?thesis by (cases s) (auto simp: enqueue_refines simp del: js_step.simps spec_step.simps)
next
  case False
  obtain q t where s: "s = (q, t)" by fastforce
  with assms(1) have ok: "oq_ok q" by simp
  from False assms(2) show ?thesis unfolding s
    by (cases c) (use ok in \<open>auto simp: js_abs_def wasm_drain_def oq_drain_def wasm_depth_def oq_depth_def
        wasm_bytes_used_def oq_bytes_used_def oq_ok_def oq_bytes_def wasm_cap_bytes_def wasm_retry_bump_def
        oq_retry_bump_def Let_def unat_saturating_add wasm_reset_retry_def oq_reset_retry_def wasm_retry_count_def
        wasm_is_empty_def oq_is_empty_def wasm_current_def et_current_def js_unit_def wasm_check_match_def
        et_check_match_def epoch_mismatch_to_jsvalue_def EPOCH_MISMATCH_CODE_def wasm_bump_def wasm_wipe_def
        et_bump_def et_wipe_def unat_next_epoch word_unat_eq_iff\<close>)
qed

lemma js_ok_new: "oq_ok (fst (wasm_queue_new, t))" "oq_ok (fst (wasm_queue_with_cap cap, t))"
  by (simp_all add: wasm_queue_new_def wasm_queue_with_cap_def oq_ok_new)

section \<open>Properties\<close>

text \<open>Property C1 (js_client_refines). A browser cannot tell the two classes from the abstract client: over any
  sequence of calls, every number, array and thrown code is the one computed on natural numbers and lists. So
  the byte counter never drifts, an enqueue is refused exactly above the cap and then changes nothing, a drain
  keeps the retry count, the retry count saturates, the epoch wraps, and a handshake throws exactly when the
  epochs differ, with both of them.
\<close>

theorem js_client_refines:
  assumes "oq_ok (fst s)" and "list_all call_fits cs" and "run_calls js_step cs s = (answers, s')"
  shows "run_calls spec_step cs (js_abs s) = (answers, js_abs s') \<and> oq_ok (fst s')"
  using assms
proof (induction cs arbitrary: s answers)
  case (Cons c cs)
  obtain a s1 where c: "js_step c s = (a, s1)" by (cases "js_step c s")
  obtain as where as: "run_calls js_step cs s1 = (as, s')" "answers = a # as"
    using Cons.prems(3) c by (auto split: prod.splits)
  have "spec_step c (js_abs s) = (a, js_abs s1) \<and> oq_ok (fst s1)"
    using js_step_refines [OF Cons.prems(1), of c] Cons.prems(2) c by simp
  with Cons.IH [OF _ _ as(1)] Cons.prems(2) as(2) show ?case by simp
qed simp

theorem js_client_refines_witness:
  "fst (run_calls js_step [C_Enqueue [1, 2, 3], C_Enqueue [4, 5], C_Retry_Bump, C_Drain, C_Bytes_Used, C_Retry_Count,
       C_Wipe, C_Check_Match 0] (wasm_queue_with_cap 4, wasm_tracker_new)) =
     [A_Undefined, A_Throws 1008 None, A_Number 1, A_Arrays [[1, 2, 3]], A_Number 0, A_Number 1,
      A_Number 1, A_Throws 1013 (Some (1, 0))]"
proof -
  let ?cs = "[C_Enqueue [1, 2, 3], C_Enqueue [4, 5], C_Retry_Bump, C_Drain, C_Bytes_Used, C_Retry_Count,
       C_Wipe, C_Check_Match 0]"
  let ?s = "(wasm_queue_with_cap 4, wasm_tracker_new)"
  have a: "js_abs ?s = \<lparr>sp_ops = [], sp_cap = 4, sp_retries = 0, sp_epoch = 0\<rparr>"
    by (simp add: js_abs_def wasm_queue_with_cap_def oq_with_cap_def wasm_tracker_new_def et_new_def)
  have "run_calls spec_step ?cs (js_abs ?s) = (fst (run_calls js_step ?cs ?s), js_abs (snd (run_calls js_step ?cs ?s)))"
    using js_client_refines [OF js_ok_new(2), of ?cs] by (simp del: run_calls.simps js_step.simps)
  moreover have "fst (run_calls spec_step ?cs (js_abs ?s)) = [A_Undefined, A_Throws 1008 None, A_Number 1,
      A_Arrays [[1, 2, 3]], A_Number 0, A_Number 1, A_Number 1, A_Throws 1013 (Some (1, 0))]"
    unfolding a by (simp add: oq_bytes_def next_epoch_def Let_def)
  ultimately show ?thesis by (metis fst_conv)
qed

end
