(* ===== verification/Spec2Isabelle.thy ===== *)
theory Spec2Isabelle
  imports Echo Observability Sync_Tree Tree_Adapter Memory_Ceiling Root_Tracker App Text_Merge
    Presence Inverted_Index Shadow Sab Embedding Ffi Mailbox Health Engine_Workers Fuzz_Checks Cold_Boot
    App_Telemetry Js_Client
begin

text \<open>
  grafeo-loro keeps two stores in step: a Loro CRDT document, the shared replicated state, and a
  grafeo property-graph database, the local index. The library models the bridge between them and the
  schema checks around it. Paths below are relative to \<^verbatim>\<open>src/src\<close> of the repository.

  \<^bold>\<open>How the parts work together.\<close> A commit on the Loro document calls the subscriber handler, which
  drops the commits of the bridge itself (by their origin) and translates the others into \<^verbatim>\<open>LoroOp\<close>
  values on the bounded inbound channel. The mutation batcher collects them and applies each batch to
  grafeo in one transaction, keeping four id tables (vertex key to node id and back, edge key to edge
  id and back), and records the epoch of the commit. A poller reads the change log of grafeo, leaves
  out the recorded epochs and sends the rest to the outbound worker, which writes them into the Loro
  document. Tree moves, acyclicity checks,
  the offline queue, commit origins and the invariant checker stand beside this loop. The application
  facade saves the document as a compressed snapshot in a storage backend and rebuilds both stores from
  it. Around the bridge are self-contained parts: tree views, root tracking, presence, full-text search,
  shadow commits, a layout buffer, embeddings, the FFI entry points, a mailbox and a memory ceiling.

  \<^bold>\<open>Theories.\<close>
  \<^item> \<open>Prelude\<close>: association lists with distinct keys (\<open>hm_get\<close>, \<open>hm_insert\<close>, \<open>hm_remove\<close>) that
    stand for \<^verbatim>\<open>HashMap\<close>, checked and saturating word arithmetic, text building, little-endian bytes and the
    validity of UTF-8.
  \<^item> \<open>Errors\<close> (\<^verbatim>\<open>error.rs\<close>, \<^verbatim>\<open>config.rs\<close>, \<^verbatim>\<open>constants.rs\<close>, \<^verbatim>\<open>wasm/mod.rs\<close>): the error enum, the result
    type, the codes JavaScript sees, constants.
  \<^item> \<open>Values\<close> (\<^verbatim>\<open>types/values.rs\<close>, \<^verbatim>\<open>types/events.rs\<close>): Loro, bridge and grafeo values with every
    conversion; the conversions are shown to be partial inverses of each other.
  \<^item> \<open>Ids\<close> (\<^verbatim>\<open>types/ids.rs\<close>): the interning table; the locale \<open>two_way_table\<close> is the contract of a pair
    of maps that are kept in step.
  \<^item> \<open>Bridge_Maps\<close> and \<open>Grafeo_Tx\<close> (\<^verbatim>\<open>bridge/grafeo_tx.rs\<close>): the four tables (two interpretations of
    \<open>two_way_table\<close>), the check of invariant I11, and the application of one operation to a grafeo
    session. The abstract specification is a set of vertex keys and a set of edge keys
    (\<open>key_graph\<close>, \<open>spec_op\<close>); the operations refine it and keep the tables bijective.
  \<^item> \<open>Batcher\<close> (\<^verbatim>\<open>bridge/batcher.rs\<close>): the run loop over its events, with the outcome of each blocking
    transaction (finished, panicked, timed out) as part of the event.
  \<^item> \<open>Queue\<close> (\<^verbatim>\<open>bridge/queue.rs\<close>, \<^verbatim>\<open>wasm/queue.rs\<close>): the offline queue with its byte accounting, for any
    width of \<^verbatim>\<open>usize\<close>, and lineage epochs; the locale \<open>bounded_fifo\<close> is interpreted for the queue, the
    methods of the engine and the JavaScript wrappers.
  \<^item> \<open>Js_Client\<close> (\<^verbatim>\<open>wasm/queue.rs\<close>): all methods of the two JavaScript classes and a client that calls them in any
    order, as a refinement of an abstract client on lists and natural numbers.
  \<^item> \<open>Origin\<close> (\<^verbatim>\<open>bridge/origin.rs\<close>): commit origins.
  \<^item> \<open>Sync_Translate\<close> and \<open>Sync_Engine\<close> (\<^verbatim>\<open>bridge/sync_engine.rs\<close>): both translations between the
    stores, the subscriber handler and the turns of the four tasks, with suspended sends, spawning and the shutdown
    broadcast.
  \<^item> \<open>Engine_Workers\<close>: the tasks in any interleaving. Operations keep their order from the subscriber to the
    batcher, a shutdown ends every task that has subscribed, and one that comes too early does not return.
  \<^item> \<open>Echo\<close>: the interleavings of commit, recording of the epoch, poll and delivery as a step relation,
    with the invariant that excludes echoes and the schedule that produces one.
  \<^item> \<open>Tree_Guard\<close> (\<^verbatim>\<open>schema/tree.rs\<close>): the parent map with its cycle check.
  \<^item> \<open>Dfs3\<close>, \<open>Dag_Check\<close> (\<^verbatim>\<open>schema/edge.rs\<close>) and \<open>Observability\<close> (\<^verbatim>\<open>observability/mod.rs\<close>): the theory of
    three-colour depth-first search as a locale over a neighbour function, interpreted for the two
    detectors of the repository, and the checks of the invariants.
  \<^item> \<open>Sync_Tree\<close> (\<^verbatim>\<open>schema/tree.rs\<close>): tree moves in grafeo and their breadth-first pre-check.

  \<^item> \<open>Root_Tracker\<close> (\<^verbatim>\<open>schema/mod.rs\<close>) and \<open>Tree_Adapter\<close> (\<^verbatim>\<open>tree_adapter/mod.rs\<close>): the incremental set of
    roots, shown to agree with a graph of nodes and edges, and the tree view over the bridge maps, whose
    traversals visit every descendant once in pre-order.
  \<^item> \<open>Compression\<close> (\<^verbatim>\<open>compression/\<close>), \<open>Storage\<close> (\<^verbatim>\<open>storage/\<close>), \<open>Hydration\<close> (\<^verbatim>\<open>hydration/\<close>,
    \<^verbatim>\<open>schema/vertex.rs\<close>) and \<open>App\<close> (\<^verbatim>\<open>app.rs\<close>): the wire format, the storage contract as the locale
    \<open>storage_backend\<close> with the in-memory backend as its interpretation, the rebuilding of grafeo from the document,
    and the builder, checkpoint and hydrate, whose composition restores the saved state. \<open>App_Telemetry\<close> adds the
    handles of an application and what a cold start records.
  \<^item> \<open>Memory_Ceiling\<close> and \<open>Mailbox\<close> (\<^verbatim>\<open>runtime/mod.rs\<close>): the budget with eviction of idle documents, least
    recently used first, over wrapping words; and the mailbox as a step relation over all interleavings of sends,
    receives, cancellations and drops, with its invariant.
  \<^item> \<open>Text_Merge\<close> and \<open>Ffi\<close> (\<^verbatim>\<open>ffi/mod.rs\<close>): the longest common subsequence of lines and the three-way merge;
    node batches, batcher slots and callbacks.
  \<^item> \<open>Presence\<close> (\<^verbatim>\<open>presence/\<close>): the registry and the binary envelope, with the exact set of accepted buffers.
  \<^item> \<open>Inverted_Index\<close> (\<^verbatim>\<open>fts/mod.rs\<close>): the index refines a map from documents to tokens; search returns
    the documents that match, by falling score.
  \<^item> \<open>Shadow\<close> (\<^verbatim>\<open>shadow/mod.rs\<close>): commits, refs and reset, with the stores that the operations build as the
    reachable states of a step relation.
  \<^item> \<open>Sab\<close> (\<^verbatim>\<open>sab/mod.rs\<close>), \<open>Embedding\<close> (\<^verbatim>\<open>hydration/vector.rs\<close>) and \<open>Health\<close> (\<^verbatim>\<open>telemetry/\<close>): the
    layout buffer as a refinement of a list of pairs, the deterministic embedding, the health probe, instruments and spans.
  \<^item> \<open>Fuzz_Corpus\<close>, \<open>Fuzz_Harness\<close> and \<open>Fuzz_Checks\<close> (\<^verbatim>\<open>fuzz/fuzz_targets/\<close>): the seed encoder, whose code
    decodes in one way; the fuzz target with its loop, mirror and checks on the models above; and what the
    checks decide: which of them hold after every run, which graphs the walk of I14 accepts, and that a
    move of the bridge can close a cycle, as the shipped seed \<^verbatim>\<open>cycle_attempt\<close> does.
  \<^item> \<open>Cold_Boot\<close>: hydration over the database of the bridge's laws, in any order of its chunks: when it succeeds and
    what it then creates, what a failed one leaves behind, and what this decides for the checks I3c and I9.

  \<^bold>\<open>Code outside the repository.\<close> grafeo, Loro, the codecs, serde, bincode, the tokio channel, the hasher of the
  standard library and floating point are records of functions or function arguments (\<open>session_api\<close>, \<open>db_api\<close>,
  \<open>loro_api\<close>, \<open>cdc_api\<close>, \<open>tree_api\<close>, \<open>codec_api\<close>, \<open>doc_io_api\<close>, \<open>vertex_api\<close>, \<open>json_api\<close>, \<open>bincode_api\<close>,
  \<open>vector_api\<close>, \<open>mpsc_api\<close>, \<open>mirror_api\<close>, \<open>read_api\<close>, \<open>fs_api\<close>, \<open>meter_api\<close>,
  \<open>lane_hash\<close>, \<open>f64_ops\<close>). What a theorem needs of them is a named hypothesis (ids are
  fresh: \<open>session_fresh\<close>; a map returns what was inserted: \<open>loro_map_laws\<close>; a codec decodes what it encoded:
  \<open>codec_laws\<close>; an imported snapshot has the exported content: \<open>snapshot_laws\<close>; the channel keeps the order:
  \<open>mpsc_laws\<close>; the database creates while ids are left and reports the edges it holds: \<open>harness_db\<close>,
  \<open>graph_laws\<close>; it commits and counts what hydration creates: \<open>boot_db\<close>; the keys of the mirrored map follow its calls:
  \<open>mirror_laws\<close>; the scores are comparable: \<open>comparable\<close>), each shown to hold for a concrete instance in
  the witnesses. The order in which hash containers are iterated is a function argument of which only the set of elements
  is assumed, or the order of an association list that the theorems do not depend on.

  \<^bold>\<open>Termination.\<close> No fuel is used. The searches are total functions with measures over the nodes
  not yet coloured or visited; two walks need not end and are partial functions whose value \<open>None\<close> means that they
  do not return: the walk up the parent chain (\<open>walk_up\<close>) and the walk along first parents (\<open>reach\<close>). That they
  return on acyclic guards and on the stores the operations build is part of the theorems about moves and resets.

  \<^bold>\<open>Not modelled.\<close> Threads, locks and task spawning (each lock-protected section is one step), the
  exporters, the accessors of the application, which return its fields, the JavaScript glue without logic,
  module roots with re-exports, and everything inside grafeo, Loro, lorosurgeon, OpenTelemetry, tokio, the decoder
  \<^verbatim>\<open>arbitrary\<close> of the fuzz inputs and the codecs.
\<close>

end
